(* ===== verification/Noctis_Prelude.thy ===== *)
theory Noctis_Prelude
  imports Main "HOL-Library.Word"
begin

text \<open>
  Shared vocabulary of the development.

  \<^item> Machine integers: \<open>u8\<close>, \<open>u16\<close>, \<open>u32\<close>, \<open>u64\<close>, \<open>usize\<close> and \<open>i32\<close> are words of
    the width they have on the target (x86-64), so nothing is unbounded by accident.
  \<^item> Outcomes: a Rust function either returns or ends in a \<open>fault\<close>.  The kernel and the
    loader are built with the debug profile (\<open>cargo build\<close> in the Taskfiles), where
    arithmetic overflow panics and \<open>debug_assert!\<close> is checked; the checked operations
    below are those of that profile.
  \<^item> \<open>bind_out\<close> sequences two computations, \<open>rust_result\<close> is Rust's
    \<open>Result<T, &'static str>\<close>.
  \<^item> The generic facts about words, lists and outcomes that the components share.
\<close>

unbundle bit_operations_syntax

named_theorems outcome_simps
named_theorems chk_defs

section \<open>Machine integers\<close>

type_synonym u8 = "8 word"
type_synonym u16 = "16 word"
type_synonym u32 = "32 word"
type_synonym u64 = "64 word"
type_synonym usize = "64 word"
type_synonym i32 = "32 word"

section \<open>Faults and outcomes\<close>

text \<open>
  The ways in which a call may fail to return: a panic (with its cause), undefined
  behaviour through a pointer that does not point to a live object, and a spin lock that
  is never released.
\<close>

datatype fault =
    Arith_overflow            \<comment> \<open>attempt to add, subtract, multiply or shift with overflow\<close>
  | Index_out_of_bounds       \<comment> \<open>array index past the end\<close>
  | Assert_failed             \<comment> \<open>\<open>assert!\<close> or \<open>debug_assert!\<close>\<close>
  | Unwrap_failed             \<comment> \<open>\<open>unwrap\<close> or \<open>expect\<close> on \<open>None\<close> or \<open>Err\<close>\<close>
  | Panicked string           \<comment> \<open>explicit \<open>panic!\<close> with its message\<close>
  | Alloc_error               \<comment> \<open>\<open>Box::new\<close> on an exhausted heap\<close>
  | Bad_pointer               \<comment> \<open>a dereference that reaches no object of the type\<close>
  | Deadlock                  \<comment> \<open>spinning on a lock that nobody will release\<close>

type_synonym 'a outcome = "fault + 'a"

type_synonym 'a rust_result = "string + 'a"

definition bind_out :: "'a outcome \<Rightarrow> ('a \<Rightarrow> 'b outcome) \<Rightarrow> 'b outcome" where
  "bind_out x f = (case x of Inl e \<Rightarrow> Inl e | Inr y \<Rightarrow> f y)"

lemma bind_out_Inl [simp]: "bind_out (Inl e) f = Inl e"
  by (simp add: bind_out_def)

lemma bind_out_Inr [simp]: "bind_out (Inr x) f = f x"
  by (simp add: bind_out_def)

lemma bind_out_cong [fundef_cong]:
  "x = y \<Longrightarrow> (\<And>z. y = Inr z \<Longrightarrow> f z = g z) \<Longrightarrow> bind_out x f = bind_out y g"
  by (simp add: bind_out_def split: sum.split)

lemma bind_out_eq_Inr_iff [outcome_simps]:
  "bind_out x f = Inr z \<longleftrightarrow> (\<exists>y. x = Inr y \<and> f y = Inr z)"
  by (simp add: bind_out_def split: sum.split)

lemma bind_out_assoc:
  "bind_out (bind_out x f) g = bind_out x (\<lambda>y. bind_out (f y) g)"
  by (simp add: bind_out_def split: sum.split)

text \<open>Sequencing of computations that may panic or run forever.\<close>

definition bind_run :: "'a outcome option \<Rightarrow> ('a \<Rightarrow> 'b outcome option) \<Rightarrow> 'b outcome option" where
  "bind_run x f = (case x of None \<Rightarrow> None | Some (Inl err) \<Rightarrow> Some (Inl err) | Some (Inr y) \<Rightarrow> f y)"

lemma bind_run_simps [simp]:
  "bind_run None f = None" "bind_run (Some (Inl err)) f = Some (Inl err)" "bind_run (Some (Inr y)) f = f y"
  by (simp_all add: bind_run_def)

definition unwrap_option :: "'a option \<Rightarrow> 'a outcome" where
  "unwrap_option x = (case x of None \<Rightarrow> Inl Unwrap_failed | Some y \<Rightarrow> Inr y)"

definition unwrap_result :: "'a rust_result \<Rightarrow> 'a outcome" where
  "unwrap_result r = (case r of Inl e \<Rightarrow> Inl Unwrap_failed | Inr y \<Rightarrow> Inr y)"

definition rust_assert :: "bool \<Rightarrow> unit outcome" where
  "rust_assert b = (if b then Inr () else Inl Assert_failed)"

lemma unwrap_option_simps [simp]:
  "unwrap_option None = Inl Unwrap_failed" "unwrap_option (Some x) = Inr x"
  by (simp_all add: unwrap_option_def)

lemma unwrap_result_simps [simp]:
  "unwrap_result (Inl e) = Inl Unwrap_failed" "unwrap_result (Inr x) = Inr x"
  by (simp_all add: unwrap_result_def)

lemma rust_assert_simps [simp]:
  "b \<Longrightarrow> rust_assert b = Inr ()" "\<not> b \<Longrightarrow> rust_assert b = Inl Assert_failed"
  by (simp_all add: rust_assert_def)

lemma rust_assert_Inr_iff [outcome_simps]: "rust_assert b = Inr u \<longleftrightarrow> b"
  by (simp add: rust_assert_def)

section \<open>Checked arithmetic of the debug profile\<close>

definition add_chk :: "'a::len word \<Rightarrow> 'a word \<Rightarrow> 'a word outcome" where
  "add_chk a b = (if unat a + unat b < 2 ^ LENGTH('a) then Inr (a + b) else Inl Arith_overflow)"

definition sub_chk :: "'a::len word \<Rightarrow> 'a word \<Rightarrow> 'a word outcome" where
  "sub_chk a b = (if b \<le> a then Inr (a - b) else Inl Arith_overflow)"

definition mul_chk :: "'a::len word \<Rightarrow> 'a word \<Rightarrow> 'a word outcome" where
  "mul_chk a b = (if unat a * unat b < 2 ^ LENGTH('a) then Inr (a * b) else Inl Arith_overflow)"

definition checked_add :: "'a::len word \<Rightarrow> 'a word \<Rightarrow> 'a word option" where
  "checked_add a b = (if unat a + unat b < 2 ^ LENGTH('a) then Some (a + b) else None)"

lemma add_chk_Inr_iff [outcome_simps]:
  "add_chk a b = Inr c \<longleftrightarrow> unat a + unat b < 2 ^ LENGTH('a) \<and> c = (a + b :: 'a::len word)"
  by (auto simp: add_chk_def)

lemma sub_chk_Inr_iff [outcome_simps]:
  "sub_chk a b = Inr c \<longleftrightarrow> b \<le> a \<and> c = (a - b :: 'a::len word)"
  by (auto simp: sub_chk_def)

lemma unat_less_exp: "unat (w :: 'a::len word) < 2 ^ LENGTH('a)"
  by (rule unsigned_less)

lemma unat_usize_less: "unat (w :: usize) < 2 ^ 64"
  using unat_less_exp [of w] by simp

lemma unat_of_nat_usize: "n < 2 ^ 64 \<Longrightarrow> unat (of_nat n :: usize) = n"
  by (simp add: unsigned_of_nat take_bit_nat_eq_self)

lemma unat_mult_no_wrap:
  "unat a * unat b < 2 ^ LENGTH('a) \<Longrightarrow> unat (a * b :: 'a::len word) = unat a * unat b"
  by (rule unat_mult_lem [THEN iffD1])

lemma unat_add_no_wrap:
  "unat a + unat b < 2 ^ LENGTH('a) \<Longrightarrow> unat (a + b :: 'a::len word) = unat a + unat b"
  by (rule unat_add_lem [THEN iffD1])

lemma unat_sub_no_wrap: "b \<le> a \<Longrightarrow> unat (a - b :: 'a::len word) = unat a - unat b"
  by (rule unat_sub)

lemma add_chk_ok:
  "unat a + unat b < 2 ^ LENGTH('a) \<Longrightarrow> add_chk a b = Inr (a + b :: 'a::len word)"
  by (simp add: add_chk_def)

lemma sub_chk_ok: "b \<le> a \<Longrightarrow> sub_chk a b = Inr (a - b :: 'a::len word)"
  by (simp add: sub_chk_def)

section \<open>Masks, shifts and alignment\<close>

text \<open>The index extraction \<open>(x >> s) & 0x1FF\<close> in arithmetic form.\<close>

lemma unat_take_bit_mod: "unat (take_bit n x :: 'a::len word) = unat x mod 2 ^ n"
  by (simp only: unsigned_take_bit_eq) (simp only: take_bit_eq_mod)

lemma unat_drop_bit_div: "unat (drop_bit n x :: 'a::len word) = unat x div 2 ^ n"
  by (simp only: unat_drop_bit_eq) (simp only: drop_bit_eq_div)

lemma unat_and_0x1FF: "unat (x AND 0x1FF :: usize) = unat x mod 512"
proof -
  have "(0x1FF :: usize) = mask 9" by (simp add: mask_eq_exp_minus_1)
  then have "x AND 0x1FF = take_bit 9 x" by (simp only: take_bit_eq_mask)
  then show ?thesis by (simp only: unat_take_bit_mod) simp
qed

text \<open>Rounding down by masking with the complement of \<open>2^n - 1\<close>.\<close>

lemma unat_and_not_mask: "unat (x AND NOT (mask n) :: 'a::len word) = unat x - unat x mod 2 ^ n"
proof -
  have "x AND NOT (mask n) = x - (x AND mask n)"
    by (subst disjunctive_diff_eq_and_not) (auto intro!: bit_word_eqI simp: bit_simps)
  then have eq: "x AND NOT (mask n) = x - take_bit n x"
    by (simp only: take_bit_eq_mask)
  have "take_bit n x \<le> x"
    by (simp only: word_le_nat_alt unat_take_bit_mod) simp
  then show ?thesis
    by (simp only: eq unat_sub unat_take_bit_mod)
qed

text \<open>A power of two has the mask of its exponent as predecessor.\<close>

definition is_power_of_two :: "usize \<Rightarrow> bool" where
  "is_power_of_two a \<longleftrightarrow> a \<noteq> 0 \<and> a AND (a - 1) = 0"

lemma bit_usize_less: "bit (w :: usize) n \<Longrightarrow> n < 64"
  using bit_imp_le_length [of w n] by simp

lemma bit_top:
  assumes "2 ^ k \<le> unat w" "unat w < 2 ^ Suc k"
  shows "bit (w :: 'a::len word) k"
proof -
  have "unat w div 2 ^ k = 1"
    using assms by (intro div_nat_eqI) (simp_all add: mult.commute)
  then have "bit (unat w) k" by (simp only: bit_iff_odd) simp
  then show ?thesis by (simp add: bit_unsigned_iff)
qed

lemma is_power_of_two_exp:
  assumes "is_power_of_two a"
  obtains n where "n < 64" "unat a = 2 ^ n" "a - 1 = mask n"
proof -
  from assms have a0: "a \<noteq> 0" and andz: "a AND (a - 1) = 0"
    by (simp_all add: is_power_of_two_def)
  then have pos: "0 < unat a" by (simp add: unat_gt_0)
  then obtain k where k: "2 ^ k \<le> unat a" "unat a < 2 ^ Suc k"
    using ex_power_ivl1 [of 2 "unat a"] by auto
  have pred: "unat (a - 1) = unat a - 1"
    using a0 by (simp add: unat_minus_one)
  have eq: "unat a = 2 ^ k"
  proof (rule ccontr)
    assume "unat a \<noteq> 2 ^ k"
    with k pred have "2 ^ k \<le> unat (a - 1)" "unat (a - 1) < 2 ^ Suc k" by linarith+
    then have "bit (a - 1) k" by (rule bit_top)
    moreover have "bit a k" using k by (rule bit_top)
    ultimately have "bit (a AND (a - 1)) k" by (simp add: bit_and_iff)
    then show False by (simp add: andz)
  qed
  have k64: "k < 64"
  proof (rule ccontr)
    assume "\<not> k < 64"
    then have "(2 :: nat) ^ 64 \<le> 2 ^ k" by (intro power_increasing) simp_all
    moreover have "unat a < 2 ^ 64" by (rule unat_usize_less)
    ultimately show False using k(1) by linarith
  qed
  have "a - 1 = mask k"
  proof -
    have "of_nat (unat a) = (of_nat (2 ^ k) :: usize)"
      by (simp only: eq)
    then have "a = 2 ^ k" by simp
    then show ?thesis by (simp add: mask_eq_exp_minus_1)
  qed
  with k64 eq show ?thesis by (rule that)
qed

definition align_up_nat :: "nat \<Rightarrow> nat \<Rightarrow> nat" where
  "align_up_nat a x = (x + (a - 1)) div a * a"

lemma align_up_nat_ge: "0 < a \<Longrightarrow> x \<le> align_up_nat a x"
proof -
  assume a: "0 < a"
  have "x + (a - 1) = align_up_nat a x + (x + (a - 1)) mod a"
    by (simp add: align_up_nat_def)
  moreover have "(x + (a - 1)) mod a \<le> a - 1"
    using a by (simp add: Suc_leI less_Suc_eq_le [symmetric])
  ultimately show ?thesis by linarith
qed

lemma align_up_nat_less: "0 < a \<Longrightarrow> align_up_nat a x < x + a"
  using div_times_less_eq_dividend [of "x + (a - 1)" a] unfolding align_up_nat_def by linarith

lemma align_up_nat_dvd [simp]: "a dvd align_up_nat a x"
  by (simp add: align_up_nat_def)

lemma align_up_nat_least:
  assumes "0 < a" "a dvd y" "x \<le> y"
  shows "align_up_nat a x \<le> y"
proof -
  from assms(2) obtain k where y: "y = a * k" by blast
  have "(x + (a - 1)) div a \<le> ((a - 1) + a * k) div a"
    using assms(3) y by (intro div_le_mono) simp
  also have "\<dots> = k"
    using assms(1) by (subst div_mult_self2) simp_all
  finally show ?thesis unfolding align_up_nat_def y by (metis mult.commute mult_le_mono2)
qed

lemma align_up_nat_id: "0 < a \<Longrightarrow> a dvd x \<Longrightarrow> align_up_nat a x = x"
  by (simp add: align_up_nat_ge align_up_nat_least dual_order.antisym)

end
