(* ===== verification/Memlayout.thy ===== *)
theory Memlayout
  imports Noctis_Prelude
begin

text \<open>
  The address types and the memory layout of the kernel (\<open>kernel/src/memlayout.rs\<close>):
  the newtypes \<open>PhysAddr\<close>, \<open>VirtAddr\<close> and \<open>MSize\<close> over \<open>usize\<close>, the \<open>Address\<close> trait
  with its checked arithmetic, page-table index extraction, and the two conversions
  between physical and virtual addresses.  The trait is the locale \<open>Address_trait\<close>,
  interpreted for both address types.
\<close>

section \<open>Address types\<close>

datatype PhysAddr = PhysAddr (phys_usize: usize)

datatype VirtAddr = VirtAddr (virt_usize: usize)

datatype MSize = MSize (msize_usize: usize)

text \<open>Both address types derive \<open>Ord\<close>: the order of the wrapped integer.\<close>

instantiation PhysAddr :: linorder
begin

definition less_eq_PhysAddr :: "PhysAddr \<Rightarrow> PhysAddr \<Rightarrow> bool" where
  "less_eq_PhysAddr a b \<longleftrightarrow> phys_usize a \<le> phys_usize b"

definition less_PhysAddr :: "PhysAddr \<Rightarrow> PhysAddr \<Rightarrow> bool" where
  "less_PhysAddr a b \<longleftrightarrow> phys_usize a < phys_usize b"

instance
  by standard (auto simp: less_eq_PhysAddr_def less_PhysAddr_def PhysAddr.expand)

end

instantiation VirtAddr :: linorder
begin

definition less_eq_VirtAddr :: "VirtAddr \<Rightarrow> VirtAddr \<Rightarrow> bool" where
  "less_eq_VirtAddr a b \<longleftrightarrow> virt_usize a \<le> virt_usize b"

definition less_VirtAddr :: "VirtAddr \<Rightarrow> VirtAddr \<Rightarrow> bool" where
  "less_VirtAddr a b \<longleftrightarrow> virt_usize a < virt_usize b"

instance
  by standard (auto simp: less_eq_VirtAddr_def less_VirtAddr_def VirtAddr.expand)

end

lemmas addr_order_simps [simp] =
  less_eq_PhysAddr_def less_PhysAddr_def less_eq_VirtAddr_def less_VirtAddr_def

section \<open>The operations of the Address trait\<close>

definition phys_add :: "PhysAddr \<Rightarrow> MSize \<Rightarrow> PhysAddr outcome" where
  "phys_add a s = bind_out (add_chk (phys_usize a) (msize_usize s)) (\<lambda>x. Inr (PhysAddr x))"

definition phys_sub :: "PhysAddr \<Rightarrow> MSize \<Rightarrow> PhysAddr outcome" where
  "phys_sub a s = bind_out (sub_chk (phys_usize a) (msize_usize s)) (\<lambda>x. Inr (PhysAddr x))"

definition virt_add :: "VirtAddr \<Rightarrow> MSize \<Rightarrow> VirtAddr outcome" where
  "virt_add a s = bind_out (add_chk (virt_usize a) (msize_usize s)) (\<lambda>x. Inr (VirtAddr x))"

definition virt_sub :: "VirtAddr \<Rightarrow> MSize \<Rightarrow> VirtAddr outcome" where
  "virt_sub a s = bind_out (sub_chk (virt_usize a) (msize_usize s)) (\<lambda>x. Inr (VirtAddr x))"

text \<open>
  \<open>align_up\<close> goes through \<open>align_offset\<close> of a byte pointer, which panics unless the
  alignment is a power of two and otherwise returns the distance to the next multiple;
  \<open>ptr.add\<close> must not leave the address space.
\<close>

definition align_offset :: "usize \<Rightarrow> usize \<Rightarrow> usize outcome" where
  "align_offset p align =
     (if is_power_of_two align
      then Inr (((p + (align - 1)) AND NOT (align - 1)) - p)
      else Inl (Panicked ''align_offset: align is not a power-of-two''))"

definition align_up :: "usize \<Rightarrow> usize \<Rightarrow> usize outcome" where
  "align_up p align = bind_out (align_offset p align) (\<lambda>off. add_chk p off)"

definition phys_align_up :: "PhysAddr \<Rightarrow> usize \<Rightarrow> PhysAddr outcome" where
  "phys_align_up a align = bind_out (align_up (phys_usize a) align) (\<lambda>x. Inr (PhysAddr x))"

definition virt_align_up :: "VirtAddr \<Rightarrow> usize \<Rightarrow> VirtAddr outcome" where
  "virt_align_up a align = bind_out (align_up (virt_usize a) align) (\<lambda>x. Inr (VirtAddr x))"

definition from_address :: "('a::linorder \<Rightarrow> usize) \<Rightarrow> 'a \<Rightarrow> 'a \<Rightarrow> MSize outcome" where
  "from_address to_usize start_addr end_addr =
     bind_out (rust_assert (start_addr \<le> end_addr)) (\<lambda>_.
     bind_out (sub_chk (to_usize end_addr) (to_usize start_addr)) (\<lambda>d. Inr (MSize d)))"

definition page_align_up :: "MSize \<Rightarrow> MSize outcome" where
  "page_align_up s = bind_out (add_chk (msize_usize s) 0xFFF) (\<lambda>x. Inr (MSize (x AND NOT 0xFFF)))"

section \<open>Page-table indices of a virtual address\<close>

text \<open>
  \<open>(self.0 >> (12 + (level - 1) * 9)) & 0x1FF\<close>: \<open>level - 1\<close> underflows at level 0 and the
  shift panics once its amount reaches 64.
\<close>

definition nth_level_table_index :: "VirtAddr \<Rightarrow> nat \<Rightarrow> nat outcome" where
  "nth_level_table_index va level =
     (if level = 0 then Inl Arith_overflow
      else let s = 12 + (level - 1) * 9 in
        if 64 \<le> s then Inl Arith_overflow
        else Inr (unat (drop_bit s (virt_usize va) AND 0x1FF)))"

definition pml4_index :: "VirtAddr \<Rightarrow> nat outcome" where
  "pml4_index va = nth_level_table_index va 4"

definition pdpt_index :: "VirtAddr \<Rightarrow> nat outcome" where
  "pdpt_index va = nth_level_table_index va 3"

definition pd_index :: "VirtAddr \<Rightarrow> nat outcome" where
  "pd_index va = nth_level_table_index va 2"

definition pt_index :: "VirtAddr \<Rightarrow> nat outcome" where
  "pt_index va = nth_level_table_index va 1"

section \<open>Layout constants and the two address conversions\<close>

definition KERNEL_CODE_BASE_VADDR :: VirtAddr where
  "KERNEL_CODE_BASE_VADDR = VirtAddr 0xFFFFFFFF80000000"

definition LINER_MAPPING_BASE_VADDR :: VirtAddr where
  "LINER_MAPPING_BASE_VADDR = VirtAddr 0xFFFF888000000000"

definition LINER_MAPPING_SIZE :: MSize where
  "LINER_MAPPING_SIZE = MSize 0x8000000000"

definition MAX_PHYS_ADDR :: PhysAddr where
  "MAX_PHYS_ADDR = PhysAddr 0xFFFFFFFFFFFFFF"

definition APIC_IO_START_ADDR :: usize where
  "APIC_IO_START_ADDR = 0xFEE00000"

definition APIC_IO_SIZE :: MSize where
  "APIC_IO_SIZE = MSize 0x1000"

lemmas layout_defs [chk_defs] =
  KERNEL_CODE_BASE_VADDR_def LINER_MAPPING_BASE_VADDR_def LINER_MAPPING_SIZE_def
  MAX_PHYS_ADDR_def APIC_IO_START_ADDR_def APIC_IO_SIZE_def

definition phys_to_virt :: "PhysAddr \<Rightarrow> VirtAddr outcome" where
  "phys_to_virt phys =
     bind_out (rust_assert (phys < MAX_PHYS_ADDR)) (\<lambda>_.
     bind_out (add_chk (phys_usize phys) (virt_usize LINER_MAPPING_BASE_VADDR)) (\<lambda>x.
     Inr (VirtAddr x)))"

definition virt_to_phys :: "VirtAddr \<Rightarrow> PhysAddr outcome" where
  "virt_to_phys virt =
     bind_out (rust_assert (virt \<ge> LINER_MAPPING_BASE_VADDR)) (\<lambda>_.
     bind_out (virt_add LINER_MAPPING_BASE_VADDR LINER_MAPPING_SIZE) (\<lambda>liner_end.
     if virt \<ge> LINER_MAPPING_BASE_VADDR \<and> virt \<le> liner_end
     then bind_out (sub_chk (virt_usize virt) (virt_usize LINER_MAPPING_BASE_VADDR))
            (\<lambda>x. Inr (PhysAddr x))
     else if virt \<ge> KERNEL_CODE_BASE_VADDR
     then bind_out (sub_chk (virt_usize virt) (virt_usize KERNEL_CODE_BASE_VADDR))
            (\<lambda>x. Inr (PhysAddr x))
     else Inl (Panicked ''virt_to_phys: unsupported address region'')))"

section \<open>Rounding up to an alignment\<close>

lemma align_round:
  assumes pow: "is_power_of_two align" and ov: "unat p + unat (align - 1) < 2 ^ 64"
  shows "unat ((p + (align - 1)) AND NOT (align - 1)) = align_up_nat (unat align) (unat p)"
proof -
  from pow obtain n where n: "n < 64" "unat align = 2 ^ n" "align - 1 = mask n"
    by (rule is_power_of_two_exp)
  have pred: "unat (align - 1) = 2 ^ n - 1"
    using pow n(2) by (simp add: is_power_of_two_def unat_minus_one)
  let ?s = "unat p + (2 ^ n - 1)"
  have sum: "unat (p + (align - 1)) = ?s"
    using ov pred by (simp add: unat_add_no_wrap)
  have "unat ((p + (align - 1)) AND NOT (align - 1)) = ?s - ?s mod 2 ^ n"
    by (subst n(3)) (simp only: unat_and_not_mask sum)
  also have "\<dots> = align_up_nat (unat align) (unat p)"
    by (simp only: align_up_nat_def n(2) minus_mod_eq_div_mult)
  finally show ?thesis .
qed

text \<open>
  \<open>align_up\<close> either returns the least multiple of the alignment that is not below the
  address, or overflows because that multiple lies outside the address space.
\<close>

lemma align_up_spec:
  assumes pow: "is_power_of_two align" and ov: "unat p + unat (align - 1) < 2 ^ 64"
  shows "\<exists>q. align_up p align = Inr q \<and> unat q = align_up_nat (unat align) (unat p)"
proof -
  let ?q = "(p + (align - 1)) AND NOT (align - 1)"
  have q: "unat ?q = align_up_nat (unat align) (unat p)"
    using assms by (rule align_round)
  have a0: "0 < unat align"
    using pow by (simp add: is_power_of_two_def unat_gt_0)
  have le: "p \<le> ?q"
    using align_up_nat_ge [OF a0, of "unat p"] q by (simp add: word_le_nat_alt)
  have "unat p + unat (?q - p) = unat ?q"
    using le by (simp add: unat_sub word_le_nat_alt)
  then have "unat p + unat (?q - p) < 2 ^ 64"
    using unat_usize_less [of ?q] by linarith
  then have "align_up p align = Inr ?q"
    using pow by (simp add: align_up_def align_offset_def add_chk_ok)
  with q show ?thesis by blast
qed

lemma page_align_up_spec:
  assumes "unat (msize_usize s) + 0xFFF < 2 ^ 64"
  shows "\<exists>t. page_align_up s = Inr t \<and>
    unat (msize_usize t) = align_up_nat 4096 (unat (msize_usize s))"
proof -
  have pow: "is_power_of_two 4096" by (simp add: is_power_of_two_def)
  have "unat ((msize_usize s + 0xFFF) AND NOT 0xFFF) = align_up_nat 4096 (unat (msize_usize s))"
    using align_round [OF pow, of "msize_usize s"] assms by simp
  moreover have "page_align_up s = Inr (MSize ((msize_usize s + 0xFFF) AND NOT 0xFFF))"
    using assms by (simp add: page_align_up_def add_chk_ok)
  ultimately show ?thesis by simp
qed

section \<open>The trait as an interface\<close>

locale Address_trait =
  fixes to_usize :: "'a::linorder \<Rightarrow> usize"
    and from_usize :: "usize \<Rightarrow> 'a"
    and add :: "'a \<Rightarrow> MSize \<Rightarrow> 'a outcome"
    and sub :: "'a \<Rightarrow> MSize \<Rightarrow> 'a outcome"
    and align :: "'a \<Rightarrow> usize \<Rightarrow> 'a outcome"
  assumes to_from: "to_usize (from_usize x) = x"
    and from_to: "from_usize (to_usize a) = a"
    and order: "a \<le> b \<longleftrightarrow> to_usize a \<le> to_usize b"
    and add: "add a s = bind_out (add_chk (to_usize a) (msize_usize s)) (\<lambda>x. Inr (from_usize x))"
    and sub: "sub a s = bind_out (sub_chk (to_usize a) (msize_usize s)) (\<lambda>x. Inr (from_usize x))"
    and align: "align a n = bind_out (align_up (to_usize a) n) (\<lambda>x. Inr (from_usize x))"
begin

lemma add_Inr_iff:
  "add a s = Inr b \<longleftrightarrow>
     unat (to_usize a) + unat (msize_usize s) < 2 ^ 64 \<and> to_usize b = to_usize a + msize_usize s"
  using to_from from_to by (auto simp: add outcome_simps) metis

lemma from_address_inverse: "from_address to_usize a b = Inr s \<longleftrightarrow> add a s = Inr b"
proof
  assume "from_address to_usize a b = Inr s"
  then have le: "to_usize a \<le> to_usize b" and s: "s = MSize (to_usize b - to_usize a)"
    by (auto simp: from_address_def outcome_simps order)
  have "unat (to_usize b - to_usize a) = unat (to_usize b) - unat (to_usize a)"
    using le by (rule unat_sub_no_wrap)
  with le s show "add a s = Inr b"
    using unat_usize_less [of "to_usize b"] by (simp add: add_Inr_iff word_le_nat_alt)
next
  assume "add a s = Inr b"
  then have ov: "unat (to_usize a) + unat (msize_usize s) < 2 ^ 64"
    and b: "to_usize b = to_usize a + msize_usize s"
    by (simp_all add: add_Inr_iff)
  then have "unat (to_usize b) = unat (to_usize a) + unat (msize_usize s)"
    by (simp add: unat_add_no_wrap)
  then have "to_usize a \<le> to_usize b" by (simp add: word_le_nat_alt)
  with b show "from_address to_usize a b = Inr s"
    by (simp add: from_address_def order sub_chk_ok)
qed

lemma add_sub_cancel: "add a s = Inr b \<Longrightarrow> sub b s = Inr a"
proof -
  assume "add a s = Inr b"
  then have ov: "unat (to_usize a) + unat (msize_usize s) < 2 ^ 64"
    and b: "to_usize b = to_usize a + msize_usize s"
    by (simp_all add: add_Inr_iff)
  then have "msize_usize s \<le> to_usize b"
    by (simp add: word_le_nat_alt unat_add_no_wrap)
  with b show "sub b s = Inr a" by (simp add: sub sub_chk_ok from_to)
qed

lemma align_least:
  assumes "is_power_of_two n" "unat (to_usize a) + unat (n - 1) < 2 ^ 64"
  obtains b where "align a n = Inr b" "a \<le> b" "unat n dvd unat (to_usize b)"
    "\<And>c. a \<le> c \<Longrightarrow> unat n dvd unat (to_usize c) \<Longrightarrow> b \<le> c"
proof -
  from assms obtain q where q: "align_up (to_usize a) n = Inr q"
      "unat q = align_up_nat (unat n) (unat (to_usize a))"
    using align_up_spec by blast
  have n0: "0 < unat n" using assms(1) by (simp add: is_power_of_two_def unat_gt_0)
  show ?thesis
  proof (rule that [of "from_usize q"])
    show "align a n = Inr (from_usize q)" by (simp add: align q(1))
    show "a \<le> from_usize q"
      by (simp add: order to_from word_le_nat_alt q(2) align_up_nat_ge [OF n0])
    show "unat n dvd unat (to_usize (from_usize q))" by (simp add: to_from q(2))
    show "from_usize q \<le> c" if "a \<le> c" "unat n dvd unat (to_usize c)" for c
      using that by (simp add: order to_from word_le_nat_alt q(2) align_up_nat_least [OF n0])
  qed
qed

end

interpretation phys_trait: Address_trait phys_usize PhysAddr phys_add phys_sub phys_align_up
  by unfold_locales (simp_all add: phys_add_def phys_sub_def phys_align_up_def)

interpretation virt_trait: Address_trait virt_usize VirtAddr virt_add virt_sub virt_align_up
  by unfold_locales (simp_all add: virt_add_def virt_sub_def virt_align_up_def)

section \<open>Index extraction\<close>

lemma nth_level_table_index_div:
  assumes "1 \<le> level" "level \<le> 4"
  shows "nth_level_table_index va level =
    Inr (unat (virt_usize va) div 2 ^ (12 + (level - 1) * 9) mod 512)"
proof -
  have "12 + (level - 1) * 9 < 64" using assms by simp
  then show ?thesis
    using assms(1)
    by (simp add: nth_level_table_index_def Let_def unat_and_0x1FF unat_drop_bit_div
        del: drop_bit_eq_div)
qed

text \<open>
  The page number of an address and the path of table indices the four levels take from it,
  from the PML4 down to the page table.
\<close>

definition page_number :: "VirtAddr \<Rightarrow> nat" where
  "page_number va = unat (virt_usize va) div 4096"

definition page_path :: "nat \<Rightarrow> nat list" where
  "page_path n = [n div 512 ^ 3 mod 512, n div 512 ^ 2 mod 512, n div 512 mod 512, n mod 512]"

lemma level_indices:
  "nth_level_table_index va 4 = Inr (page_path (page_number va) ! 0)"
  "nth_level_table_index va 3 = Inr (page_path (page_number va) ! 1)"
  "nth_level_table_index va 2 = Inr (page_path (page_number va) ! 2)"
  "nth_level_table_index va (Suc 0) = Inr (page_path (page_number va) ! 3)"
  by (simp_all add: nth_level_table_index_div page_path_def page_number_def div_mult2_eq [symmetric])

lemma page_path_length [simp]: "length (page_path n) = 4"
  by (simp add: page_path_def)

lemma page_path_less: "i \<in> set (page_path n) \<Longrightarrow> i < 512"
  by (auto simp: page_path_def)

lemma split_512: "(n :: nat) mod (512 * k) = n mod 512 + 512 * (n div 512 mod k)"
  by (simp add: mod_mult2_eq)

text \<open>Two page numbers take the same path exactly when they agree in their low 36 bits.\<close>

lemma page_number_mod:
  fixes n :: nat
  shows "n mod 2 ^ 36 =
     n mod 512 + 512 * (n div 512 mod 512 + 512 * (n div 512 ^ 2 mod 512 + 512 * (n div 512 ^ 3 mod 512)))"
proof -
  have "n mod 2 ^ 36 = n mod (512 * (512 * (512 * 512)))" by simp
  also have "\<dots> = n mod 512 + 512 * (n div 512 mod 512 + 512 *
      (n div 512 div 512 mod 512 + 512 * (n div 512 div 512 div 512 mod 512)))"
    by (simp only: split_512)
  finally show ?thesis by (simp add: div_mult2_eq [symmetric])
qed

lemma reassemble:
  fixes v a b c d :: nat
  shows "v + 4096 * (a + 512 * (b + 512 * (c + 512 * d))) =
    d * 2 ^ 39 + c * 2 ^ 30 + b * 2 ^ 21 + a * 2 ^ 12 + v"
  by simp

lemma digit_512:
  fixes a b a' b' :: nat
  assumes "a < 512" "a' < 512"
  shows "a + 512 * b = a' + 512 * b' \<longleftrightarrow> a = a' \<and> b = b'"
proof
  assume eq: "a + 512 * b = a' + 512 * b'"
  then have "(a + 512 * b) mod 512 = (a' + 512 * b') mod 512" by (rule arg_cong)
  then have "a = a'" using assms by simp
  with eq show "a = a' \<and> b = b'" by simp
qed simp

lemma page_path_eq_iff: "page_path m = page_path n \<longleftrightarrow> m mod 2 ^ 36 = n mod 2 ^ 36"
  unfolding page_number_mod page_path_def
  by (simp only: digit_512 mod_less_divisor zero_less_numeral list.inject) blast

section \<open>Conversions between physical and virtual addresses\<close>

lemma phys_to_virt_ok:
  assumes "unat (phys_usize p) < 0x778000000000"
  shows "phys_to_virt p = Inr (VirtAddr (phys_usize p + 0xFFFF888000000000))"
  using assms by (simp add: phys_to_virt_def layout_defs add_chk_ok word_less_nat_alt)

lemma phys_to_virt_overflow:
  assumes "0x778000000000 \<le> unat (phys_usize p)" "unat (phys_usize p) < 0xFFFFFFFFFFFFFF"
  shows "phys_to_virt p = Inl Arith_overflow"
  using assms by (simp add: phys_to_virt_def layout_defs add_chk_def word_less_nat_alt)

lemma virt_to_phys_linear:
  assumes "0xFFFF888000000000 \<le> virt_usize v" "virt_usize v \<le> 0xFFFF890000000000"
  shows "virt_to_phys v = Inr (PhysAddr (virt_usize v - 0xFFFF888000000000))"
  using assms by (simp add: virt_to_phys_def virt_add_def layout_defs add_chk_def sub_chk_ok)

lemma virt_to_phys_kernel:
  assumes "0xFFFFFFFF80000000 \<le> virt_usize v"
  shows "virt_to_phys v = Inr (PhysAddr (virt_usize v - 0xFFFFFFFF80000000))"
proof -
  have "0xFFFF888000000000 \<le> virt_usize v" "\<not> virt_usize v \<le> 0xFFFF890000000000"
    using assms by (simp_all add: word_le_nat_alt)
  with assms show ?thesis
    by (simp add: virt_to_phys_def virt_add_def layout_defs add_chk_def sub_chk_ok)
qed

lemma linear_offset:
  assumes "unat (phys_usize p) \<le> 0x8000000000"
  shows "unat (phys_usize p + 0xFFFF888000000000) = unat (phys_usize p) + 0xFFFF888000000000"
  using assms by (simp add: unat_add_no_wrap)

text \<open>
  C33: on the 512 GiB of physical memory that the linear mapping covers (and on the address
  one past it) \<open>phys_to_virt\<close> returns an address of the linear window and \<open>virt_to_phys\<close>
  takes it back to the same physical address.
\<close>

theorem phys_virt_roundtrip:
  assumes "p \<le> PhysAddr (msize_usize LINER_MAPPING_SIZE)"
  shows "\<exists>v. phys_to_virt p = Inr v \<and> LINER_MAPPING_BASE_VADDR \<le> v \<and> virt_to_phys v = Inr p"
proof -
  have p: "unat (phys_usize p) \<le> 0x8000000000"
    using assms by (simp add: layout_defs word_le_nat_alt)
  let ?v = "VirtAddr (phys_usize p + 0xFFFF888000000000)"
  have "phys_to_virt p = Inr ?v" using p by (intro phys_to_virt_ok) simp
  moreover have "virt_to_phys ?v = Inr p"
    using p by (subst virt_to_phys_linear) (simp_all add: word_le_nat_alt linear_offset)
  moreover have "LINER_MAPPING_BASE_VADDR \<le> ?v"
    using p by (simp add: layout_defs word_le_nat_alt linear_offset)
  ultimately show ?thesis by blast
qed

theorem phys_virt_roundtrip_witness:
  "PhysAddr 0x1000 \<le> PhysAddr (msize_usize LINER_MAPPING_SIZE) \<and>
   (\<exists>v. phys_to_virt (PhysAddr 0x1000) = Inr v \<and> LINER_MAPPING_BASE_VADDR \<le> v \<and>
        virt_to_phys v = Inr (PhysAddr 0x1000))"
proof -
  have h: "PhysAddr 0x1000 \<le> PhysAddr (msize_usize LINER_MAPPING_SIZE)"
    by (simp add: layout_defs)
  show ?thesis using h phys_virt_roundtrip [OF h] by blast
qed


text \<open>
  C35: the four table indices of a virtual address are below 512 and, with the page offset,
  reassemble its low 48 bits; nothing of the translated part of the address is lost.
\<close>

theorem index_decomposition:
  "\<exists>i4 i3 i2 i1. pml4_index va = Inr i4 \<and> pdpt_index va = Inr i3 \<and> pd_index va = Inr i2 \<and>
     pt_index va = Inr i1 \<and> i4 < 512 \<and> i3 < 512 \<and> i2 < 512 \<and> i1 < 512 \<and>
     unat (virt_usize va) mod 2 ^ 48 =
       i4 * 2 ^ 39 + i3 * 2 ^ 30 + i2 * 2 ^ 21 + i1 * 2 ^ 12 + unat (virt_usize va) mod 4096"
proof -
  let ?v = "unat (virt_usize va)" and ?n = "page_number va"
  have "?v mod 2 ^ 48 = ?v mod (4096 * 2 ^ 36)" by simp
  also have "\<dots> = ?v mod 4096 + 4096 * (?n mod 2 ^ 36)"
    by (simp only: mod_mult2_eq page_number_def)
  also have "\<dots> = ?v mod 4096 + 4096 * (?n mod 512 + 512 * (?n div 512 mod 512 +
      512 * (?n div 512 ^ 2 mod 512 + 512 * (?n div 512 ^ 3 mod 512))))"
    by (simp only: page_number_mod)
  also have "\<dots> = ?n div 512 ^ 3 mod 512 * 2 ^ 39 + ?n div 512 ^ 2 mod 512 * 2 ^ 30 +
      ?n div 512 mod 512 * 2 ^ 21 + ?n mod 512 * 2 ^ 12 + ?v mod 4096"
    by (rule reassemble)
  finally have sum: "?v mod 2 ^ 48 = \<dots>" .
  have idx: "pml4_index va = Inr (?n div 512 ^ 3 mod 512)" "pdpt_index va = Inr (?n div 512 ^ 2 mod 512)"
    "pd_index va = Inr (?n div 512 mod 512)" "pt_index va = Inr (?n mod 512)"
    by (simp_all add: pml4_index_def pdpt_index_def pd_index_def pt_index_def level_indices page_path_def)
  show ?thesis
    by (intro exI conjI, rule idx(1), rule idx(2), rule idx(3), rule idx(4))
      (simp_all only: mod_less_divisor zero_less_numeral sum)
qed

text \<open>
  \<open>MSize::from_address\<close> is the exact inverse of adding a size to an address: it returns
  \<open>s\<close> for a start and an end precisely when start plus \<open>s\<close> is the end without overflow.
\<close>

lemma from_address_virt: "from_address virt_usize a b = Inr s \<longleftrightarrow> virt_add a s = Inr b"
  by (rule virt_trait.from_address_inverse)

text \<open>
  The \<open>debug_assert!\<close> of \<open>phys_to_virt\<close> does not bound its argument by what the addition
  can represent: an address below \<open>MAX_PHYS_ADDR\<close> may still overflow.  And \<open>virt_to_phys\<close>
  accepts the first address after the linear window.
\<close>

lemma phys_to_virt_assert_too_weak:
  "PhysAddr 0x778000000000 < MAX_PHYS_ADDR \<and> phys_to_virt (PhysAddr 0x778000000000) = Inl Arith_overflow"
  by (simp add: phys_to_virt_overflow layout_defs)

lemma virt_to_phys_one_past_end:
  "bind_out (virt_add LINER_MAPPING_BASE_VADDR LINER_MAPPING_SIZE) virt_to_phys =
     Inr (PhysAddr (msize_usize LINER_MAPPING_SIZE))"
  by (simp add: virt_add_def add_chk_def layout_defs virt_to_phys_linear)

end
