(* ===== verification/Paging_Entry.thy ===== *)
theory Paging_Entry
  imports Memlayout
begin

text \<open>
  Page-table entries (\<open>kernel/src/paging.rs\<close>, \<open>PageTableEntry\<close> and \<open>PageTableAttr\<close>): the bit
  accessors, the attributes with their bits, and \<open>set_entry\<close>.  The allocation of the next
  level and the tables themselves are in theory \<open>Paging\<close>.
\<close>

section \<open>Attribute bits\<close>

definition PTE_ATTR_MASK :: u64 where "PTE_ATTR_MASK = 0x7FFFFFFFFFFFF000"
definition PTE_ATTR_PRESENT :: u64 where "PTE_ATTR_PRESENT = push_bit 0 1"
definition PTE_ATTR_WRITABLE :: u64 where "PTE_ATTR_WRITABLE = push_bit 1 1"
definition PTE_ATTR_USER_ACCESSIBLE :: u64 where "PTE_ATTR_USER_ACCESSIBLE = push_bit 2 1"
definition PTE_ATTR_WRITE_THROUGH :: u64 where "PTE_ATTR_WRITE_THROUGH = push_bit 3 1"
definition PTE_ATTR_CACHE_DISABLED :: u64 where "PTE_ATTR_CACHE_DISABLED = push_bit 4 1"
definition PTE_ATTR_HUGE_PAGE :: u64 where "PTE_ATTR_HUGE_PAGE = push_bit 7 1"
definition PTE_ATTR_NOT_EXECUTABLE :: u64 where "PTE_ATTR_NOT_EXECUTABLE = push_bit 63 1"

lemmas pte_bit_defs =
  PTE_ATTR_PRESENT_def PTE_ATTR_WRITABLE_def PTE_ATTR_USER_ACCESSIBLE_def
  PTE_ATTR_WRITE_THROUGH_def PTE_ATTR_CACHE_DISABLED_def PTE_ATTR_HUGE_PAGE_def
  PTE_ATTR_NOT_EXECUTABLE_def

datatype PageTableAttr =
    NotPresent
  | ReadExecuteKernel
  | ReadKernel
  | ReadWriteExecuteKernel
  | ReadWriteKernel
  | ReadWriteKernel1GiB
  | ReadWriteKernelIO

fun attr_u64 :: "PageTableAttr \<Rightarrow> u64" where
  "attr_u64 NotPresent = 0"
| "attr_u64 ReadExecuteKernel = PTE_ATTR_PRESENT"
| "attr_u64 ReadKernel = PTE_ATTR_PRESENT OR PTE_ATTR_NOT_EXECUTABLE"
| "attr_u64 ReadWriteExecuteKernel = PTE_ATTR_PRESENT OR PTE_ATTR_WRITABLE"
| "attr_u64 ReadWriteKernel = PTE_ATTR_PRESENT OR PTE_ATTR_WRITABLE OR PTE_ATTR_NOT_EXECUTABLE"
| "attr_u64 ReadWriteKernel1GiB =
     PTE_ATTR_PRESENT OR PTE_ATTR_WRITABLE OR PTE_ATTR_NOT_EXECUTABLE OR PTE_ATTR_HUGE_PAGE"
| "attr_u64 ReadWriteKernelIO =
     PTE_ATTR_PRESENT OR PTE_ATTR_WRITABLE OR PTE_ATTR_WRITE_THROUGH OR
     PTE_ATTR_CACHE_DISABLED OR PTE_ATTR_NOT_EXECUTABLE"

section \<open>Entries\<close>

record PageTableEntry =
  pte_value :: u64

text \<open>\<open>1 << bit\<close> panics when the shift reaches the width of \<open>u64\<close>.\<close>

definition get_bit :: "PageTableEntry \<Rightarrow> u8 \<Rightarrow> bool outcome" where
  "get_bit e b =
     (if 64 \<le> unat b then Inl Arith_overflow
      else Inr (pte_value e AND push_bit (unat b) 1 \<noteq> 0))"

definition pte_set_bit :: "PageTableEntry \<Rightarrow> u8 \<Rightarrow> bool \<Rightarrow> PageTableEntry outcome" where
  "pte_set_bit e b v =
     (if 64 \<le> unat b then Inl Arith_overflow
      else if v then Inr (e\<lparr>pte_value := pte_value e OR push_bit (unat b) 1\<rparr>)
      else Inr (e\<lparr>pte_value := pte_value e AND NOT (push_bit (unat b) 1)\<rparr>))"

definition is_present :: "PageTableEntry \<Rightarrow> bool outcome" where
  "is_present e = get_bit e 0"

definition is_writable :: "PageTableEntry \<Rightarrow> bool outcome" where
  "is_writable e = get_bit e 1"

definition is_user_accessible :: "PageTableEntry \<Rightarrow> bool outcome" where
  "is_user_accessible e = get_bit e 2"

definition is_huge :: "PageTableEntry \<Rightarrow> bool outcome" where
  "is_huge e = get_bit e 7"

definition is_executable :: "PageTableEntry \<Rightarrow> bool outcome" where
  "is_executable e = bind_out (get_bit e 63) (\<lambda>b. Inr (\<not> b))"

definition pte_paddr :: "PageTableEntry \<Rightarrow> PhysAddr" where
  "pte_paddr e = PhysAddr (pte_value e AND PTE_ATTR_MASK)"

definition set_entry ::
    "PageTableEntry \<Rightarrow> PhysAddr \<Rightarrow> PageTableAttr \<Rightarrow> PageTableEntry \<times> unit rust_result" where
  "set_entry e p attr =
     (if phys_usize p AND NOT PTE_ATTR_MASK \<noteq> 0
      then (e, Inl ''Physical address must be page-aligned'')
      else (e\<lparr>pte_value := phys_usize p OR attr_u64 attr\<rparr>, Inr ()))"

section \<open>Bits of an entry\<close>

text \<open>The flags of an entry as plain predicates, for specifications.\<close>

definition present :: "PageTableEntry \<Rightarrow> bool" where "present e \<longleftrightarrow> bit (pte_value e) 0"
definition writable :: "PageTableEntry \<Rightarrow> bool" where "writable e \<longleftrightarrow> bit (pte_value e) 1"
definition user :: "PageTableEntry \<Rightarrow> bool" where "user e \<longleftrightarrow> bit (pte_value e) 2"
definition huge :: "PageTableEntry \<Rightarrow> bool" where "huge e \<longleftrightarrow> bit (pte_value e) 7"
definition no_exec :: "PageTableEntry \<Rightarrow> bool" where "no_exec e \<longleftrightarrow> bit (pte_value e) 63"

lemmas flag_defs = present_def writable_def user_def huge_def no_exec_def

lemma get_bit_eq: "unat b < 64 \<Longrightarrow> get_bit e b = Inr (bit (pte_value e) (unat b))"
  by (simp add: get_bit_def and_exp_eq_0_iff_not_bit)

lemma flag_reads [simp]:
  "is_present e = Inr (present e)" "is_writable e = Inr (writable e)"
  "is_user_accessible e = Inr (user e)" "is_huge e = Inr (huge e)"
  "is_executable e = Inr (\<not> no_exec e)"
  by (simp_all add: is_present_def is_writable_def is_user_accessible_def is_huge_def
      is_executable_def get_bit_eq flag_defs)

text \<open>The mask splits a word into attribute bits and the bits of a page frame.\<close>

lemma bit_mask_iff_pte: "bit PTE_ATTR_MASK n \<longleftrightarrow> 12 \<le> n \<and> n < 63"
proof -
  have "PTE_ATTR_MASK = push_bit 12 (mask 51)"
    by (simp add: PTE_ATTR_MASK_def mask_eq_exp_minus_1 push_bit_eq_mult)
  then have "bit PTE_ATTR_MASK n = bit (push_bit 12 (mask 51) :: u64) n" by (rule arg_cong)
  then show ?thesis by (simp only: bit_simps) auto
qed

definition frame_addr :: "usize \<Rightarrow> bool" where
  "frame_addr p \<longleftrightarrow> p AND NOT PTE_ATTR_MASK = 0"

lemma frame_addr_bits: "frame_addr p \<longleftrightarrow> (\<forall>n. bit p n \<longrightarrow> 12 \<le> n \<and> n < 63)"
proof -
  have "frame_addr p \<longleftrightarrow> (\<forall>n. \<not> bit (p AND NOT PTE_ATTR_MASK) n)"
    unfolding frame_addr_def by (metis bit_0_eq bot_apply bot_bool_def bit_word_eqI)
  also have "\<dots> \<longleftrightarrow> (\<forall>n. bit p n \<longrightarrow> 12 \<le> n \<and> n < 63)"
    by (simp add: bit_simps bit_mask_iff_pte) (use bit_usize_less in blast)
  finally show ?thesis .
qed

lemma frame_addr_and_mask: "frame_addr p \<Longrightarrow> p AND PTE_ATTR_MASK = p"
  by (rule bit_word_eqI) (auto simp: bit_simps bit_mask_iff_pte frame_addr_bits)

lemma frame_addr_arith:
  assumes "4096 dvd unat p" "unat p < 2 ^ 63"
  shows "frame_addr p"
proof -
  have low_zero: "p AND mask 12 = 0"
    using assms(1) and_mask_dvd_nat [of 12 p] by simp
  have low: "\<not> bit p n" if "n < 12" for n
  proof
    assume "bit p n"
    with that have "bit (p AND mask 12) n" by (simp add: bit_simps)
    with low_zero show False by simp
  qed
  have high: "\<not> bit p 63"
  proof
    assume "bit p 63"
    then have "bit (unat p) 63" by (simp add: bit_unsigned_iff)
    then have "odd (unat p div 2 ^ 63)" unfolding bit_iff_odd .
    with assms(2) show False by simp
  qed
  show ?thesis
    unfolding frame_addr_bits
  proof (intro allI impI)
    fix n assume b: "bit p n"
    then have "n < 64" by (rule bit_usize_less)
    moreover have "n \<noteq> 63" using b high by blast
    moreover have "\<not> n < 12" using b low by blast
    ultimately show "12 \<le> n \<and> n < 63" by simp
  qed
qed

lemma frame_addr_page: "frame_addr p \<Longrightarrow> 4096 dvd unat p"
proof -
  assume "frame_addr p"
  then have "p AND mask 12 = 0"
    by (intro bit_word_eqI) (auto simp: bit_simps frame_addr_bits)
  then show ?thesis using and_mask_dvd_nat [of 12 p] by simp
qed

section \<open>set\_entry\<close>

lemma bit_one_shifted: "k < 64 \<Longrightarrow> bit (push_bit k (1 :: u64)) n \<longleftrightarrow> n = k"
  by (auto simp: bit_simps simp del: push_bit_of_1)

lemma pte_bits:
  "bit PTE_ATTR_PRESENT n \<longleftrightarrow> n = 0" "bit PTE_ATTR_WRITABLE n \<longleftrightarrow> n = 1"
  "bit PTE_ATTR_WRITE_THROUGH n \<longleftrightarrow> n = 3" "bit PTE_ATTR_CACHE_DISABLED n \<longleftrightarrow> n = 4"
  "bit PTE_ATTR_HUGE_PAGE n \<longleftrightarrow> n = 7" "bit PTE_ATTR_NOT_EXECUTABLE n \<longleftrightarrow> n = 63"
  unfolding pte_bit_defs by (rule bit_one_shifted, simp)+

lemma attr_bits:
  "bit (attr_u64 a) n \<longleftrightarrow>
     n = 0 \<and> a \<noteq> NotPresent \<or>
     n = 1 \<and> a \<in> {ReadWriteExecuteKernel, ReadWriteKernel, ReadWriteKernel1GiB, ReadWriteKernelIO} \<or>
     (n = 3 \<or> n = 4) \<and> a = ReadWriteKernelIO \<or>
     n = 7 \<and> a = ReadWriteKernel1GiB \<or>
     n = 63 \<and> a \<in> {ReadKernel, ReadWriteKernel, ReadWriteKernel1GiB, ReadWriteKernelIO}"
  by (cases a) (auto simp: bit_or_iff pte_bits)

lemma attr_and_mask: "attr_u64 a AND PTE_ATTR_MASK = 0"
  by (rule bit_word_eqI) (auto simp: bit_and_iff bit_mask_iff_pte attr_bits)

definition leaf_entry :: "PhysAddr \<Rightarrow> PageTableAttr \<Rightarrow> PageTableEntry" where
  "leaf_entry p attr = \<lparr>pte_value = phys_usize p OR attr_u64 attr\<rparr>"

lemma set_entry_ok: "frame_addr (phys_usize p) \<Longrightarrow> set_entry e p attr = (leaf_entry p attr, Inr ())"
  by (cases e) (simp add: set_entry_def frame_addr_def leaf_entry_def)

lemma set_entry_err:
  "\<not> frame_addr (phys_usize p) \<Longrightarrow>
     set_entry e p attr = (e, Inl ''Physical address must be page-aligned'')"
  by (simp add: set_entry_def frame_addr_def)

lemma leaf_entry_paddr: "frame_addr (phys_usize p) \<Longrightarrow> pte_paddr (leaf_entry p attr) = p"
  by (cases p) (simp add: pte_paddr_def leaf_entry_def word_ao_dist attr_and_mask frame_addr_and_mask)

lemma leaf_entry_flags:
  assumes "frame_addr (phys_usize p)"
  shows "present (leaf_entry p attr) \<longleftrightarrow> attr \<noteq> NotPresent"
    "writable (leaf_entry p attr) \<longleftrightarrow>
       attr \<in> {ReadWriteExecuteKernel, ReadWriteKernel, ReadWriteKernel1GiB, ReadWriteKernelIO}"
    "\<not> user (leaf_entry p attr)"
    "huge (leaf_entry p attr) \<longleftrightarrow> attr = ReadWriteKernel1GiB"
    "no_exec (leaf_entry p attr) \<longleftrightarrow>
       attr \<in> {ReadKernel, ReadWriteKernel, ReadWriteKernel1GiB, ReadWriteKernelIO}"
proof -
  have frame: "\<not> bit (phys_usize p) n" if "n < 12 \<or> n = 63" for n
    using assms that by (auto simp: frame_addr_bits)
  show "present (leaf_entry p attr) \<longleftrightarrow> attr \<noteq> NotPresent"
    "writable (leaf_entry p attr) \<longleftrightarrow>
       attr \<in> {ReadWriteExecuteKernel, ReadWriteKernel, ReadWriteKernel1GiB, ReadWriteKernelIO}"
    "\<not> user (leaf_entry p attr)"
    "huge (leaf_entry p attr) \<longleftrightarrow> attr = ReadWriteKernel1GiB"
    "no_exec (leaf_entry p attr) \<longleftrightarrow>
       attr \<in> {ReadKernel, ReadWriteKernel, ReadWriteKernel1GiB, ReadWriteKernelIO}"
    by (simp_all add: flag_defs leaf_entry_def bit_or_iff frame attr_bits)
qed

text \<open>
  C36: \<open>set_entry\<close> with a page-frame address succeeds; the entry it writes reads back the same
  physical address and exactly the permissions of the attribute: no attribute is both
  writable and executable except \<open>ReadWriteExecuteKernel\<close>, none is reachable from user
  mode, and only the 1 GiB attribute sets the page-size bit.
\<close>

theorem set_entry_roundtrip:
  assumes "phys_usize p AND NOT PTE_ATTR_MASK = 0" "set_entry e p attr = (e', r)"
  shows "r = Inr () \<and> pte_paddr e' = p \<and>
    is_present e' = Inr (attr \<noteq> NotPresent) \<and> is_user_accessible e' = Inr False \<and>
    is_huge e' = Inr (attr = ReadWriteKernel1GiB) \<and>
    is_writable e' = Inr (attr \<in> {ReadWriteExecuteKernel, ReadWriteKernel, ReadWriteKernel1GiB,
      ReadWriteKernelIO}) \<and>
    is_executable e' = Inr (attr \<in> {NotPresent, ReadExecuteKernel, ReadWriteExecuteKernel})"
proof -
  have f: "frame_addr (phys_usize p)" using assms(1) by (simp add: frame_addr_def)
  then have "e' = leaf_entry p attr" "r = Inr ()" using assms(2) by (simp_all add: set_entry_ok)
  with f show ?thesis
    by (cases attr) (simp_all add: leaf_entry_paddr leaf_entry_flags)
qed

theorem set_entry_roundtrip_witness:
  "pte_paddr (fst (set_entry \<lparr>pte_value = 0\<rparr> (PhysAddr 0x5000) ReadKernel)) = PhysAddr 0x5000"
proof -
  have h: "phys_usize (PhysAddr 0x5000) AND NOT PTE_ATTR_MASK = 0"
    by (simp add: PTE_ATTR_MASK_def)
  show ?thesis using set_entry_roundtrip [OF h prod.collapse [symmetric]] by blast
qed

end
