(* ===== verification/Page_Tree.thy ===== *)
theory Page_Tree
  imports Paging_Entry "HOL-Library.Sublist"
begin

text \<open>
  The specification side of paging: what the tables in memory mean.  A memory maps the
  addresses of table nodes to nodes; \<open>node_at\<close> follows a path of indices to a node and
  \<open>lookup\<close> follows a full path of four indices to the leaf entry that translates it, the way
  the hardware walk does (an entry with the page-size bit is a leaf at any level above the
  last).  The function \<open>ptr\<close> that turns an entry into the address at which the code finds
  the next node is a parameter, because the kernel and the loader use different ones.

  \<open>tree_inv\<close> is the shape invariant: the nodes reachable from a root form a tree, every
  table entry points to a node, every node has 512 entries.  The lemmas describe what
  writing one entry, or hanging a fresh zeroed node below an entry, does to \<open>lookup\<close>.
\<close>

section \<open>Nodes and paths\<close>

record PageTableNode =
  entries :: "PageTableEntry list"

type_synonym node_mem = "usize \<Rightarrow> PageTableNode option"

definition zeroed_entry :: PageTableEntry where
  "zeroed_entry = \<lparr>pte_value = 0\<rparr>"

definition zeroed_node :: PageTableNode where
  "zeroed_node = \<lparr>entries = replicate 512 zeroed_entry\<rparr>"

definition table_entry :: "PageTableEntry \<Rightarrow> bool" where
  "table_entry e \<longleftrightarrow> present e \<and> \<not> huge e"

fun node_at :: "(PageTableEntry \<Rightarrow> usize) \<Rightarrow> node_mem \<Rightarrow> usize \<Rightarrow> nat list \<Rightarrow> usize option" where
  "node_at ptr M a [] = (case M a of None \<Rightarrow> None | Some _ \<Rightarrow> Some a)"
| "node_at ptr M a (i # is) =
     (case M a of None \<Rightarrow> None
      | Some n \<Rightarrow>
          if i < length (entries n) \<and> table_entry (entries n ! i)
          then node_at ptr M (ptr (entries n ! i)) is else None)"

text \<open>The result of a lookup: how many levels are left below the leaf, and the leaf.\<close>

fun lookup :: "(PageTableEntry \<Rightarrow> usize) \<Rightarrow> node_mem \<Rightarrow> usize \<Rightarrow> nat list \<Rightarrow>
    (nat \<times> PageTableEntry) option" where
  "lookup ptr M a [] = None"
| "lookup ptr M a (i # is) =
     (case M a of None \<Rightarrow> None
      | Some n \<Rightarrow>
          if i < length (entries n) \<and> present (entries n ! i)
          then (if is = [] \<or> huge (entries n ! i) then Some (length is, entries n ! i)
                else lookup ptr M (ptr (entries n ! i)) is)
          else None)"

definition write_node :: "node_mem \<Rightarrow> usize \<Rightarrow> nat \<Rightarrow> PageTableEntry \<Rightarrow> node_mem" where
  "write_node M a i v =
     (case M a of None \<Rightarrow> M
      | Some n \<Rightarrow> M(a \<mapsto> n\<lparr>entries := (entries n)[i := v]\<rparr>))"

definition tree_inv :: "(PageTableEntry \<Rightarrow> usize) \<Rightarrow> node_mem \<Rightarrow> usize \<Rightarrow> bool" where
  "tree_inv ptr M root \<longleftrightarrow>
     (\<forall>a n. M a = Some n \<longrightarrow> length (entries n) = 512) \<and>
     root \<in> dom M \<and>
     (\<forall>p q a. length p \<le> 3 \<longrightarrow> length q \<le> 3 \<longrightarrow>
        node_at ptr M root p = Some a \<longrightarrow> node_at ptr M root q = Some a \<longrightarrow> p = q) \<and>
     (\<forall>p a n i. length p \<le> 2 \<longrightarrow> node_at ptr M root p = Some a \<longrightarrow> M a = Some n \<longrightarrow> i < 512 \<longrightarrow>
        table_entry (entries n ! i) \<longrightarrow> ptr (entries n ! i) \<in> dom M)"

lemma zeroed_entry_absent [simp]:
  "\<not> present zeroed_entry" "\<not> table_entry zeroed_entry"
  by (simp_all add: zeroed_entry_def present_def table_entry_def)

lemma zeroed_node_entries [simp]:
  "length (entries zeroed_node) = 512" "i < 512 \<Longrightarrow> entries zeroed_node ! i = zeroed_entry"
  by (simp_all add: zeroed_node_def)

lemma tree_invD:
  assumes "tree_inv ptr M root"
  shows "\<And>a n. M a = Some n \<Longrightarrow> length (entries n) = 512"
    "root \<in> dom M"
    "\<And>p q a. length p \<le> 3 \<Longrightarrow> length q \<le> 3 \<Longrightarrow> node_at ptr M root p = Some a \<Longrightarrow>
       node_at ptr M root q = Some a \<Longrightarrow> p = q"
    "\<And>p a n i. length p \<le> 2 \<Longrightarrow> node_at ptr M root p = Some a \<Longrightarrow> M a = Some n \<Longrightarrow> i < 512 \<Longrightarrow>
       table_entry (entries n ! i) \<Longrightarrow> ptr (entries n ! i) \<in> dom M"
  using assms unfolding tree_inv_def by blast+

section \<open>Walking\<close>

lemma node_at_dom: "node_at ptr M a p = Some b \<Longrightarrow> b \<in> dom M"
  by (induction p arbitrary: a) (auto split: option.splits if_splits)

lemma node_at_append:
  "node_at ptr M a (p @ q) =
     (case node_at ptr M a p of None \<Rightarrow> None | Some b \<Rightarrow> node_at ptr M b q)"
proof (induction p arbitrary: a)
  case Nil
  show ?case by (cases q) (auto split: option.splits)
next
  case (Cons i p)
  then show ?case by (auto split: option.splits)
qed

lemma node_at_snoc:
  assumes "node_at ptr M a p = Some b" "M b = Some n" "i < length (entries n)"
    "table_entry (entries n ! i)" "ptr (entries n ! i) \<in> dom M"
  shows "node_at ptr M a (p @ [i]) = Some (ptr (entries n ! i))"
  using assms by (auto simp: node_at_append)

lemma lookup_append:
  "node_at ptr M a p = Some b \<Longrightarrow> q \<noteq> [] \<Longrightarrow> lookup ptr M a (p @ q) = lookup ptr M b q"
  by (induction p arbitrary: a) (auto simp: table_entry_def split: option.splits if_splits)

text \<open>Only entries on the path matter.\<close>

lemma lookup_level: "lookup ptr M a p = Some (k, e) \<Longrightarrow> k < length p \<and> present e"
  by (induction p arbitrary: a) (fastforce split: option.splits if_splits)+

lemma write_node_read:
  assumes "M c = Some n" "c = a \<Longrightarrow> j \<noteq> i"
  obtains n' where "write_node M a i v c = Some n'" "length (entries n') = length (entries n)"
    "entries n' ! j = entries n ! j"
proof (cases "c = a")
  case True
  with assms show ?thesis
    by (intro that [of "n\<lparr>entries := (entries n)[i := v]\<rparr>"]) (simp_all add: write_node_def)
next
  case False
  with assms show ?thesis
    by (intro that [of n]) (simp_all add: write_node_def split: option.splits)
qed

lemma tree_next:
  assumes "tree_inv ptr M root" "node_at ptr M root p = Some c" "length p \<le> 2" "M c = Some n"
    "j < length (entries n)" "table_entry (entries n ! j)"
  shows "node_at ptr M root (p @ [j]) = Some (ptr (entries n ! j))"
proof -
  have "ptr (entries n ! j) \<in> dom M"
    using tree_invD(4) [OF assms(1,3,2,4) _ assms(6)] tree_invD(1) [OF assms(1,4)] assms(5) by simp
  with assms show ?thesis by (intro node_at_snoc)
qed

text \<open>A write is invisible on every path that does not go through the written entry.\<close>

lemma node_at_write_same:
  assumes inv: "tree_inv ptr M root" and a: "node_at ptr M root p = Some a" "length p \<le> 3"
    and c: "node_at ptr M root p0 = Some c" "length p0 + length q \<le> 3"
    and np: "\<not> prefix (p @ [i]) (p0 @ q)"
  shows "node_at ptr (write_node M a i v) c q = node_at ptr M c q"
  using c np
proof (induction q arbitrary: c p0)
  case Nil
  then show ?case
    by (auto simp: write_node_def split: option.splits)
next
  case (Cons j q)
  obtain n where n: "M c = Some n" using node_at_dom [OF Cons.prems(1)] by blast
  have "j \<noteq> i" if "c = a"
    using tree_invD(3) [OF inv _ a(2) Cons.prems(1)] a(1) Cons.prems(2,3) that by auto
  with n obtain n' where n': "write_node M a i v c = Some n'"
      "length (entries n') = length (entries n)" "entries n' ! j = entries n ! j"
    by (rule write_node_read)
  note step = tree_next [OF inv Cons.prems(1) _ n, of j]
  show ?case
    using n n' Cons.IH [OF step] Cons.prems(2,3) by simp
qed

lemma lookup_write_same:
  assumes inv: "tree_inv ptr M root" and a: "node_at ptr M root p = Some a" "length p \<le> 3"
    and c: "node_at ptr M root p0 = Some c" "length p0 + length q \<le> 4"
    and np: "\<not> prefix (p @ [i]) (p0 @ q)"
  shows "lookup ptr (write_node M a i v) c q = lookup ptr M c q"
  using c np
proof (induction q arbitrary: c p0)
  case Nil
  then show ?case by simp
next
  case (Cons j q)
  obtain n where n: "M c = Some n" using node_at_dom [OF Cons.prems(1)] by blast
  have "j \<noteq> i" if "c = a"
    using tree_invD(3) [OF inv _ a(2) Cons.prems(1)] a(1) Cons.prems(2,3) that by auto
  with n obtain n' where n': "write_node M a i v c = Some n'"
      "length (entries n') = length (entries n)" "entries n' ! j = entries n ! j"
    by (rule write_node_read)
  have "length p0 \<le> 2" if "q \<noteq> []" using Cons.prems(2) that by (cases q) simp_all
  note step = tree_next [OF inv Cons.prems(1) this n, of j]
  show ?case
    using n n' Cons.IH [OF step] Cons.prems(2,3) by (simp add: table_entry_def)
qed

lemma write_node_dom [simp]: "dom (write_node M a i v) = dom M"
  by (auto simp: write_node_def split: option.splits if_splits)

lemma write_node_length:
  "\<lbrakk>\<And>b n. M b = Some n \<Longrightarrow> length (entries n) = 512; write_node M a i v c = Some n\<rbrakk> \<Longrightarrow>
     length (entries n) = 512"
  by (auto simp: write_node_def split: option.splits if_splits)

text \<open>What is found through the written entry.\<close>

lemma node_at_write_through:
  assumes inv: "tree_inv ptr M root" and a: "node_at ptr M root p = Some a" "length p \<le> 3" and i: "i < 512"
  shows "node_at ptr (write_node M a i v) root (p @ i # r) =
    (if table_entry v then node_at ptr (write_node M a i v) (ptr v) r else None)"
proof -
  obtain n where n: "M a = Some n" using node_at_dom [OF a(1)] by blast
  obtain r0 where r0: "M root = Some r0" using tree_invD(2) [OF inv] by blast
  have "\<not> prefix (p @ [i]) ([] @ p)" by (simp add: prefix_def)
  then have "node_at ptr (write_node M a i v) root p = Some a"
    using node_at_write_same [OF inv a, of "[]" root p i v] a r0 by simp
  then show ?thesis
    using n i tree_invD(1) [OF inv n] by (simp add: node_at_append write_node_def)
qed

lemma lookup_write_through:
  assumes inv: "tree_inv ptr M root" and a: "node_at ptr M root p = Some a" "length p \<le> 3" and i: "i < 512"
  shows "lookup ptr (write_node M a i v) root (p @ i # r) =
    (if present v then if r = [] \<or> huge v then Some (length r, v)
                       else lookup ptr (write_node M a i v) (ptr v) r
     else None)"
proof -
  obtain n where n: "M a = Some n" using node_at_dom [OF a(1)] by blast
  obtain r0 where r0: "M root = Some r0" using tree_invD(2) [OF inv] by blast
  have "\<not> prefix (p @ [i]) ([] @ p)" by (simp add: prefix_def)
  then have "node_at ptr (write_node M a i v) root p = Some a"
    using node_at_write_same [OF inv a, of "[]" root p i v] a r0 by simp
  then show ?thesis
    using n i tree_invD(1) [OF inv n] by (simp add: lookup_append write_node_def)
qed

section \<open>Writing a leaf entry\<close>

lemma node_at_root_write:
  assumes "tree_inv ptr M root" "node_at ptr M root p = Some a" "length p \<le> 3"
    "length q \<le> 3" "\<not> prefix (p @ [i]) q"
  shows "node_at ptr (write_node M a i v) root q = node_at ptr M root q"
proof -
  obtain r where "M root = Some r" using tree_invD(2) [OF assms(1)] by blast
  then show ?thesis
    using node_at_write_same [OF assms(1-3), of "[]" root q i v] assms(4,5) by simp
qed

lemma lookup_root_write:
  assumes "tree_inv ptr M root" "node_at ptr M root p = Some a" "length p \<le> 3"
    "length q \<le> 4" "\<not> prefix (p @ [i]) q"
  shows "lookup ptr (write_node M a i v) root q = lookup ptr M root q"
proof -
  obtain r where "M root = Some r" using tree_invD(2) [OF assms(1)] by blast
  then show ?thesis
    using lookup_write_same [OF assms(1-3), of "[]" root q i v] assms(4,5) by simp
qed

lemma tree_inv_write_leaf:
  assumes inv: "tree_inv ptr M root" and a: "node_at ptr M root p = Some a" "length p \<le> 3"
    and i: "i < 512" and v: "\<not> table_entry v \<or> length p = 3"
  shows "tree_inv ptr (write_node M a i v) root"
proof -
  let ?M = "write_node M a i v"
  have old: "node_at ptr M root q = Some c" if q: "node_at ptr ?M root q = Some c" "length q \<le> 3" for q c
  proof (cases "prefix (p @ [i]) q")
    case True
    then obtain r where r: "q = p @ i # r" by (auto simp: prefix_def)
    with v q(2) have "\<not> table_entry v" by auto
    with q(1) r show ?thesis by (simp add: node_at_write_through [OF inv a i])
  next
    case False
    with q show ?thesis by (simp add: node_at_root_write [OF inv a])
  qed
  have closed: "ptr (entries n ! j) \<in> dom ?M"
    if n: "length q \<le> 2" "node_at ptr ?M root q = Some c" "?M c = Some n" "j < 512" "table_entry (entries n ! j)"
    for q c n j
  proof -
    have q: "node_at ptr M root q = Some c" using old n(1,2) by simp
    then obtain m where m: "M c = Some m" using node_at_dom by blast
    have "j \<noteq> i" if "c = a"
    proof
      assume ji: "j = i"
      have "q = p" using tree_invD(3) [OF inv _ a(2) q] a(1) n(1) \<open>c = a\<close> by simp
      with v n(1) have "\<not> table_entry v" by auto
      moreover have "entries n ! j = v"
        using n(3) m ji \<open>c = a\<close> i tree_invD(1) [OF inv m] by (auto simp: write_node_def)
      ultimately show False using n(5) by simp
    qed
    with m obtain n' where "?M c = Some n'" "entries n' ! j = entries m ! j"
      by (rule write_node_read) blast
    with n(3) have "entries n ! j = entries m ! j" by simp
    with tree_invD(4) [OF inv n(1) q m n(4)] n(5) show ?thesis by simp
  qed
  show ?thesis
    unfolding tree_inv_def
  proof (intro conjI allI impI)
    fix b n assume "?M b = Some n"
    then show "length (entries n) = 512" using write_node_length tree_invD(1) [OF inv] by blast
  next
    show "root \<in> dom ?M" using tree_invD(2) [OF inv] by simp
  next
    fix q q' c assume "length q \<le> 3" "length q' \<le> 3" "node_at ptr ?M root q = Some c"
      "node_at ptr ?M root q' = Some c"
    then show "q = q'" using old tree_invD(3) [OF inv] by blast
  qed (use closed in blast)
qed

section \<open>Hanging a fresh node below an empty entry\<close>

lemma node_at_extend:
  assumes inv: "tree_inv ptr M root" and b: "b \<notin> dom M"
    and c: "node_at ptr M root p0 = Some c" "length p0 + length q \<le> 3"
  shows "node_at ptr (M(b \<mapsto> z)) c q = node_at ptr M c q"
  using c
proof (induction q arbitrary: c p0)
  case Nil
  then have "c \<noteq> b" using node_at_dom b by blast
  then show ?case by simp
next
  case (Cons j q)
  obtain n where n: "M c = Some n" using node_at_dom [OF Cons.prems(1)] by blast
  then have "c \<noteq> b" using b by blast
  note step = tree_next [OF inv Cons.prems(1) _ n, of j]
  show ?case using n \<open>c \<noteq> b\<close> Cons.IH [OF step] Cons.prems(2) by simp
qed

lemma lookup_extend:
  assumes inv: "tree_inv ptr M root" and b: "b \<notin> dom M"
    and c: "node_at ptr M root p0 = Some c" "length p0 + length q \<le> 4"
  shows "lookup ptr (M(b \<mapsto> z)) c q = lookup ptr M c q"
  using c
proof (induction q arbitrary: c p0)
  case Nil
  then show ?case by simp
next
  case (Cons j q)
  obtain n where n: "M c = Some n" using node_at_dom [OF Cons.prems(1)] by blast
  then have "c \<noteq> b" using b by blast
  have "length p0 \<le> 2" if "q \<noteq> []" using Cons.prems(2) that by (cases q) simp_all
  note step = tree_next [OF inv Cons.prems(1) this n, of j]
  show ?case using n \<open>c \<noteq> b\<close> Cons.IH [OF step] Cons.prems(2) by (simp add: table_entry_def)
qed

lemma tree_inv_extend:
  assumes inv: "tree_inv ptr M root" and b: "b \<notin> dom M" and z: "length (entries z) = 512"
  shows "tree_inv ptr (M(b \<mapsto> z)) root"
    "\<And>q. length q \<le> 3 \<Longrightarrow> node_at ptr (M(b \<mapsto> z)) root q = node_at ptr M root q"
    "\<And>q. length q \<le> 4 \<Longrightarrow> lookup ptr (M(b \<mapsto> z)) root q = lookup ptr M root q"
proof -
  obtain r where r: "node_at ptr M root [] = Some root" using tree_invD(2) [OF inv] by auto
  show same: "node_at ptr (M(b \<mapsto> z)) root q = node_at ptr M root q" if "length q \<le> 3" for q
    using node_at_extend [OF inv b r, of q z] that by simp
  show "lookup ptr (M(b \<mapsto> z)) root q = lookup ptr M root q" if "length q \<le> 4" for q
    using lookup_extend [OF inv b r, of q z] that by simp
  have closed: "ptr (entries n ! j) \<in> dom (M(b \<mapsto> z))"
    if "length q \<le> 2" "node_at ptr (M(b \<mapsto> z)) root q = Some c" "(M(b \<mapsto> z)) c = Some n" "j < 512"
      "table_entry (entries n ! j)" for q c n j
  proof -
    have q: "node_at ptr M root q = Some c" using that(1,2) by (simp add: same)
    then have "c \<noteq> b" using node_at_dom b by blast
    with that(3) have "M c = Some n" by simp
    from tree_invD(4) [OF inv that(1) q this that(4,5)] show ?thesis by simp
  qed
  show "tree_inv ptr (M(b \<mapsto> z)) root"
    unfolding tree_inv_def
  proof (intro conjI allI impI)
    fix c n assume "(M(b \<mapsto> z)) c = Some n"
    then show "length (entries n) = 512"
      using z tree_invD(1) [OF inv] by (auto split: if_splits)
  next
    show "root \<in> dom (M(b \<mapsto> z))" using tree_invD(2) [OF inv] by simp
  next
    fix q q' c assume "length q \<le> 3" "length q' \<le> 3" "node_at ptr (M(b \<mapsto> z)) root q = Some c"
      "node_at ptr (M(b \<mapsto> z)) root q' = Some c"
    then show "q = q'" using tree_invD(3) [OF inv] by (simp add: same)
  qed (use closed in blast)
qed

definition hang :: "(PageTableEntry \<Rightarrow> usize) \<Rightarrow> node_mem \<Rightarrow> usize \<Rightarrow> nat \<Rightarrow> PageTableEntry \<Rightarrow> node_mem" where
  "hang ptr M a i v = write_node (M(ptr v \<mapsto> zeroed_node)) a i v"

definition hang_pre :: "(PageTableEntry \<Rightarrow> usize) \<Rightarrow> node_mem \<Rightarrow> usize \<Rightarrow> nat list \<Rightarrow> usize \<Rightarrow> nat \<Rightarrow>
    PageTableEntry \<Rightarrow> bool" where
  "hang_pre ptr M root p a i v \<longleftrightarrow>
     tree_inv ptr M root \<and> ptr v \<notin> dom M \<and> table_entry v \<and> node_at ptr M root p = Some a \<and>
     length p \<le> 2 \<and> i < 512 \<and> (\<forall>n. M a = Some n \<longrightarrow> \<not> present (entries n ! i))"

lemma hang_preD:
  assumes "hang_pre ptr M root p a i v"
  obtains n where "tree_inv ptr M root" "ptr v \<notin> dom M" "table_entry v" "node_at ptr M root p = Some a"
    "length p \<le> 2" "i < 512" "M a = Some n" "\<not> present (entries n ! i)" "a \<noteq> ptr v"
    "tree_inv ptr (M(ptr v \<mapsto> zeroed_node)) root"
    "node_at ptr (M(ptr v \<mapsto> zeroed_node)) root p = Some a"
proof -
  from assms have pre: "tree_inv ptr M root" "ptr v \<notin> dom M" "table_entry v" "node_at ptr M root p = Some a"
    "length p \<le> 2" "i < 512" "\<And>n. M a = Some n \<Longrightarrow> \<not> present (entries n ! i)"
    by (auto simp: hang_pre_def)
  from pre(4) obtain n where n: "M a = Some n" using node_at_dom by blast
  then have "a \<noteq> ptr v" using pre(2) by blast
  with pre n tree_inv_extend [OF pre(1,2) zeroed_node_entries(1)] show ?thesis
    by (intro that [of n]) simp_all
qed

lemma hang_fresh: "hang_pre ptr M root p a i v \<Longrightarrow> hang ptr M a i v (ptr v) = Some zeroed_node"
  by (elim hang_preD) (simp add: hang_def write_node_def)

lemma hang_dom: "dom (hang ptr M a i v) = insert (ptr v) (dom M)"
  by (simp add: hang_def)

lemma hang_through:
  assumes pre: "hang_pre ptr M root p a i v"
  shows "node_at ptr (hang ptr M a i v) root (p @ i # r) = (if r = [] then Some (ptr v) else None)"
    "r \<noteq> [] \<Longrightarrow> lookup ptr (hang ptr M a i v) root (p @ i # r) = None"
proof -
  note fresh = hang_fresh [OF pre, unfolded hang_def]
  from pre show "node_at ptr (hang ptr M a i v) root (p @ i # r) = (if r = [] then Some (ptr v) else None)"
  proof (rule hang_preD)
    assume inv: "tree_inv ptr (M(ptr v \<mapsto> zeroed_node)) root"
      "node_at ptr (M(ptr v \<mapsto> zeroed_node)) root p = Some a" "length p \<le> 2" "i < 512" "table_entry v"
    then show ?thesis
      unfolding hang_def using fresh by (cases r) (auto simp: node_at_write_through)
  qed
  from pre show "lookup ptr (hang ptr M a i v) root (p @ i # r) = None" if "r \<noteq> []"
  proof (rule hang_preD)
    assume inv: "tree_inv ptr (M(ptr v \<mapsto> zeroed_node)) root"
      "node_at ptr (M(ptr v \<mapsto> zeroed_node)) root p = Some a" "length p \<le> 2" "i < 512" "table_entry v"
    then show ?thesis
      unfolding hang_def using fresh that by (cases r) (auto simp: lookup_write_through table_entry_def)
  qed
qed

lemma hang_others:
  assumes pre: "hang_pre ptr M root p a i v" and np: "\<not> prefix (p @ [i]) q"
  shows "length q \<le> 3 \<Longrightarrow> node_at ptr (hang ptr M a i v) root q = node_at ptr M root q"
    "length q \<le> 4 \<Longrightarrow> lookup ptr (hang ptr M a i v) root q = lookup ptr M root q"
proof -
  have ext: "tree_inv ptr (M(ptr v \<mapsto> zeroed_node)) root"
      "node_at ptr (M(ptr v \<mapsto> zeroed_node)) root p = Some a"
    by (rule hang_preD [OF pre], assumption)+
  have len: "length p \<le> 3" using pre by (simp add: hang_pre_def)
  have inv: "tree_inv ptr M root" "ptr v \<notin> dom M" using pre by (simp_all add: hang_pre_def)
  note same = tree_inv_extend(2,3) [OF inv zeroed_node_entries(1)]
  show "node_at ptr (hang ptr M a i v) root q = node_at ptr M root q" if "length q \<le> 3"
    unfolding hang_def using node_at_root_write [OF ext len that np] same(1) [OF that] by simp
  show "lookup ptr (hang ptr M a i v) root q = lookup ptr M root q" if "length q \<le> 4"
    unfolding hang_def using lookup_root_write [OF ext len that np] same(2) [OF that] by simp
qed

lemma hang_before:
  assumes "hang_pre ptr M root p a i v"
  shows "node_at ptr M root (p @ i # r) = None" "lookup ptr M root (p @ i # r) = None"
  using assms by (elim hang_preD; simp add: node_at_append lookup_append table_entry_def)+

lemma hang_old:
  assumes pre: "hang_pre ptr M root p a i v" and q: "length q \<le> 3"
    "node_at ptr (hang ptr M a i v) root q = Some c"
  shows "node_at ptr M root q = Some c \<and> c \<noteq> ptr v \<or> q = p @ [i] \<and> c = ptr v"
proof (cases "prefix (p @ [i]) q")
  case True
  then obtain r where "q = p @ i # r" by (auto simp: prefix_def)
  with hang_through(1) [OF pre] q(2) show ?thesis by (auto split: if_splits)
next
  case False
  with hang_others(1) [OF pre] q have "node_at ptr M root q = Some c" by simp
  moreover from this have "c \<in> dom M" by (rule node_at_dom)
  ultimately show ?thesis using pre by (auto simp: hang_pre_def)
qed

text \<open>A lookup cannot tell an absent entry from a table without entries.\<close>

lemma hang_lookup:
  assumes pre: "hang_pre ptr M root p a i v" and q: "length q = 4"
  shows "lookup ptr (hang ptr M a i v) root q = lookup ptr M root q"
proof (cases "prefix (p @ [i]) q")
  case True
  then obtain r where r: "q = p @ i # r" by (auto simp: prefix_def)
  with q pre have "r \<noteq> []" by (auto simp: hang_pre_def)
  then show ?thesis by (simp add: r hang_through(2) [OF pre] hang_before(2) [OF pre])
next
  case False
  with hang_others(2) [OF pre] q show ?thesis by simp
qed

lemma hang_keeps:
  assumes pre: "hang_pre ptr M root p a i v" and q: "length q \<le> 3" "node_at ptr M root q = Some c"
  shows "node_at ptr (hang ptr M a i v) root q = Some c"
proof -
  have "\<not> prefix (p @ [i]) q" using q(2) hang_before(1) [OF pre] by (auto simp: prefix_def)
  with hang_others(1) [OF pre _ q(1)] q(2) show ?thesis by simp
qed

lemma hang_closed:
  assumes pre: "hang_pre ptr M root p a i v"
    and q: "length q \<le> 2" "node_at ptr (hang ptr M a i v) root q = Some c"
      "hang ptr M a i v c = Some m" "j < 512" "table_entry (entries m ! j)"
  shows "ptr (entries m ! j) \<in> dom (hang ptr M a i v)"
proof (cases "c = ptr v")
  case True
  with hang_fresh [OF pre] q(3-) show ?thesis by simp
next
  case False
  with hang_old [OF pre _ q(2)] q(1) have old: "node_at ptr M root q = Some c" by auto
  then obtain m0 where m0: "M c = Some m0" using node_at_dom by blast
  with False have mc: "(M(ptr v \<mapsto> zeroed_node)) c = Some m0" by simp
  show ?thesis
  proof (cases "c = a \<and> j = i")
    case True
    have "length (entries m0) = 512" using pre m0 by (auto simp: hang_pre_def dest: tree_invD(1))
    then have "entries m ! j = v"
      using q(3,4) True m0 False by (auto simp: hang_def write_node_def)
    then show ?thesis by (simp add: hang_dom)
  next
    case other: False
    then have "c = a \<Longrightarrow> j \<noteq> i" by blast
    with mc obtain m' where "hang ptr M a i v c = Some m'" "entries m' ! j = entries m0 ! j"
      unfolding hang_def by (rule write_node_read [of "M(ptr v \<mapsto> zeroed_node)" c m0 a j i v])
    with q(3) have "entries m ! j = entries m0 ! j" by simp
    moreover have "tree_inv ptr M root" using pre by (simp add: hang_pre_def)
    ultimately show ?thesis using tree_invD(4) [OF _ q(1) old m0 q(4)] q(5) by (simp add: hang_dom)
  qed
qed

lemma tree_inv_hang:
  assumes pre: "hang_pre ptr M root p a i v"
  shows "tree_inv ptr (hang ptr M a i v) root"
proof -
  let ?M = "hang ptr M a i v"
  have inv: "tree_inv ptr M root" using pre by (simp add: hang_pre_def)
  have len: "length (entries m) = 512" if "?M c = Some m" for c m
  proof -
    have "(M(ptr v \<mapsto> zeroed_node)) b = Some n \<Longrightarrow> length (entries n) = 512" for b n
      using tree_invD(1) [OF inv] by (auto split: if_splits)
    from write_node_length [OF this that [unfolded hang_def]] show ?thesis by simp
  qed
  have inj: "q = q'" if "length q \<le> 3" "length q' \<le> 3" "node_at ptr ?M root q = Some c"
      "node_at ptr ?M root q' = Some c" for q q' c
    using hang_old [OF pre that(1,3)] hang_old [OF pre that(2,4)] tree_invD(3) [OF inv that(1,2)] by blast
  have "root \<in> dom ?M" using tree_invD(2) [OF inv] by (simp add: hang_dom)
  with len inj hang_closed [OF pre] show ?thesis unfolding tree_inv_def by blast
qed

end
