(* ===== verification/Translation.thy ===== *)
theory Translation
  imports Page_Tree
begin

text \<open>
  What a page table means.  An address space gives each page number its leaf entry, together
  with the number of levels left below it (0 for 4 KiB, 2 for 1 GiB); \<open>space\<close> abstracts the
  tables below a root to an address space and \<open>translate_in\<close> is the address the hardware
  computes.  \<open>map_spec\<close> and \<open>map_gib_spec\<close> are the two ways of mapping as operations on address
  spaces; \<open>maps_pages\<close> and \<open>maps_gib\<close> say that one table memory arises from another by them, and
  the lemmas \<open>maps_pages_space\<close> and \<open>maps_gib_space\<close> connect the two.  Nothing here depends on how
  the kernel or the loader allocate and find their tables.
\<close>

section \<open>Growing trees\<close>

text \<open>
  \<open>grown ptr root M M'\<close>: from \<open>M\<close> to \<open>M'\<close> nodes were only added below \<open>root\<close>, so that no
  translation changed.
\<close>

definition grown :: "(PageTableEntry \<Rightarrow> usize) \<Rightarrow> usize \<Rightarrow> node_mem \<Rightarrow> node_mem \<Rightarrow> bool" where
  "grown ptr root M M' \<longleftrightarrow>
     tree_inv ptr M' root \<and>
     (\<forall>q. length q = 4 \<longrightarrow> lookup ptr M' root q = lookup ptr M root q) \<and>
     (\<forall>q c. length q \<le> 3 \<longrightarrow> node_at ptr M root q = Some c \<longrightarrow> node_at ptr M' root q = Some c)"

lemma grown_refl: "tree_inv ptr M root \<Longrightarrow> grown ptr root M M"
  by (simp add: grown_def)

lemma grown_trans: "grown ptr root M M1 \<Longrightarrow> grown ptr root M1 M2 \<Longrightarrow> grown ptr root M M2"
  by (simp add: grown_def)

lemma grown_hang: "hang_pre ptr M root p a i v \<Longrightarrow> grown ptr root M (hang ptr M a i v)"
  using tree_inv_hang hang_lookup hang_keeps by (simp add: grown_def)

text \<open>No large page covers the path.\<close>

definition open_path :: "(PageTableEntry \<Rightarrow> usize) \<Rightarrow> node_mem \<Rightarrow> usize \<Rightarrow> nat list \<Rightarrow> bool" where
  "open_path ptr M root q \<longleftrightarrow> (\<forall>k e. lookup ptr M root q = Some (k, e) \<longrightarrow> k = 0)"

lemma open_path_grown: "grown ptr root M M' \<Longrightarrow> length q = 4 \<Longrightarrow> open_path ptr M root q \<Longrightarrow> open_path ptr M' root q"
  by (simp add: grown_def open_path_def)

text \<open>The reserved page-size bit is clear in every present entry of the root.\<close>

definition top_ok :: "node_mem \<Rightarrow> usize \<Rightarrow> bool" where
  "top_ok M root \<longleftrightarrow>
     (\<forall>n i. M root = Some n \<longrightarrow> i < 512 \<longrightarrow> present (entries n ! i) \<longrightarrow> \<not> huge (entries n ! i))"

section \<open>4 KiB pages\<close>

text \<open>What a last-level entry means to a lookup.\<close>

definition leaf_view :: "PageTableEntry \<Rightarrow> (nat \<times> PageTableEntry) option" where
  "leaf_view e = (if present e then Some (0, e) else None)"

lemma page_path_split: "page_path n = take 3 (page_path n) @ [n mod 512]"
  by (simp add: page_path_def numeral_3_eq_3)

lemma page_path_upper: "m div 512 = n div 512 \<Longrightarrow> take 3 (page_path m) = take 3 (page_path n)"
proof -
  assume eq: "m div 512 = n div 512"
  have "k div 512 ^ 2 = k div 512 div 512" "k div 512 ^ 3 = k div 512 div 512 div 512" for k :: nat
    by (simp_all add: div_mult2_eq [symmetric])
  with eq show ?thesis by (simp add: page_path_def numeral_3_eq_3)
qed

lemma page_path_distinct:
  assumes "m < n" "n < m + 2 ^ 36"
  shows "page_path m \<noteq> page_path n"
proof
  assume "page_path m = page_path n"
  then have "m mod 2 ^ 36 = n mod 2 ^ 36" by (simp only: page_path_eq_iff)
  then have "2 ^ 36 dvd n - m"
    using assms(1) mod_eq_dvd_iff_nat [of m n "2 ^ 36"] by (metis less_imp_le)
  then have "2 ^ 36 \<le> n - m" using assms(1) by (intro dvd_imp_le) simp_all
  with assms show False by simp
qed

lemma write_leaf_4kib:
  fixes e :: PageTableEntry
  assumes inv: "tree_inv ptr M root" and b: "node_at ptr M root (take 3 (page_path n)) = Some b"
  defines "M' \<equiv> write_node M b (n mod 512) e"
  shows "tree_inv ptr M' root" "lookup ptr M' root (page_path n) = leaf_view e"
    "\<And>q. length q = 4 \<Longrightarrow> q \<noteq> page_path n \<Longrightarrow> lookup ptr M' root q = lookup ptr M root q"
    "\<And>q. length q \<le> 3 \<Longrightarrow> node_at ptr M' root q = node_at ptr M root q"
proof -
  let ?p = "take 3 (page_path n)"
  have len: "length ?p = 3" by simp
  then have le: "length ?p \<le> 3" by simp
  show "tree_inv ptr M' root"
    using tree_inv_write_leaf [OF inv b le] by (simp add: M'_def)
  have "lookup ptr M' root (?p @ n mod 512 # []) = leaf_view e"
    using lookup_write_through [OF inv b le] by (simp add: M'_def leaf_view_def)
  then show "lookup ptr M' root (page_path n) = leaf_view e" by (simp flip: page_path_split)
  show "lookup ptr M' root q = lookup ptr M root q" if "length q = 4" "q \<noteq> page_path n" for q
  proof -
    have "\<not> prefix (?p @ [n mod 512]) q"
    proof
      assume "prefix (?p @ [n mod 512]) q"
      then obtain r where "q = page_path n @ r" by (auto simp: prefix_def simp flip: page_path_split)
      with that show False by simp
    qed
    then show ?thesis using lookup_root_write [OF inv b le] that(1) by (simp add: M'_def)
  qed
  show "node_at ptr M' root q = node_at ptr M root q" if "length q \<le> 3" for q
  proof -
    have "\<not> prefix (?p @ [n mod 512]) q"
      using that len prefix_length_le by fastforce
    then show ?thesis using node_at_root_write [OF inv b le that] by (simp add: M'_def)
  qed
qed

text \<open>
  \<open>maps_pages ptr root M M' n k pa attr\<close>: \<open>M'\<close> translates the \<open>k\<close> pages from page number \<open>n\<close> to the
  frames from \<open>pa\<close> with the given attribute, and everything else as \<open>M\<close> does.
\<close>

definition maps_pages :: "(PageTableEntry \<Rightarrow> usize) \<Rightarrow> usize \<Rightarrow> node_mem \<Rightarrow> node_mem \<Rightarrow> nat \<Rightarrow> nat \<Rightarrow> usize \<Rightarrow>
    PageTableAttr \<Rightarrow> bool" where
  "maps_pages ptr root M M' n k pa attr \<longleftrightarrow>
     tree_inv ptr M' root \<and>
     (\<forall>j < k. lookup ptr M' root (page_path (n + j)) =
        leaf_view (leaf_entry (PhysAddr (pa + of_nat (4096 * j))) attr)) \<and>
     (\<forall>q. length q = 4 \<longrightarrow> (\<forall>j < k. q \<noteq> page_path (n + j)) \<longrightarrow> lookup ptr M' root q = lookup ptr M root q)"

text \<open>What one step has done when it moves on to the next page.\<close>

definition page_written :: "(PageTableEntry \<Rightarrow> usize) \<Rightarrow> usize \<Rightarrow> node_mem \<Rightarrow> node_mem \<Rightarrow> nat \<Rightarrow> usize \<Rightarrow>
    PageTableAttr \<Rightarrow> bool" where
  "page_written ptr root M M' n pa attr \<longleftrightarrow>
     tree_inv ptr M' root \<and> lookup ptr M' root (page_path n) = leaf_view (leaf_entry (PhysAddr pa) attr) \<and>
     (\<forall>q. length q = 4 \<longrightarrow> q \<noteq> page_path n \<longrightarrow> lookup ptr M' root q = lookup ptr M root q)"

lemma maps_pages_cons:
  assumes "page_written ptr root M M2 n pa attr" "maps_pages ptr root M2 M' (Suc n) k (pa + 4096) attr"
    "Suc k \<le> 2 ^ 36"
  shows "maps_pages ptr root M M' n (Suc k) pa attr"
proof -
  have ne: "page_path n \<noteq> page_path (Suc n + j)" if "j < k" for j
    using page_path_distinct [of n "Suc n + j"] assms(3) that by simp
  have "lookup ptr M' root (page_path (n + j)) =
      leaf_view (leaf_entry (PhysAddr (pa + of_nat (4096 * j))) attr)" if j: "j < Suc k" for j
  proof (cases j)
    case 0
    have "lookup ptr M' root (page_path n) = lookup ptr M2 root (page_path n)"
      using assms(2) ne by (simp add: maps_pages_def)
    with 0 assms(1) show ?thesis by (simp add: page_written_def)
  next
    case (Suc j')
    with j have "lookup ptr M' root (page_path (Suc n + j')) =
        leaf_view (leaf_entry (PhysAddr (pa + 4096 + of_nat (4096 * j'))) attr)"
      using assms(2) unfolding maps_pages_def by blast
    then show ?thesis by (simp add: Suc algebra_simps)
  qed
  moreover have "lookup ptr M' root q = lookup ptr M root q"
    if q: "length q = 4" "\<And>j. j < Suc k \<Longrightarrow> q \<noteq> page_path (n + j)" for q
  proof -
    have "lookup ptr M' root q = lookup ptr M2 root q"
      using assms(2) q(1) q(2) [of "Suc _"] by (simp add: maps_pages_def)
    with assms(1) q(1) q(2) [of 0] show ?thesis by (simp add: page_written_def)
  qed
  ultimately show ?thesis using assms(1,2) by (simp add: maps_pages_def page_written_def)
qed

section \<open>1 GiB pages\<close>

declare lookup.simps(2) [simp del]

abbreviation gib_entry :: "usize \<Rightarrow> nat \<Rightarrow> PageTableEntry" where
  "gib_entry phys j \<equiv> leaf_entry (PhysAddr (phys + of_nat j * 2 ^ 30)) ReadWriteKernel1GiB"

text \<open>
  \<open>maps_gib ptr root M M' i4 i3 lo hi phys\<close>: \<open>M'\<close> has 1 GiB leaves below PML4 entry \<open>i4\<close> at the
  directory indices \<open>i3 + lo\<close> up to \<open>i3 + hi\<close>, and translates everything else as \<open>M\<close> does.
\<close>

definition maps_gib :: "(PageTableEntry \<Rightarrow> usize) \<Rightarrow> usize \<Rightarrow> node_mem \<Rightarrow> node_mem \<Rightarrow> nat \<Rightarrow> nat \<Rightarrow> nat \<Rightarrow> nat \<Rightarrow>
    usize \<Rightarrow> bool" where
  "maps_gib ptr root M M' i4 i3 lo hi phys \<longleftrightarrow>
     tree_inv ptr M' root \<and>
     (\<forall>j r. lo \<le> j \<longrightarrow> j < hi \<longrightarrow> length r = 2 \<longrightarrow>
        lookup ptr M' root (i4 # (i3 + j) # r) = Some (2, gib_entry phys j)) \<and>
     (\<forall>q. length q = 4 \<longrightarrow> (\<forall>j. lo \<le> j \<longrightarrow> j < hi \<longrightarrow> \<not> prefix [i4, i3 + j] q) \<longrightarrow>
        lookup ptr M' root q = lookup ptr M root q)"

lemma write_leaf_1gib:
  assumes inv: "tree_inv ptr M root" and b: "node_at ptr M root [i4] = Some b" and i: "i3 + j < 512"
    and frame: "frame_addr (phys + of_nat j * 2 ^ 30)"
  defines "M' \<equiv> write_node M b (i3 + j) (gib_entry phys j)"
  shows "maps_gib ptr root M M' i4 i3 j (Suc j) phys" "node_at ptr M' root [i4] = Some b"
proof -
  let ?e = "gib_entry phys j"
  have le: "length [i4] \<le> 3" by simp
  have flags: "present ?e" "huge ?e" using leaf_entry_flags(1,4) frame by simp_all
  then have "\<not> table_entry ?e" by (simp add: table_entry_def)
  then have "tree_inv ptr M' root"
    using tree_inv_write_leaf [OF inv b le i] by (simp add: M'_def)
  moreover have "lookup ptr M' root (i4 # (i3 + j) # r) = Some (2, ?e)" if "length r = 2" for r
    using lookup_write_through [OF inv b le i, of ?e r] flags that by (simp add: M'_def)
  moreover have "lookup ptr M' root q = lookup ptr M root q" if "length q = 4" "\<not> prefix [i4, i3 + j] q" for q
    using lookup_root_write [OF inv b le, of q "i3 + j" ?e] that by (simp add: M'_def)
  ultimately show "maps_gib ptr root M M' i4 i3 j (Suc j) phys"
    unfolding maps_gib_def by (metis le_antisym less_Suc_eq_le order_refl lessI)
  show "node_at ptr M' root [i4] = Some b"
    using node_at_root_write [OF inv b le le, of "i3 + j" ?e] b by (simp add: M'_def)
qed

lemma maps_gib_trans:
  assumes "maps_gib ptr root M M1 i4 i3 lo mid phys" "maps_gib ptr root M1 M2 i4 i3 mid hi phys"
    "lo \<le> mid" "mid \<le> hi"
  shows "maps_gib ptr root M M2 i4 i3 lo hi phys"
proof -
  have "lookup ptr M2 root (i4 # (i3 + j) # r) = Some (2, gib_entry phys j)"
    if j: "lo \<le> j" "j < hi" "length r = 2" for j r
  proof (cases "j < mid")
    case True
    then have "\<not> prefix [i4, i3 + j'] (i4 # (i3 + j) # r)" if "mid \<le> j'" for j' using that by simp
    then have "lookup ptr M2 root (i4 # (i3 + j) # r) = lookup ptr M1 root (i4 # (i3 + j) # r)"
      using assms(2) j(3) by (simp add: maps_gib_def)
    with True assms(1) j show ?thesis by (simp add: maps_gib_def)
  next
    case False
    with assms(2) j show ?thesis by (simp add: maps_gib_def)
  qed
  moreover have "lookup ptr M2 root q = lookup ptr M root q"
    if q: "length q = 4" "\<And>j. lo \<le> j \<Longrightarrow> j < hi \<Longrightarrow> \<not> prefix [i4, i3 + j] q" for q
  proof -
    have "lookup ptr M2 root q = lookup ptr M1 root q"
      using assms(2) q assms(3) unfolding maps_gib_def by (meson order_trans)
    also have "\<dots> = lookup ptr M root q"
      using assms(1) q assms(4) unfolding maps_gib_def by (meson less_le_trans)
    finally show ?thesis .
  qed
  ultimately show ?thesis using assms(1,2) by (simp add: maps_gib_def)
qed

lemma gib_frame:
  assumes "2 ^ 30 dvd unat phys" "unat phys + 2 ^ 30 * Suc j \<le> 2 ^ 63"
  shows "frame_addr (phys + of_nat j * 2 ^ 30)" "mul_chk (of_nat j) (2 ^ 30 :: usize) = Inr (of_nat j * 2 ^ 30)"
    "add_chk phys (of_nat j * 2 ^ 30) = Inr (phys + of_nat j * 2 ^ 30)"
proof -
  have uj: "unat (of_nat j :: usize) = j" using assms(2) by (intro unat_of_nat_usize) simp
  have off: "unat (of_nat j * 2 ^ 30 :: usize) = j * 2 ^ 30"
    using assms(2) uj by (subst unat_mult_no_wrap) simp_all
  have sum: "unat (phys + of_nat j * 2 ^ 30) = unat phys + j * 2 ^ 30"
    using assms(2) off by (subst unat_add_no_wrap) simp_all
  have "4096 dvd unat phys" using assms(1) by (rule dvd_trans [rotated]) simp
  moreover have "4096 dvd j * 2 ^ 30" by (rule dvd_mult) simp
  ultimately show "frame_addr (phys + of_nat j * 2 ^ 30)"
    using assms(2) by (intro frame_addr_arith) (simp_all only: sum dvd_add, simp)
  show "mul_chk (of_nat j) (2 ^ 30 :: usize) = Inr (of_nat j * 2 ^ 30)"
    using assms(2) by (simp add: mul_chk_def uj)
  show "add_chk phys (of_nat j * 2 ^ 30) = Inr (phys + of_nat j * 2 ^ 30)"
    using assms(2) off by (intro add_chk_ok) simp
qed

section \<open>Address spaces\<close>

type_synonym address_space = "nat \<Rightarrow> (nat \<times> PageTableEntry) option"

definition space :: "(PageTableEntry \<Rightarrow> usize) \<Rightarrow> node_mem \<Rightarrow> usize \<Rightarrow> address_space" where
  "space ptr M root = (\<lambda>n. lookup ptr M root (page_path n))"

text \<open>The distance from page \<open>n\<close> to page \<open>p\<close>, among the \<open>2\<^sup>3\<^sup>6\<close> pages that the tables tell apart.\<close>

definition page_off :: "nat \<Rightarrow> nat \<Rightarrow> nat" where
  "page_off n p = (p + 2 ^ 36 - n mod 2 ^ 36) mod 2 ^ 36"

definition map_spec :: "address_space \<Rightarrow> nat \<Rightarrow> nat \<Rightarrow> usize \<Rightarrow> PageTableAttr \<Rightarrow> address_space" where
  "map_spec A n k pa attr =
     (\<lambda>p. if page_off n p < k
          then leaf_view (leaf_entry (PhysAddr (pa + of_nat (4096 * page_off n p))) attr) else A p)"

definition map_gib_spec :: "address_space \<Rightarrow> nat \<Rightarrow> nat \<Rightarrow> usize \<Rightarrow> address_space" where
  "map_gib_spec A n g pa =
     (\<lambda>p. if page_off n p < 2 ^ 18 * g then Some (2, gib_entry pa (page_off n p div 2 ^ 18)) else A p)"

definition translate_in :: "address_space \<Rightarrow> usize \<Rightarrow> (usize \<times> PageTableEntry) option" where
  "translate_in A va =
     (case A (unat va div 4096) of None \<Rightarrow> None
      | Some (k, e) \<Rightarrow> Some (phys_usize (pte_paddr e) + of_nat (unat va mod (4096 * 512 ^ k)), e))"

section \<open>Page distances\<close>

lemma off_mod: "((n :: nat) + j + w - n mod w) mod w = j mod w"
proof -
  have "n mod w \<le> n" by simp
  then have "n + j + w - n mod w = j + w + (n - n mod w)" by linarith
  also have "\<dots> = j + w * (n div w + 1)" by (simp add: minus_mod_eq_mult_div)
  finally show ?thesis by (simp only: mod_mult_self2)
qed

lemma off_split: "n mod w \<le> w \<Longrightarrow> (p + w - n mod w) mod w = (p mod w + (w - n mod w)) mod w" for w :: nat
  by (simp only: Nat.diff_add_assoc mod_add_left_eq)

lemma page_off_less [simp]: "page_off n p < 2 ^ 36"
  by (simp add: page_off_def)

lemma add_page_off: "(n + page_off n p) mod 2 ^ 36 = p mod 2 ^ 36"
proof -
  have l: "n mod 2 ^ 36 < 2 ^ 36" by simp
  have "(n + page_off n p) mod 2 ^ 36 = (n mod 2 ^ 36 + (p + 2 ^ 36 - n mod 2 ^ 36)) mod 2 ^ 36"
    unfolding page_off_def by (simp only: mod_add_left_eq mod_add_right_eq)
  also have "n mod 2 ^ 36 + (p + 2 ^ 36 - n mod 2 ^ 36) = p + 2 ^ 36" using l by simp
  finally show ?thesis by simp
qed

lemma page_off_add: "j < 2 ^ 36 \<Longrightarrow> page_off n (n + j) = j"
  unfolding page_off_def off_mod by (simp only: mod_less)

lemma page_off_cong: "p mod 2 ^ 36 = q mod 2 ^ 36 \<Longrightarrow> page_off n p = page_off n q"
  unfolding page_off_def by (simp only: off_split mod_le_divisor zero_less_power zero_less_numeral)

lemma page_off_iff: "j < 2 ^ 36 \<Longrightarrow> page_off n p = j \<longleftrightarrow> page_path p = page_path (n + j)"
  unfolding page_path_eq_iff using add_page_off page_off_add page_off_cong by metis

section \<open>Table memories as address spaces\<close>

lemma open_path_space: "open_path ptr M root (page_path n) \<longleftrightarrow> (\<forall>k e. space ptr M root n = Some (k, e) \<longrightarrow> k = 0)"
  by (simp add: open_path_def space_def)

lemma maps_pages_space:
  assumes "maps_pages ptr root M M' n k pa attr" "k \<le> 2 ^ 36"
  shows "space ptr M' root = map_spec (space ptr M root) n k pa attr"
proof
  fix p
  let ?j = "page_off n p"
  have path: "page_path p = page_path (n + ?j)" using page_off_iff page_off_less by blast
  show "space ptr M' root p = map_spec (space ptr M root) n k pa attr p"
  proof (cases "?j < k")
    case True
    then show ?thesis using assms(1) path by (simp add: maps_pages_def space_def map_spec_def)
  next
    case False
    have "page_path p \<noteq> page_path (n + i)" if "i < k" for i
      using page_off_iff [of i n p] that False assms(2) by auto
    then show ?thesis using assms(1) False by (simp add: maps_pages_def space_def map_spec_def)
  qed
qed

lemma gib_digits: "page_path p = [p div 2 ^ 18 div 512 mod 512, p div 2 ^ 18 mod 512, p div 512 mod 512, p mod 512]"
  by (simp add: page_path_def div_mult2_eq [symmetric])

lemma no_carry: "a mod 512 + j < 512 \<Longrightarrow> (a + j) mod 512 = a mod 512 + j \<and> (a + j) div 512 = a div 512" for a :: nat
proof -
  assume l: "a mod 512 + j < 512"
  have "a + j = (a mod 512 + j) + 512 * (a div 512)" by simp
  then show ?thesis using l
    by (metis add.right_neutral div_less mod_less mod_mult_self2 div_mult_self2 zero_neq_numeral add_0)
qed

lemma block_div: "x < w \<Longrightarrow> (w * N + (w * j + x)) div w = N + j" for w :: nat
  by (simp add: add.assoc [symmetric] distrib_left [symmetric])

lemma block_low:
  fixes w :: nat
  assumes "0 < w"
  shows "(w * w * N + (w * w * j + p mod (w * w))) div w mod w = p div w mod w"
    "(w * w * N + (w * w * j + p mod (w * w))) mod w = p mod w"
proof -
  have e: "w * w * N + (w * w * j + p mod (w * w)) = p mod w + w * (p div w mod w + w * (N + j))"
    by (simp add: mod_mult2_eq algebra_simps)
  show "(w * w * N + (w * w * j + p mod (w * w))) div w mod w = p div w mod w"
    "(w * w * N + (w * w * j + p mod (w * w))) mod w = p mod w"
    unfolding e using assms by simp_all
qed

lemma block_less: "x < w \<Longrightarrow> j < 512 \<Longrightarrow> w * j + x < w * 512" for w :: nat
proof -
  assume "x < w" "j < 512"
  then have "w * j + x < w * Suc j" "w * Suc j \<le> w * 512" by (simp, intro mult_le_mono2, simp)
  then show ?thesis by (rule less_le_trans)
qed

text \<open>The pages whose path starts with the PML4 index of \<open>2\<^sup>1\<^sup>8 * N\<close> and its directory index plus \<open>j\<close>.\<close>

lemma gib_region:
  assumes fit: "N mod 512 + g \<le> 512" and j: "j < g"
  shows "prefix [N div 512 mod 512, N mod 512 + j] (page_path p) \<longleftrightarrow>
    page_off (2 ^ 18 * N) p div 2 ^ 18 = j"
proof -
  let ?d = "page_off (2 ^ 18 * N) p" and ?M = "N + j"
  have M: "?M mod 512 = N mod 512 + j" "?M div 512 = N div 512"
    using no_carry [of N j] fit j by simp_all
  have w: "(2 ^ 18 :: nat) = 512 * 512" by simp
  have dj: "2 ^ 18 * j + x < 2 ^ 36" if "x < 2 ^ 18" for x
    using block_less [OF that, of j] fit j by simp
  show ?thesis
  proof
    assume "prefix [N div 512 mod 512, N mod 512 + j] (page_path p)"
    then have d: "p div 2 ^ 18 div 512 mod 512 = N div 512 mod 512" "p div 2 ^ 18 mod 512 = N mod 512 + j"
      unfolding gib_digits by simp_all
    let ?x = "p mod 2 ^ 18"
    have x: "?x < 2 ^ 18" by simp
    have q: "(2 ^ 18 * N + (2 ^ 18 * j + ?x)) div 2 ^ 18 = ?M"
      using x by (rule block_div)
    have lo: "(2 ^ 18 * N + (2 ^ 18 * j + ?x)) div 512 mod 512 = p div 512 mod 512"
      "(2 ^ 18 * N + (2 ^ 18 * j + ?x)) mod 512 = p mod 512"
      unfolding w by (rule block_low, simp)+
    have "page_path p = page_path (2 ^ 18 * N + (2 ^ 18 * j + ?x))"
      unfolding gib_digits q lo M using d by (simp only:)
    then have "?d = 2 ^ 18 * j + ?x" using page_off_iff [OF dj [OF x]] by blast
    then show "?d div 2 ^ 18 = j" using x by simp
  next
    assume dd: "?d div 2 ^ 18 = j"
    have "page_path p = page_path (2 ^ 18 * N + ?d)" using page_off_iff page_off_less by blast
    moreover have "(2 ^ 18 * N + ?d) div 2 ^ 18 = ?M"
      unfolding dd [symmetric] by simp
    ultimately show "prefix [N div 512 mod 512, N mod 512 + j] (page_path p)"
      unfolding gib_digits using M by simp
  qed
qed

lemma maps_gib_space:
  assumes mg: "maps_gib ptr root M M' (N div 512 mod 512) (N mod 512) 0 g pa" and fit: "N mod 512 + g \<le> 512"
  shows "space ptr M' root = map_gib_spec (space ptr M root) (2 ^ 18 * N) g pa"
proof
  fix p
  let ?j = "page_off (2 ^ 18 * N) p div 2 ^ 18"
  have lt: "page_off (2 ^ 18 * N) p < 2 ^ 18 * g \<longleftrightarrow> ?j < g"
    using less_mult_imp_div_less [of "page_off (2 ^ 18 * N) p" g "2 ^ 18"] 
      div_less_iff_less_mult [of "2 ^ 18" "page_off (2 ^ 18 * N) p" g] by (simp add: mult.commute)
  show "space ptr M' root p = map_gib_spec (space ptr M root) (2 ^ 18 * N) g pa p"
  proof (cases "?j < g")
    case True
    then have "prefix [N div 512 mod 512, N mod 512 + ?j] (page_path p)"
      using gib_region [OF fit] by blast
    then obtain r where r: "page_path p = N div 512 mod 512 # (N mod 512 + ?j) # r" by (auto elim: prefixE)
    then have "length r = 2" using page_path_length [of p] by simp
    then show ?thesis using mg True lt r by (simp add: maps_gib_def space_def map_gib_spec_def)
  next
    case False
    then have "\<not> prefix [N div 512 mod 512, N mod 512 + j] (page_path p)" if "j < g" for j
      using gib_region [OF fit that] that by auto
    then show ?thesis using mg False lt by (simp add: maps_gib_def space_def map_gib_spec_def)
  qed
qed

section \<open>Translation\<close>

text \<open>Splitting the distance of \<open>x\<close> from \<open>va\<close> into blocks of size \<open>w\<close>.\<close>

lemma offset_split:
  fixes x va :: usize and w :: nat
  assumes "w dvd unat va" "unat va \<le> unat x"
  defines "j \<equiv> (unat x - unat va) div w"
  shows "unat x = unat va + w * j + unat x mod w" "of_nat (w * j) + of_nat (unat x mod w) = x - va"
proof -
  obtain c where c: "unat va = w * c" using assms(1) by blast
  have "unat x - unat va = w * j + (unat x - unat va) mod w" unfolding j_def by simp
  moreover have "(unat x - unat va) mod w = unat x mod w"
    using assms(2) c by (metis le_add_diff_inverse mod_mult_self4)
  ultimately show x: "unat x = unat va + w * j + unat x mod w" using assms(2) by linarith
  then have "of_nat (unat x) = of_nat (unat va) + (of_nat (w * j) + of_nat (unat x mod w) :: usize)"
    by (metis of_nat_add add.assoc)
  then show "of_nat (w * j) + of_nat (unat x mod w) = x - va" by (simp add: algebra_simps)
qed

lemma translate_leaf:
  assumes "A (unat x div 4096) = Some (k, e)" "pte_paddr e = PhysAddr f"
  shows "translate_in A x = Some (f + of_nat (unat x mod (4096 * 512 ^ k)), e)"
  using assms by (simp add: translate_in_def)

lemma page_of_offset:
  fixes x v j :: nat
  assumes "4096 dvd v" "x = v + 4096 * j + (x mod 4096)"
  shows "x div 4096 = v div 4096 + j"
proof -
  obtain c where c: "v = 4096 * c" using assms(1) by blast
  have "x div 4096 = (4096 * (c + j) + x mod 4096) div 4096" using assms(2) c by simp
  then show ?thesis using c by simp
qed

lemma page_frame:
  assumes "4096 dvd unat pa" "unat pa + 4096 * k \<le> 2 ^ 63" "j < k"
  shows "frame_addr (pa + of_nat (4096 * j))"
proof -
  have u: "unat (of_nat (4096 * j) :: usize) = 4096 * j" using assms by (intro unat_of_nat_usize) simp
  have "unat (pa + of_nat (4096 * j)) = unat pa + 4096 * j"
    using assms u by (subst unat_add_no_wrap) (simp_all del: of_nat_mult)
  then show ?thesis using assms by (intro frame_addr_arith) simp_all
qed

lemma translate_map_spec:
  assumes va: "4096 dvd unat va" and pa: "4096 dvd unat pa" "unat pa + 4096 * k \<le> 2 ^ 63" and k: "k \<le> 2 ^ 36"
    and attr: "attr \<noteq> NotPresent" and x: "unat va \<le> unat x" "unat x < unat va + 4096 * k"
  defines "j \<equiv> (unat x - unat va) div 4096"
  shows "translate_in (map_spec A (unat va div 4096) k pa attr) x =
    Some (pa + (x - va), leaf_entry (PhysAddr (pa + of_nat (4096 * j))) attr)"
proof -
  note split = offset_split [OF va x(1), folded j_def]
  have j: "j < k" using x unfolding j_def by (simp add: less_mult_imp_div_less mult.commute)
  have f: "frame_addr (phys_usize (PhysAddr (pa + of_nat (4096 * j))))"
    using page_frame [OF pa j] by simp
  have "page_off (unat va div 4096) (unat x div 4096) = j"
    using page_of_offset [OF va split(1)] page_off_add j k by simp
  then have "map_spec A (unat va div 4096) k pa attr (unat x div 4096) =
      Some (0, leaf_entry (PhysAddr (pa + of_nat (4096 * j))) attr)"
    using j attr leaf_entry_flags(1) [OF f, of attr] by (simp add: map_spec_def leaf_view_def)
  from translate_leaf [where A = "map_spec A (unat va div 4096) k pa attr", OF this leaf_entry_paddr [OF f]] show ?thesis
    using split(2) by (simp add: add.assoc del: of_nat_mult)
qed

lemma quotient_4096: "x = 4096 * q + r \<Longrightarrow> r < 4096 \<Longrightarrow> x div 4096 = q" for x q r :: nat
  by simp

lemma translate_map_gib_spec:
  assumes va: "unat va = 2 ^ 30 * N" and pa: "2 ^ 30 dvd unat pa" "unat pa + 2 ^ 30 * g \<le> 2 ^ 63" and g: "g \<le> 512"
    and x: "unat va \<le> unat x" "unat x < unat va + 2 ^ 30 * g"
  defines "j \<equiv> (unat x - unat va) div 2 ^ 30"
  shows "translate_in (map_gib_spec A (2 ^ 18 * N) g pa) x = Some (pa + (x - va), gib_entry pa j)"
proof -
  have "2 ^ 30 dvd unat va" using va by simp
  note split = offset_split [OF this x(1), folded j_def]
  have j: "j < g" using x unfolding j_def by (simp add: less_mult_imp_div_less mult.commute)
  have "2 ^ 30 * Suc j \<le> 2 ^ 30 * g" using j by (intro mult_le_mono2) simp
  then have f: "frame_addr (phys_usize (PhysAddr (pa + of_nat j * 2 ^ 30)))"
    using gib_frame(1) [OF pa(1), of j] pa(2) by simp
  let ?r = "unat x mod 2 ^ 30 div 4096"
  have r: "?r < 2 ^ 18" by (simp add: less_mult_imp_div_less)
  have "unat x = 4096 * (2 ^ 18 * N + (2 ^ 18 * j + ?r)) + unat x mod 2 ^ 30 mod 4096"
    using split(1) va div_mult_mod_eq [of "unat x mod 2 ^ 30" 4096] by simp
  then have "unat x div 4096 = 2 ^ 18 * N + (2 ^ 18 * j + ?r)"
    by (rule quotient_4096) simp
  moreover have lt: "2 ^ 18 * j + ?r < 2 ^ 36" using block_less [OF r, of j] j g by simp
  ultimately have off: "page_off (2 ^ 18 * N) (unat x div 4096) = 2 ^ 18 * j + ?r"
    by (simp only: page_off_add)
  have "2 ^ 18 * j + ?r < 2 ^ 18 * Suc j" "2 ^ 18 * Suc j \<le> 2 ^ 18 * g"
    using r j by (simp, intro mult_le_mono2, simp)
  then have "2 ^ 18 * j + ?r < 2 ^ 18 * g" by (rule less_le_trans)
  moreover have "(2 ^ 18 * j + ?r) div 2 ^ 18 = j" using r by simp
  ultimately have "map_gib_spec A (2 ^ 18 * N) g pa (unat x div 4096) = Some (2, gib_entry pa j)"
    unfolding map_gib_spec_def off by (simp only: if_True)
  from translate_leaf [where A = "map_gib_spec A (2 ^ 18 * N) g pa", OF this leaf_entry_paddr [OF f]] show ?thesis
    using split(2) by (simp add: add.assoc mult.commute)
qed

lemma translate_page_in:
  assumes va: "4096 dvd unat va" and pa: "4096 dvd unat pa" "unat pa + 4096 * k \<le> 2 ^ 63" and k: "k \<le> 2 ^ 36"
    and attr: "attr \<noteq> NotPresent" and x: "unat va \<le> unat x" "unat x < unat va + 4096 * k"
  obtains e where "translate_in (map_spec A (unat va div 4096) k pa attr) x = Some (pa + (x - va), e)"
    "writable e \<longleftrightarrow> attr \<in> {ReadWriteExecuteKernel, ReadWriteKernel, ReadWriteKernel1GiB, ReadWriteKernelIO}"
    "no_exec e \<longleftrightarrow> attr \<in> {ReadKernel, ReadWriteKernel, ReadWriteKernel1GiB, ReadWriteKernelIO}"
    "\<not> user e"
proof -
  let ?j = "(unat x - unat va) div 4096"
  have "?j < k" using x by (simp add: less_mult_imp_div_less mult.commute)
  then have "frame_addr (phys_usize (PhysAddr (pa + of_nat (4096 * ?j))))"
    using page_frame [OF pa] by simp
  from that [OF translate_map_spec [OF assms]] leaf_entry_flags(2,3,5) [OF this] show ?thesis by blast
qed

lemma translate_page_out:
  "k \<le> page_off n (unat x div 4096) \<Longrightarrow> translate_in (map_spec A n k pa attr) x = translate_in A x"
  by (simp add: translate_in_def map_spec_def)

lemma translate_gib_in:
  assumes "unat va = 2 ^ 30 * N" "2 ^ 30 dvd unat pa" "unat pa + 2 ^ 30 * g \<le> 2 ^ 63" "g \<le> 512"
    and x: "unat va \<le> unat x" "unat x < unat va + 2 ^ 30 * g"
  obtains e where "translate_in (map_gib_spec A (2 ^ 18 * N) g pa) x = Some (pa + (x - va), e)"
    "writable e" "no_exec e" "\<not> user e"
proof -
  let ?j = "(unat x - unat va) div 2 ^ 30"
  have "?j < g" using x by (simp add: less_mult_imp_div_less mult.commute)
  then have "2 ^ 30 * Suc ?j \<le> 2 ^ 30 * g" by (intro mult_le_mono2) simp
  then have "frame_addr (phys_usize (PhysAddr (pa + of_nat ?j * 2 ^ 30)))"
    using gib_frame(1) [OF assms(2), of ?j] assms(3) by simp
  from that [OF translate_map_gib_spec [OF assms]] leaf_entry_flags(2,3,5) [OF this] show ?thesis by blast
qed

lemma translate_gib_out:
  "2 ^ 18 * g \<le> page_off n (unat x div 4096) \<Longrightarrow> translate_in (map_gib_spec A n g pa) x = translate_in A x"
  by (simp add: translate_in_def map_gib_spec_def)

section \<open>Sizes in pages\<close>

definition div_ceil :: "nat \<Rightarrow> nat \<Rightarrow> nat" where
  "div_ceil a b = (if a mod b > 0 then a div b + 1 else a div b)"

text \<open>The number of pages that \<open>create_mapping\<close> maps.\<close>

abbreviation pages :: "usize \<Rightarrow> nat" where
  "pages sz \<equiv> div_ceil (unat sz) 4096"

lemma div_ceil_bounds:
  assumes "0 < w"
  shows "n \<le> w * div_ceil n w" "w * div_ceil n w < n + w"
proof -
  have e: "w * (n div w) + n mod w = n" and l: "n mod w < w" using assms by simp_all
  have c: "n mod w = 0 \<and> w * div_ceil n w = w * (n div w) \<or>
      0 < n mod w \<and> w * div_ceil n w = w * (n div w) + w"
    unfolding div_ceil_def distrib_left by (cases "n mod w = 0") (simp_all add: distrib_left)
  show "n \<le> w * div_ceil n w" using c e l by linarith
  show "w * div_ceil n w < n + w" using c e l assms by linarith
qed

lemma pages_bounds: "unat sz \<le> 4096 * pages sz" "4096 * pages sz < unat sz + 4096"
  using div_ceil_bounds [of 4096 "unat sz"] by simp_all

lemma pages_gib: "unat sz = 2 ^ 30 * g \<Longrightarrow> pages sz = 2 ^ 18 * g"
proof -
  assume "unat sz = 2 ^ 30 * g"
  then have "unat sz = 4096 * (2 ^ 18 * g)" by simp
  then show ?thesis unfolding div_ceil_def by (simp only: mod_mult_self1_is_0) simp
qed

section \<open>A fresh table\<close>

lemma zeroed_root:
  assumes root: "M root = Some zeroed_node" and len: "\<And>a n. M a = Some n \<Longrightarrow> length (entries n) = 512"
  shows "tree_inv ptr M root" "top_ok M root" "space ptr M root = (\<lambda>_. None)"
proof -
  have at: "node_at ptr M root p = Some a \<longleftrightarrow> p = [] \<and> a = root" for p a
    using root by (cases p) auto
  show "tree_inv ptr M root" unfolding tree_inv_def at using root len by auto
  show "top_ok M root" using root by (simp add: top_ok_def)
  show "space ptr M root = (\<lambda>_. None)"
    using root by (simp add: space_def page_path_def lookup.simps(2))
qed

section \<open>Canonical pages\<close>

definition canonical :: "usize \<Rightarrow> bool" where
  "canonical x \<longleftrightarrow> unat x < 2 ^ 47 \<or> 2 ^ 64 - 2 ^ 47 \<le> unat x"

definition canonical_page :: "nat \<Rightarrow> bool" where
  "canonical_page p \<longleftrightarrow> p < 2 ^ 35 \<or> 2 ^ 52 - 2 ^ 35 \<le> p \<and> p < 2 ^ 52"

lemma canonical_page_of: "canonical x \<Longrightarrow> canonical_page (unat x div 4096)"
proof -
  assume "canonical x"
  moreover have "unat x < 2 ^ 64" by (rule unat_usize_less)
  moreover have "4096 * (unat x div 4096) \<le> unat x" "unat x < 4096 * (unat x div 4096) + 4096"
    by (simp_all add: dividend_less_times_div)
  ultimately show ?thesis unfolding canonical_def canonical_page_def by auto
qed

lemma canonical_page_mod:
  assumes "canonical_page p" "canonical_page q" "p mod 2 ^ 36 = q mod 2 ^ 36"
  shows "p = q"
proof -
  have high: "a mod 2 ^ 36 = a - (2 ^ 52 - 2 ^ 36)" if "2 ^ 52 - 2 ^ 35 \<le> a" "a < 2 ^ 52" for a :: nat
  proof -
    have a: "a = (a - (2 ^ 52 - 2 ^ 36)) + 2 ^ 36 * (2 ^ 16 - 1)" "a - (2 ^ 52 - 2 ^ 36) < 2 ^ 36"
      using that by simp_all
    then show ?thesis by (metis mod_less mod_mult_self2)
  qed
  have low: "a mod 2 ^ 36 = a" if "a < 2 ^ 35" for a :: nat using that by simp
  show ?thesis
    using assms low [of p] low [of q] high [of p] high [of q] unfolding canonical_page_def by auto
qed

text \<open>A run of canonical pages that does not cross the hole: distances are plain differences.\<close>

lemma page_off_canonical:
  assumes p: "canonical_page p" and run: "\<And>j. j < k \<Longrightarrow> canonical_page (n + j)" and k: "k \<le> 2 ^ 36"
  shows "page_off n p < k \<longleftrightarrow> n \<le> p \<and> p < n + k"
proof
  assume off: "page_off n p < k"
  have "p = n + page_off n p"
    using canonical_page_mod [OF p run [OF off]] add_page_off [of n p] by simp
  then show "n \<le> p \<and> p < n + k" using off by linarith
next
  assume np: "n \<le> p \<and> p < n + k"
  then have "page_off n (n + (p - n)) = p - n" using k by (intro page_off_add) linarith
  moreover have "n + (p - n) = p" "p - n < k" using np by simp_all linarith
  ultimately show "page_off n p < k" by simp
qed

lemma page_interval:
  fixes a x k :: nat
  assumes "4096 dvd a"
  shows "a div 4096 \<le> x div 4096 \<and> x div 4096 < a div 4096 + k \<longleftrightarrow> a \<le> x \<and> x < a + 4096 * k"
proof -
  obtain c where c: "a = 4096 * c" using assms by blast
  have "c \<le> x div 4096 \<longleftrightarrow> 4096 * c \<le> x" by (simp add: less_eq_div_iff_mult_less_eq mult.commute)
  moreover have "x div 4096 < c + k \<longleftrightarrow> x < 4096 * (c + k)" by (simp add: div_less_iff_less_mult mult.commute)
  ultimately show ?thesis unfolding c by (simp add: distrib_left)
qed

lemma linear_hit:
  assumes "canonical_page p"
  shows "page_off (0xFFFF888000000000 div 4096) p < 2 ^ 18 * 512 \<longleftrightarrow> 0xFFFF888000000 \<le> p \<and> p < 0xFFFF890000000"
  using page_off_canonical [OF assms, of "2 ^ 18 * 512" "0xFFFF888000000000 div 4096"]
  by (simp add: canonical_page_def)

section \<open>A second root\<close>

text \<open>A new root with the present entries of another one has the same subtrees.\<close>

definition same_entries :: "PageTableNode \<Rightarrow> PageTableNode \<Rightarrow> bool" where
  "same_entries n c \<longleftrightarrow> length (entries n) = 512 \<and> length (entries c) = 512 \<and>
     (\<forall>i < 512. (present (entries c ! i) \<longleftrightarrow> present (entries n ! i)) \<and>
        (present (entries n ! i) \<longrightarrow> entries c ! i = entries n ! i))"

lemma second_root:
  assumes inv: "tree_inv ptr M self" and n: "M self = Some n" and new: "new \<notin> dom M" and c: "same_entries n c"
  defines "M' \<equiv> M(new \<mapsto> c)"
  shows "\<And>q. length q \<le> 4 \<Longrightarrow> lookup ptr M' new q = lookup ptr M self q"
    "\<And>q. length q \<le> 4 \<Longrightarrow> lookup ptr M' self q = lookup ptr M self q"
    "tree_inv ptr M' new" "tree_inv ptr M' self"
proof -
  have len: "length (entries n) = 512" and clen: "length (entries c) = 512"
    using c by (simp_all add: same_entries_def)
  note ext = tree_inv_extend [OF inv new clen, folded M'_def]
  show old: "lookup ptr M' self q = lookup ptr M self q" if "length q \<le> 4" for q using ext(3) [OF that] .
  show "tree_inv ptr M' self" by (rule ext(1))
  have ns: "new \<noteq> self" using n new by blast
  then have self: "M' self = Some n" "M' new = Some c" using n by (simp_all add: M'_def)
  have same: "i < 512 \<Longrightarrow> present (entries c ! i) \<longleftrightarrow> present (entries n ! i)"
    "i < 512 \<Longrightarrow> present (entries n ! i) \<Longrightarrow> entries c ! i = entries n ! i" for i
    using c by (simp_all add: same_entries_def)
  show "lookup ptr M' new q = lookup ptr M self q" if "length q \<le> 4" for q
  proof -
    have "lookup ptr M' new q = lookup ptr M' self q"
      using self same len clen by (cases q) (auto simp: lookup.simps(2))
    then show ?thesis using old [OF that] by simp
  qed
  have at: "node_at ptr M' new q = node_at ptr M self q" if "length q \<le> 3" "q \<noteq> []" for q
  proof -
    have "node_at ptr M' new q = node_at ptr M' self q"
      using self same len clen that(2) by (cases q) (auto simp: table_entry_def)
    then show ?thesis using ext(2) that by simp
  qed
  have fresh: "node_at ptr M self q \<noteq> Some new" for q using node_at_dom new by blast
  have top: "node_at ptr M' new [] = Some new" using self by simp
  show "tree_inv ptr M' new"
    unfolding tree_inv_def
  proof (intro conjI allI impI)
    show "length (entries k) = 512" if "M' a = Some k" for a k
      using that clen tree_invD(1) [OF inv] by (auto simp: M'_def split: if_splits)
    show "new \<in> dom M'" using self by blast
    show "p = q" if "length p \<le> 3" "length q \<le> 3" "node_at ptr M' new p = Some a" "node_at ptr M' new q = Some a"
      for p q a
      using that top fresh at tree_invD(3) [OF inv, of p q a]
      by (cases "p = []"; cases "q = []") auto
    show "ptr (entries k ! i) \<in> dom M'" if "length p \<le> 2" "node_at ptr M' new p = Some a" "M' a = Some k"
      "i < 512" "table_entry (entries k ! i)" for p a k i
    proof (cases p)
      case Nil
      then have "k = c" using that(2,3) top self by simp
      then have "table_entry (entries n ! i)" "entries c ! i = entries n ! i"
        using that(4,5) same by (auto simp: table_entry_def)
      then show ?thesis
        using tree_invD(4) [OF inv, of "[]" self n i] n that(4) \<open>k = c\<close> by (simp add: M'_def)
    next
      case (Cons j q)
      then have "node_at ptr M self p = Some a" using that(1,2) at [of p] by (simp del: node_at.simps)
      moreover from this have "M a = Some k" using that(3) fresh by (auto simp: M'_def split: if_splits)
      ultimately show ?thesis
        using tree_invD(4) [OF inv that(1) _ _ that(4,5)] by (auto simp: M'_def)
    qed
  qed
qed

end
