(* ===== verification/Allocator.thy ===== *)
theory Allocator
  imports Memlayout
begin

text \<open>
  The kernel heap (\<open>kernel/src/allocator.rs\<close>): a bump allocator that hands out consecutive
  aligned blocks of one region and never takes anything back.  Each operation is the body
  run under the lock of \<open>ALLOCATOR\<close>; the lock itself is the subject of theory \<open>Spin\<close>.
  The contract that the clients of the global allocator rely on is the locale
  \<open>block_source\<close>.
\<close>

section \<open>State and operations\<close>

record LinerAllocator =
  la_start :: usize
  la_end :: usize
  la_next :: usize

text \<open>
  \<open>core::alloc::Layout\<close>: the standard library only builds layouts whose alignment is a
  power of two and whose size, rounded up to the alignment, does not exceed
  \<open>isize::MAX\<close>.
\<close>

record Layout =
  layout_size :: usize
  layout_align :: usize

definition valid_layout :: "Layout \<Rightarrow> bool" where
  "valid_layout l \<longleftrightarrow> is_power_of_two (layout_align l) \<and>
     unat (layout_size l) + (unat (layout_align l) - 1) < 2 ^ 63"

definition allocator_new :: LinerAllocator where
  "allocator_new = \<lparr>la_start = 0, la_end = 0, la_next = 0\<rparr>"

definition allocator_init :: "LinerAllocator \<Rightarrow> usize \<Rightarrow> usize \<Rightarrow> LinerAllocator outcome" where
  "allocator_init a start sz =
     bind_out (add_chk start sz) (\<lambda>e.
     Inr (a\<lparr>la_start := start, la_end := e, la_next := start\<rparr>))"

text \<open>
  \<open>alloc\<close> returns the block's address, \<open>0\<close> (a null pointer) when the region is exhausted.
  The rounding \<open>(current + align - 1) & !(align - 1)\<close> is computed with checked arithmetic.
\<close>

definition alloc :: "LinerAllocator \<Rightarrow> Layout \<Rightarrow> (LinerAllocator \<times> usize) outcome" where
  "alloc a layout =
     (let current = la_next a in
      bind_out (add_chk current (layout_align layout)) (\<lambda>t.
      bind_out (sub_chk t 1) (\<lambda>t1.
      bind_out (sub_chk (layout_align layout) 1) (\<lambda>m.
      let alloc_start = t1 AND NOT m in
      (case checked_add alloc_start (layout_size layout) of
         None \<Rightarrow> Inr (a, 0)
       | Some alloc_end \<Rightarrow>
           if alloc_end > la_end a then Inr (a, 0)
           else Inr (a\<lparr>la_next := alloc_end\<rparr>, alloc_start))))))"

definition dealloc :: "LinerAllocator \<Rightarrow> usize \<Rightarrow> Layout \<Rightarrow> LinerAllocator" where
  "dealloc a ptr layout = a"

definition init_allocator :: "LinerAllocator \<Rightarrow> usize \<Rightarrow> usize \<Rightarrow> LinerAllocator outcome" where
  "init_allocator a start sz = allocator_init a start sz"

section \<open>The invariant and the behaviour of alloc\<close>

definition heap_inv :: "LinerAllocator \<Rightarrow> bool" where
  "heap_inv a \<longleftrightarrow> la_start a \<le> la_next a \<and> la_next a \<le> la_end a"

lemma heap_inv_new: "heap_inv allocator_new"
  by (simp add: heap_inv_def allocator_new_def)

lemma heap_inv_init: "allocator_init a start sz = Inr a' \<Longrightarrow> heap_inv a'"
  by (auto simp: allocator_init_def heap_inv_def outcome_simps word_le_nat_alt unat_add_no_wrap)

text \<open>The block that an allocation of this layout would get next.\<close>

definition block_start :: "LinerAllocator \<Rightarrow> Layout \<Rightarrow> nat" where
  "block_start a l = align_up_nat (unat (layout_align l)) (unat (la_next a))"

lemma valid_layout_align:
  "valid_layout l \<Longrightarrow> 0 < unat (layout_align l)"
  by (simp add: valid_layout_def is_power_of_two_def unat_gt_0)

text \<open>The three outcomes of \<open>alloc\<close>, by the place of the next block.\<close>

lemma alloc_unfold:
  assumes "valid_layout l" "unat (la_next a) + unat (layout_align l) < 2 ^ 64"
  defines "s \<equiv> (la_next a + (layout_align l - 1)) AND NOT (layout_align l - 1)"
  shows "unat s = block_start a l"
    "alloc a l =
      (if block_start a l + unat (layout_size l) \<le> unat (la_end a)
       then Inr (a\<lparr>la_next := s + layout_size l\<rparr>, s) else Inr (a, 0))"
proof -
  let ?al = "layout_align l"
  have pow: "is_power_of_two ?al" using assms(1) by (simp add: valid_layout_def)
  have pos: "0 < unat ?al" using assms(1) by (rule valid_layout_align)
  then have one: "1 \<le> ?al" by (simp add: word_le_nat_alt)
  have pred: "unat (?al - 1) = unat ?al - 1" using one by (simp add: unat_sub)
  show s: "unat s = block_start a l"
    unfolding s_def block_start_def using pow assms(2) pred by (intro align_round) simp_all
  have t: "add_chk (la_next a) ?al = Inr (la_next a + ?al)"
    using assms(2) by (simp add: add_chk_ok)
  have t1: "sub_chk (la_next a + ?al) 1 = Inr (la_next a + (?al - 1))"
    using assms(2) pos by (subst sub_chk_ok) (simp_all add: word_le_nat_alt unat_add_no_wrap)
  have body: "alloc a l =
      (case checked_add s (layout_size l) of None \<Rightarrow> Inr (a, 0)
       | Some e \<Rightarrow> if e > la_end a then Inr (a, 0) else Inr (a\<lparr>la_next := e\<rparr>, s))"
    by (simp add: alloc_def Let_def t t1 sub_chk_ok [OF one] s_def split: option.split)
  show "alloc a l =
      (if block_start a l + unat (layout_size l) \<le> unat (la_end a)
       then Inr (a\<lparr>la_next := s + layout_size l\<rparr>, s) else Inr (a, 0))"
  proof (cases "block_start a l + unat (layout_size l) < 2 ^ 64")
    case True
    then have "unat (s + layout_size l) = block_start a l + unat (layout_size l)"
      using s by (simp add: unat_add_no_wrap)
    with True s show ?thesis
      by (simp add: body checked_add_def word_less_nat_alt)
  next
    case False
    then have "\<not> block_start a l + unat (layout_size l) \<le> unat (la_end a)"
      using unat_usize_less [of "la_end a"] by simp
    with False s show ?thesis by (simp add: body checked_add_def)
  qed
qed

text \<open>
  A heap that was set up on a region which is not at address zero and leaves room for the
  rounding at its end; \<open>heap_slack\<close> is the largest alignment it may be asked for.
\<close>

definition heap_ready :: "nat \<Rightarrow> LinerAllocator \<Rightarrow> bool" where
  "heap_ready slack a \<longleftrightarrow>
     heap_inv a \<and> 0 < la_start a \<and> unat (la_end a) + slack < 2 ^ 64"

definition fits :: "LinerAllocator \<Rightarrow> Layout \<Rightarrow> bool" where
  "fits a l \<longleftrightarrow> block_start a l + unat (layout_size l) \<le> unat (la_end a)"

lemma heap_ready_next:
  assumes "heap_ready slack a" "unat (layout_align l) \<le> slack"
  shows "unat (la_next a) + unat (layout_align l) < 2 ^ 64"
  using assms by (simp add: heap_ready_def heap_inv_def word_le_nat_alt)

lemma block_start_ge: "valid_layout l \<Longrightarrow> unat (la_next a) \<le> block_start a l"
  unfolding block_start_def by (rule align_up_nat_ge) (rule valid_layout_align)

lemma alloc_null:
  assumes "heap_ready slack a" "valid_layout l" "unat (layout_align l) \<le> slack" "\<not> fits a l"
  shows "alloc a l = Inr (a, 0)"
  using alloc_unfold(2) [OF assms(2) heap_ready_next [OF assms(1,3)]] assms(4)
  by (simp add: fits_def)

lemma alloc_block:
  assumes "heap_ready slack a" "valid_layout l" "unat (layout_align l) \<le> slack" "fits a l"
  obtains a' p where "alloc a l = Inr (a', p)" "unat p = block_start a l"
    "unat (la_next a') = unat p + unat (layout_size l)"
    "la_start a' = la_start a" "la_end a' = la_end a" "heap_ready slack a'" "0 < unat p"
proof -
  note un = alloc_unfold [OF assms(2) heap_ready_next [OF assms(1,3)]]
  let ?s = "(la_next a + (layout_align l - 1)) AND NOT (layout_align l - 1)"
  let ?a = "a\<lparr>la_next := ?s + layout_size l\<rparr>"
  have fit: "unat ?s + unat (layout_size l) \<le> unat (la_end a)"
    using assms(4) un(1) by (simp add: fits_def)
  then have nxt: "unat (?s + layout_size l) = unat ?s + unat (layout_size l)"
    using unat_usize_less [of "la_end a"] by (simp add: unat_add_no_wrap)
  have ge: "unat (la_next a) \<le> unat ?s"
    using block_start_ge [OF assms(2)] un(1) by simp
  have pos: "0 < unat ?s"
    using assms(1) ge by (simp add: heap_ready_def heap_inv_def word_le_nat_alt word_less_nat_alt)
  have "heap_ready slack ?a"
    using assms(1) ge fit nxt by (simp add: heap_ready_def heap_inv_def word_le_nat_alt)
  with nxt pos un assms(4) show ?thesis
    by (intro that [of ?a ?s]) (simp_all add: fits_def)
qed

section \<open>The contract of the global allocator\<close>

text \<open>
  What a client of \<open>GlobalAlloc\<close> relies on.  \<open>inv\<close> is what the provider keeps true and
  \<open>used\<close> the set of addresses it will not hand out again.
\<close>

locale block_source =
  fixes alloc_op :: "'s \<Rightarrow> Layout \<Rightarrow> ('s \<times> usize) outcome"
    and inv :: "'s \<Rightarrow> bool"
    and used :: "'s \<Rightarrow> nat set"
    and ok_layout :: "Layout \<Rightarrow> bool"
  assumes total: "inv s \<Longrightarrow> ok_layout l \<Longrightarrow> \<exists>s' p. alloc_op s l = Inr (s', p)"
    and keeps_inv: "inv s \<Longrightarrow> ok_layout l \<Longrightarrow> alloc_op s l = Inr (s', p) \<Longrightarrow> inv s'"
    and used_mono: "inv s \<Longrightarrow> ok_layout l \<Longrightarrow> alloc_op s l = Inr (s', p) \<Longrightarrow> used s \<subseteq> used s'"
    and block_fresh: "inv s \<Longrightarrow> ok_layout l \<Longrightarrow> alloc_op s l = Inr (s', p) \<Longrightarrow> p \<noteq> 0 \<Longrightarrow>
      {unat p ..< unat p + unat (layout_size l)} \<inter> used s = {}"
    and block_used: "inv s \<Longrightarrow> ok_layout l \<Longrightarrow> alloc_op s l = Inr (s', p) \<Longrightarrow> p \<noteq> 0 \<Longrightarrow>
      {unat p ..< unat p + unat (layout_size l)} \<subseteq> used s'"
    and block_aligned: "inv s \<Longrightarrow> ok_layout l \<Longrightarrow> alloc_op s l = Inr (s', p) \<Longrightarrow> p \<noteq> 0 \<Longrightarrow>
      unat (layout_align l) dvd unat p"

text \<open>A client's sequence of requests; a null result leaves no block behind.\<close>

fun alloc_all :: "('s \<Rightarrow> Layout \<Rightarrow> ('s \<times> usize) outcome) \<Rightarrow> 's \<Rightarrow> Layout list \<Rightarrow>
    ('s \<times> (usize \<times> Layout) list) outcome" where
  "alloc_all f s [] = Inr (s, [])"
| "alloc_all f s (l # ls) =
     bind_out (f s l) (\<lambda>(s', p).
     bind_out (alloc_all f s' ls) (\<lambda>(s'', bs).
     Inr (s'', if p = 0 then bs else (p, l) # bs)))"

definition block_addrs :: "usize \<times> Layout \<Rightarrow> nat set" where
  "block_addrs b = {unat (fst b) ..< unat (fst b) + unat (layout_size (snd b))}"

context block_source
begin

lemma alloc_all_total:
  "inv s \<Longrightarrow> list_all ok_layout ls \<Longrightarrow> \<exists>s' bs. alloc_all alloc_op s ls = Inr (s', bs) \<and> inv s'"
proof (induction ls arbitrary: s)
  case Nil
  then show ?case by simp
next
  case (Cons l ls)
  then obtain s1 p where s1: "alloc_op s l = Inr (s1, p)" using total [of s l] by auto
  with Cons.prems have "inv s1" using keeps_inv by auto
  with Cons.IH [of s1] Cons.prems(2)
  obtain s2 bs where "alloc_all alloc_op s1 ls = Inr (s2, bs)" "inv s2" by auto
  with s1 show ?case by simp
qed

lemma alloc_all_fresh:
  assumes "inv s" "list_all ok_layout ls" "alloc_all alloc_op s ls = Inr (s', bs)"
  shows "used s \<subseteq> used s' \<and> (\<forall>b \<in> set bs. block_addrs b \<inter> used s = {} \<and> block_addrs b \<subseteq> used s' \<and>
      unat (layout_align (snd b)) dvd unat (fst b))"
  using assms
proof (induction ls arbitrary: s s' bs)
  case Nil
  then show ?case by simp
next
  case (Cons l ls)
  from Cons.prems obtain s1 p bs1 where s1: "alloc_op s l = Inr (s1, p)"
    and rest: "alloc_all alloc_op s1 ls = Inr (s', bs1)"
    and bs: "bs = (if p = 0 then bs1 else (p, l) # bs1)"
    by (auto simp: outcome_simps)
  from Cons.prems have ok: "inv s" "ok_layout l" by simp_all
  note laws = keeps_inv [OF ok s1] used_mono [OF ok s1] block_fresh [OF ok s1]
    block_used [OF ok s1] block_aligned [OF ok s1]
  have ih: "used s1 \<subseteq> used s' \<and> (\<forall>b \<in> set bs1. block_addrs b \<inter> used s1 = {} \<and>
      block_addrs b \<subseteq> used s' \<and> unat (layout_align (snd b)) dvd unat (fst b))"
    using Cons.IH [OF laws(1) _ rest] Cons.prems(2) by simp
  have blk: "p \<noteq> 0 \<Longrightarrow> block_addrs (p, l) \<inter> used s = {} \<and> block_addrs (p, l) \<subseteq> used s1 \<and>
      unat (layout_align l) dvd unat p"
    using laws(3-) by (simp add: block_addrs_def)
  show ?case
    using ih blk laws(2) unfolding bs by (cases "p = 0") (simp, blast, simp, blast)
qed

lemma alloc_all_disjoint:
  assumes "inv s" "list_all ok_layout ls" "alloc_all alloc_op s ls = Inr (s', bs)"
  shows "pairwise (\<lambda>i j. disjnt (block_addrs (bs ! i)) (block_addrs (bs ! j))) {..< length bs}"
  using assms
proof (induction ls arbitrary: s s' bs)
  case Nil
  then show ?case by (simp add: pairwise_def)
next
  case (Cons l ls)
  from Cons.prems obtain s1 p bs1 where s1: "alloc_op s l = Inr (s1, p)"
    and rest: "alloc_all alloc_op s1 ls = Inr (s', bs1)"
    and bs: "bs = (if p = 0 then bs1 else (p, l) # bs1)"
    by (auto simp: outcome_simps)
  from Cons.prems have ok: "inv s" "ok_layout l" and oks: "list_all ok_layout ls" by simp_all
  note inv1 = keeps_inv [OF ok s1]
  have tail: "pairwise (\<lambda>i j. disjnt (block_addrs (bs1 ! i)) (block_addrs (bs1 ! j))) {..< length bs1}"
    using Cons.IH [OF inv1 oks rest] .
  show ?case
  proof (cases "p = 0")
    case True
    with tail bs show ?thesis by simp
  next
    case False
    have sep: "disjnt (block_addrs (p, l)) (block_addrs b)" if "b \<in> set bs1" for b
      using alloc_all_fresh [OF inv1 oks rest] block_used [OF ok s1 False] that
      unfolding disjnt_def block_addrs_def by fastforce
    have "disjnt (block_addrs (bs ! i)) (block_addrs (bs ! j))"
      if ij: "i < length bs" "j < length bs" "i \<noteq> j" for i j
      using ij tail sep unfolding pairwise_def bs
      by (cases i; cases j) (auto simp: False disjnt_sym)
    then show ?thesis by (simp add: pairwise_def)
  qed
qed

end

text \<open>The bump allocator meets the contract for every layout up to its slack.\<close>

definition heap_used :: "LinerAllocator \<Rightarrow> nat set" where
  "heap_used a = {unat (la_start a) ..< unat (la_next a)}"

definition small_layout :: "nat \<Rightarrow> Layout \<Rightarrow> bool" where
  "small_layout slack l \<longleftrightarrow> valid_layout l \<and> unat (layout_align l) \<le> slack"

lemma alloc_cases:
  assumes "heap_ready slack a" "small_layout slack l" "alloc a l = Inr (a', p)"
  shows "p = 0 \<and> a' = a \<and> \<not> fits a l \<or>
    p \<noteq> 0 \<and> fits a l \<and> unat p = block_start a l \<and> unat (la_next a') = unat p + unat (layout_size l) \<and>
    la_start a' = la_start a \<and> la_end a' = la_end a \<and> heap_ready slack a'"
proof (cases "fits a l")
  case True
  with assms(1,2) show ?thesis
    unfolding small_layout_def
    by (elim conjE alloc_block [of slack a l]) (use assms(3) in auto)
next
  case False
  with assms show ?thesis
    by (auto simp: small_layout_def dest: alloc_null)
qed

interpretation kernel_heap: block_source alloc "heap_ready slack" heap_used "small_layout slack"
proof unfold_locales
  fix s l assume inv: "heap_ready slack s" and ok: "small_layout slack l"
  show "\<exists>s' p. alloc s l = Inr (s', p)"
  proof (cases "fits s l")
    case True
    with inv ok show ?thesis unfolding small_layout_def by (metis alloc_block)
  next
    case False
    with inv ok show ?thesis unfolding small_layout_def by (metis alloc_null)
  qed
next
  fix s l s' p assume a: "heap_ready slack s" "small_layout slack l" "alloc s l = Inr (s', p)"
  note c = alloc_cases [OF a]
  have ge: "unat (la_next s) \<le> block_start s l"
    using a(2) by (simp add: small_layout_def block_start_ge)
  have le: "unat (la_start s) \<le> unat (la_next s)"
    using a(1) by (simp add: heap_ready_def heap_inv_def word_le_nat_alt)
  show "heap_ready slack s'" using c a(1) by auto
  show "heap_used s \<subseteq> heap_used s'" using c ge by (auto simp: heap_used_def)
  show "{unat p ..< unat p + unat (layout_size l)} \<inter> heap_used s = {}" if "p \<noteq> 0"
    using c ge that by (auto simp: heap_used_def)
  show "{unat p ..< unat p + unat (layout_size l)} \<subseteq> heap_used s'" if "p \<noteq> 0"
    using c ge le that by (auto simp: heap_used_def)
  show "unat (layout_align l) dvd unat p" if "p \<noteq> 0"
    using c that by (auto simp: block_start_def)
qed

section \<open>Properties\<close>



text \<open>
  C29: whatever sequence of layouts is requested, the heap answers every request, the blocks
  it hands out are pairwise disjoint and aligned, and none of them overlaps what was handed
  out before the sequence began.
\<close>

theorem alloc_all_blocks_disjoint:
  assumes "heap_ready slack a" "list_all (small_layout slack) ls"
  shows "\<exists>a' bs. alloc_all alloc a ls = Inr (a', bs) \<and> heap_ready slack a' \<and>
    pairwise (\<lambda>i j. disjnt (block_addrs (bs ! i)) (block_addrs (bs ! j))) {..< length bs} \<and>
    (\<forall>b \<in> set bs. block_addrs b \<inter> heap_used a = {} \<and> block_addrs b \<subseteq> heap_used a' \<and>
       unat (layout_align (snd b)) dvd unat (fst b))"
proof -
  obtain a' bs where r: "alloc_all alloc a ls = Inr (a', bs)" and inv: "heap_ready slack a'"
    using kernel_heap.alloc_all_total [OF assms] by blast
  from kernel_heap.alloc_all_disjoint [OF assms r] kernel_heap.alloc_all_fresh [OF assms r] r inv
  show ?thesis by blast
qed

theorem alloc_all_blocks_disjoint_witness:
  "\<exists>a' bs. alloc_all alloc \<lparr>la_start = 0x1000, la_end = 0x4000, la_next = 0x1000\<rparr>
       [\<lparr>layout_size = 0x18, layout_align = 8\<rparr>, \<lparr>layout_size = 0x1000, layout_align = 0x1000\<rparr>]
     = Inr (a', bs) \<and>
     pairwise (\<lambda>i j. disjnt (block_addrs (bs ! i)) (block_addrs (bs ! j))) {..< length bs}"
proof -
  let ?a = "\<lparr>la_start = 0x1000, la_end = 0x4000, la_next = 0x1000\<rparr>"
  let ?ls = "[\<lparr>layout_size = 0x18, layout_align = 8\<rparr>, \<lparr>layout_size = 0x1000, layout_align = 0x1000\<rparr>]"
  have ready: "heap_ready 0x1000 ?a" by (simp add: heap_ready_def heap_inv_def)
  have small: "list_all (small_layout 0x1000) ?ls"
    by (simp add: small_layout_def valid_layout_def is_power_of_two_def)
  show ?thesis using alloc_all_blocks_disjoint [OF ready small] by blast
qed

end
