(* ===== verification/Paging.thy ===== *)
theory Paging
  imports Translation Allocator
begin

text \<open>
  The kernel's page tables (\<open>kernel/src/paging.rs\<close>): allocation of table nodes from the
  kernel heap, the walk that creates missing levels, \<open>map\<close> with its 1 GiB and 4 KiB paths,
  \<open>create_mapping\<close>, \<open>duplicate_kernel\<close> and \<open>init_paging\<close>.

  The state is the part of the machine that this code reads and writes: the heap, the table
  nodes in memory (keyed by the address at which the kernel reaches them) and \<open>CR3\<close>.  A
  reference to a node is its address; reading through an address that holds no node is the
  fault \<open>Bad_pointer\<close>.  The diagnostics printed on the serial line are left out.
\<close>

section \<open>State and node access\<close>

record kmem =
  heap :: LinerAllocator
  nodes :: node_mem
  cr3 :: usize

definition read_entry :: "kmem \<Rightarrow> usize \<Rightarrow> nat \<Rightarrow> PageTableEntry outcome" where
  "read_entry m a i =
     (case nodes m a of None \<Rightarrow> Inl Bad_pointer
      | Some n \<Rightarrow> if i < length (entries n) then Inr (entries n ! i) else Inl Index_out_of_bounds)"

definition write_entry :: "kmem \<Rightarrow> usize \<Rightarrow> nat \<Rightarrow> PageTableEntry \<Rightarrow> kmem outcome" where
  "write_entry m a i e =
     (case nodes m a of None \<Rightarrow> Inl Bad_pointer
      | Some n \<Rightarrow> if i < length (entries n) then Inr (m\<lparr>nodes := write_node (nodes m) a i e\<rparr>)
                  else Inl Index_out_of_bounds)"

text \<open>\<open>size_of::<PageTableNode>()\<close> and its \<open>repr(align(4096))\<close>.\<close>

definition node_layout :: Layout where
  "node_layout = \<lparr>layout_size = 4096, layout_align = 4096\<rparr>"

text \<open>\<open>Box::new(zeroed)\<close>: a null block ends in \<open>handle_alloc_error\<close>.\<close>

definition box_zeroed_node :: "kmem \<Rightarrow> (kmem \<times> usize) outcome" where
  "box_zeroed_node m =
     bind_out (alloc (heap m) node_layout) (\<lambda>(h, p).
     if p = 0 then Inl Alloc_error
     else Inr (m\<lparr>heap := h, nodes := (nodes m)(p \<mapsto> zeroed_node)\<rparr>, p))"

definition write_cr3 :: "kmem \<Rightarrow> PhysAddr \<Rightarrow> kmem" where
  "write_cr3 m phys = m\<lparr>cr3 := phys_usize phys\<rparr>"

section \<open>Next-level tables\<close>

definition next_node_mut :: "PageTableEntry \<Rightarrow> usize option outcome" where
  "next_node_mut e =
     bind_out (is_present e) (\<lambda>p.
     if \<not> p then Inr None
     else bind_out (phys_to_virt (pte_paddr e)) (\<lambda>v. Inr (Some (virt_usize v))))"

definition alloc_next_level_table ::
    "kmem \<Rightarrow> PageTableEntry \<Rightarrow> (kmem \<times> PageTableEntry \<times> unit rust_result) outcome" where
  "alloc_next_level_table m e =
     bind_out (is_present e) (\<lambda>p.
     if p then Inr (m, e, Inl ''Next level table is already allocated'')
     else bind_out (box_zeroed_node m) (\<lambda>(m1, next).
          bind_out (virt_to_phys (VirtAddr next)) (\<lambda>phys_addr.
          Inr (m1, e\<lparr>pte_value := phys_usize phys_addr OR attr_u64 ReadWriteExecuteKernel\<rparr>, Inr ()))))"

definition get_or_alloc_next_level_table ::
    "kmem \<Rightarrow> usize \<Rightarrow> nat \<Rightarrow> (kmem \<times> usize rust_result) outcome" where
  "get_or_alloc_next_level_table m node i =
     bind_out (read_entry m node i) (\<lambda>e.
     bind_out (is_present e) (\<lambda>p.
     bind_out (if \<not> p
               then bind_out (alloc_next_level_table m e) (\<lambda>(m1, e1, r).
                    bind_out (unwrap_result r) (\<lambda>_. write_entry m1 node i e1))
               else Inr m) (\<lambda>m2.
     bind_out (read_entry m2 node i) (\<lambda>e2.
     bind_out (next_node_mut e2) (\<lambda>nn.
     bind_out (unwrap_option nn) (\<lambda>next. Inr (m2, Inr next)))))))"

section \<open>map\<close>

definition PAGE_SIZE :: MSize where "PAGE_SIZE = MSize 4096"

definition pagetable_new :: PageTableNode where
  "pagetable_new = zeroed_node"

text \<open>\<open>for level in (2..=4).rev()\<close>: down one level per step, creating what is missing.\<close>

fun map_levels :: "kmem \<Rightarrow> usize \<Rightarrow> VirtAddr \<Rightarrow> nat list \<Rightarrow> (kmem \<times> usize rust_result) outcome" where
  "map_levels m node va [] = Inr (m, Inr node)"
| "map_levels m node va (level # levels) =
     bind_out (nth_level_table_index va level) (\<lambda>index.
     bind_out (get_or_alloc_next_level_table m node index) (\<lambda>(m1, r).
     case r of Inl err \<Rightarrow> Inr (m1, Inl err)
     | Inr node1 \<Rightarrow> map_levels m1 node1 va levels))"

text \<open>The loop of the 1 GiB path: \<open>i\<close> iterations done, \<open>k\<close> to go.\<close>

fun map_1gib :: "usize \<Rightarrow> nat \<Rightarrow> PhysAddr \<Rightarrow> PageTableAttr \<Rightarrow> nat \<Rightarrow> nat \<Rightarrow> kmem \<Rightarrow>
    (kmem \<times> unit rust_result) outcome" where
  "map_1gib pdpt index phys attr i 0 m = Inr (m, Inr ())"
| "map_1gib pdpt index phys attr i (Suc k) m =
     bind_out (read_entry m pdpt (index + i)) (\<lambda>e.
     bind_out (mul_chk (of_nat i) (2 ^ 30)) (\<lambda>off.
     bind_out (add_chk (phys_usize phys) off) (\<lambda>pa.
     case set_entry e (PhysAddr pa) attr of
       (_, Inl err) \<Rightarrow> Inr (m, Inl err)
     | (e', Inr _) \<Rightarrow>
         bind_out (write_entry m pdpt (index + i) e') (\<lambda>m1.
         map_1gib pdpt index phys attr (Suc i) k m1))))"

text \<open>
  The loop of the 4 KiB path.  \<open>start_index + i\<close> cannot overflow: the virtual address would
  have left the address space long before.
\<close>

fun map_4kib :: "usize \<Rightarrow> PageTableAttr \<Rightarrow> nat \<Rightarrow> nat \<Rightarrow> nat \<Rightarrow> kmem \<Rightarrow> usize \<Rightarrow> VirtAddr \<Rightarrow> PhysAddr \<Rightarrow>
    (kmem \<times> unit rust_result) outcome" where
  "map_4kib self attr start_index i 0 m node va pa = Inr (m, Inr ())"
| "map_4kib self attr start_index i (Suc k) m node va pa =
     (let index = (start_index + i) mod 512 in
      bind_out (if index = 0 \<and> i \<noteq> 0 then map_levels m self va [4, 3, 2] else Inr (m, Inr node))
        (\<lambda>(m1, r).
      case r of Inl err \<Rightarrow> Inr (m1, Inl err)
      | Inr node1 \<Rightarrow>
          bind_out (read_entry m1 node1 index) (\<lambda>e.
          case set_entry e pa attr of
            (_, Inl err) \<Rightarrow> Inr (m1, Inl err)
          | (e', Inr _) \<Rightarrow>
              bind_out (write_entry m1 node1 index e') (\<lambda>m2.
              bind_out (virt_add va PAGE_SIZE) (\<lambda>va1.
              bind_out (phys_add pa PAGE_SIZE) (\<lambda>pa1.
              map_4kib self attr start_index (Suc i) k m2 node1 va1 pa1))))))"

definition map_range :: "kmem \<Rightarrow> usize \<Rightarrow> VirtAddr \<Rightarrow> PhysAddr \<Rightarrow> nat \<Rightarrow> PageTableAttr \<Rightarrow>
    (kmem \<times> unit rust_result) outcome" where
  "map_range m self virt_start phys_start num_pages attr =
     bind_out (rust_assert (unat (virt_usize virt_start) mod unat (msize_usize PAGE_SIZE) = 0)) (\<lambda>_.
     bind_out (rust_assert (unat (phys_usize phys_start) mod unat (msize_usize PAGE_SIZE) = 0)) (\<lambda>_.
     if attr = ReadWriteKernel1GiB \<and> unat (virt_usize virt_start) mod 2 ^ 30 = 0 \<and>
        unat (phys_usize phys_start) mod 2 ^ 30 = 0 \<and> num_pages mod 2 ^ 18 = 0
     then
       bind_out (pml4_index virt_start) (\<lambda>i4.
       bind_out (pdpt_index virt_start) (\<lambda>i3.
       bind_out (get_or_alloc_next_level_table m self i4) (\<lambda>(m1, r).
       case r of Inl err \<Rightarrow> Inr (m1, Inl err)
       | Inr pdpt \<Rightarrow> map_1gib pdpt i3 phys_start attr 0 (num_pages div 2 ^ 18) m1)))
     else
       bind_out (map_levels m self virt_start [4, 3, 2]) (\<lambda>(m1, r).
       case r of Inl err \<Rightarrow> Inr (m1, Inl err)
       | Inr node \<Rightarrow>
           bind_out (pt_index virt_start) (\<lambda>start_index.
           map_4kib self attr start_index 0 num_pages m1 node virt_start phys_start))))"

definition create_mapping :: "kmem \<Rightarrow> usize \<Rightarrow> VirtAddr \<Rightarrow> PhysAddr \<Rightarrow> MSize \<Rightarrow> PageTableAttr \<Rightarrow>
    (kmem \<times> unit rust_result) outcome" where
  "create_mapping m self virt_start phys_start sz attr =
     map_range m self virt_start phys_start
       (div_ceil (unat (msize_usize sz)) (unat (msize_usize PAGE_SIZE))) attr"

section \<open>duplicate\_kernel and init\_paging\<close>

fun copy_present :: "usize \<Rightarrow> usize \<Rightarrow> nat list \<Rightarrow> kmem \<Rightarrow> kmem outcome" where
  "copy_present self new [] m = Inr m"
| "copy_present self new (i # is) m =
     bind_out (read_entry m self i) (\<lambda>entry.
     bind_out (is_present entry) (\<lambda>p.
     bind_out (if p then write_entry m new i entry else Inr m) (\<lambda>m1.
     copy_present self new is m1)))"

definition duplicate_kernel :: "kmem \<Rightarrow> usize \<Rightarrow> (kmem \<times> usize) outcome" where
  "duplicate_kernel m self =
     bind_out (box_zeroed_node m) (\<lambda>(m1, new_table).
     bind_out (copy_present self new_table [0..<512] m1) (\<lambda>m2. Inr (m2, new_table)))"

text \<open>The section bounds that \<open>kernel.ld\<close> exports (\<open>mod symbol_offsets\<close> in \<open>main.rs\<close>).\<close>

record symbols =
  sym_text :: VirtAddr
  sym_text_end :: VirtAddr
  sym_rodata :: VirtAddr
  sym_rodata_end :: VirtAddr
  sym_data :: VirtAddr
  sym_bss_end :: VirtAddr

definition map_section :: "kmem \<Rightarrow> usize \<Rightarrow> VirtAddr \<Rightarrow> VirtAddr \<Rightarrow> PageTableAttr \<Rightarrow> kmem outcome" where
  "map_section m root sec_start sec_end attr =
     bind_out (virt_to_phys sec_start) (\<lambda>phys.
     bind_out (from_address virt_usize sec_start sec_end) (\<lambda>sz.
     bind_out (create_mapping m root sec_start phys sz attr) (\<lambda>(m1, r).
     bind_out (unwrap_result r) (\<lambda>_. Inr m1))))"

definition init_paging :: "kmem \<Rightarrow> symbols \<Rightarrow> (kmem \<times> usize) outcome" where
  "init_paging m s =
     bind_out (box_zeroed_node m) (\<lambda>(m0, root).
     bind_out (create_mapping m0 root LINER_MAPPING_BASE_VADDR (PhysAddr 0) LINER_MAPPING_SIZE
                 ReadWriteKernel1GiB) (\<lambda>(m1, r1).
     bind_out (unwrap_result r1) (\<lambda>_.
     bind_out (map_section m1 root (sym_text s) (sym_text_end s) ReadExecuteKernel) (\<lambda>m2.
     bind_out (map_section m2 root (sym_rodata s) (sym_rodata_end s) ReadKernel) (\<lambda>m3.
     bind_out (map_section m3 root (sym_data s) (sym_bss_end s) ReadWriteKernel) (\<lambda>m4.
     bind_out (create_mapping m4 root (VirtAddr APIC_IO_START_ADDR) (PhysAddr APIC_IO_START_ADDR)
                 APIC_IO_SIZE ReadWriteKernelIO) (\<lambda>(m5, r5).
     bind_out (unwrap_result r5) (\<lambda>_.
     bind_out (virt_to_phys (VirtAddr root)) (\<lambda>phys.
     Inr (write_cr3 m5 phys, root))))))))))"

end
