(* ===== verification/Table_Walk.thy ===== *)
theory Table_Walk
  imports Translation
begin

text \<open>
  The kernel and the loader map pages with the same algorithm over different memories: the
  kernel takes its tables from its heap and reaches them through the linear window, the loader
  takes them from the firmware and reaches them at their physical address.  The locales state
  what the algorithm needs of each.

  \<^item> \<open>table_memory\<close>: reading and writing entries, and going down one level with the creation of
    a missing table, under an invariant and a measure of the room for new tables.
  \<^item> \<open>page_mapper\<close>: the loops of \<open>map\<close>, by the steps they take, and \<open>create_mapping\<close>.

  The lemmas say that the walk never changes a translation, and that \<open>map\<close> and \<open>create_mapping\<close>
  return and refine \<open>map_spec\<close> and \<open>map_gib_spec\<close>.  The theories \<open>Paging_Correct\<close> and
  \<open>Loader_Paging\<close> interpret both locales.
\<close>

section \<open>Table memories\<close>

locale table_memory =
  fixes tables :: "'m \<Rightarrow> node_mem"
    and with_tables :: "'m \<Rightarrow> node_mem \<Rightarrow> 'm"
    and ptr :: "PageTableEntry \<Rightarrow> usize"
    and inv :: "'m \<Rightarrow> bool"
    and free :: "'m \<Rightarrow> nat \<Rightarrow> bool"
    and rest :: "'m \<Rightarrow> 'r"
    and get :: "'m \<Rightarrow> usize \<Rightarrow> nat \<Rightarrow> PageTableEntry outcome"
    and put :: "'m \<Rightarrow> usize \<Rightarrow> nat \<Rightarrow> PageTableEntry \<Rightarrow> 'm outcome"
    and descend :: "'m \<Rightarrow> usize \<Rightarrow> nat \<Rightarrow> ('m \<times> usize rust_result) outcome"
  assumes tables_with: "tables (with_tables m M) = M"
    and rest_with: "rest (with_tables m M) = rest m"
    and free_with: "free (with_tables m M) k = free m k"
    and inv_with: "inv m \<Longrightarrow> dom M = dom (tables m) \<Longrightarrow> inv (with_tables m M)"
    and free_le: "free m k \<Longrightarrow> j \<le> k \<Longrightarrow> free m j"
    and get_entry: "tables m a = Some n \<Longrightarrow> i < length (entries n) \<Longrightarrow> get m a i = Inr (entries n ! i)"
    and put_entry: "tables m a = Some n \<Longrightarrow> i < length (entries n) \<Longrightarrow>
      put m a i e = Inr (with_tables m (write_node (tables m) a i e))"
    and descend_present: "\<lbrakk>inv m; tables m a = Some n; i < length (entries n); present (entries n ! i);
      ptr (entries n ! i) \<in> dom (tables m)\<rbrakk> \<Longrightarrow> descend m a i = Inr (m, Inr (ptr (entries n ! i)))"
    and descend_absent: "\<lbrakk>inv m; free m (Suc k); tables m a = Some n; i < length (entries n);
      \<not> present (entries n ! i)\<rbrakk> \<Longrightarrow>
      \<exists>m' v. descend m a i = Inr (m', Inr (ptr v)) \<and> ptr v \<notin> dom (tables m) \<and> table_entry v \<and>
        tables m' = hang ptr (tables m) a i v \<and> inv m' \<and> free m' k \<and> rest m' = rest m"
begin

abbreviation ok :: "'m \<Rightarrow> usize \<Rightarrow> bool" where
  "ok m root \<equiv> inv m \<and> tree_inv ptr (tables m) root"

abbreviation extends :: "usize \<Rightarrow> 'm \<Rightarrow> 'm \<Rightarrow> bool" where
  "extends root m m' \<equiv> inv m' \<and> rest m' = rest m \<and> grown ptr root (tables m) (tables m')"

lemma extends_ok: "extends root m m' \<Longrightarrow> ok m' root"
  by (simp add: grown_def)

lemma descend_there:
  assumes ok: "ok m root" and a: "node_at ptr (tables m) root p = Some a" "length p \<le> 2" "tables m a = Some n"
    and i: "i < 512" "table_entry (entries n ! i)"
  shows "descend m a i = Inr (m, Inr (ptr (entries n ! i)))"
    "node_at ptr (tables m) root (p @ [i]) = Some (ptr (entries n ! i))"
proof -
  have t: "tree_inv ptr (tables m) root" using ok ..
  have len: "i < length (entries n)" using tree_invD(1) [OF t a(3)] i(1) by simp
  show at: "node_at ptr (tables m) root (p @ [i]) = Some (ptr (entries n ! i))"
    by (rule tree_next [OF t a len i(2)])
  show "descend m a i = Inr (m, Inr (ptr (entries n ! i)))"
    using descend_present [OF _ a(3) len _ node_at_dom [OF at]] ok i(2) by (simp add: table_entry_def)
qed

lemma descend_new:
  assumes ok: "ok m root" and r: "free m (Suc k)"
    and a: "node_at ptr (tables m) root p = Some a" "length p \<le> 2" "tables m a = Some n"
    and i: "i < 512" "\<not> present (entries n ! i)"
  obtains m' b where "descend m a i = Inr (m', Inr b)" "extends root m m'" "free m' k"
    "node_at ptr (tables m') root (p @ [i]) = Some b"
proof -
  have len: "i < length (entries n)" using tree_invD(1) [OF conjunct2 [OF ok] a(3)] i(1) by simp
  obtain m' v where d: "descend m a i = Inr (m', Inr (ptr v))" "ptr v \<notin> dom (tables m)" "table_entry v"
      "tables m' = hang ptr (tables m) a i v" "inv m'" "free m' k" "rest m' = rest m"
    using descend_absent [OF conjunct1 [OF ok] r a(3) len i(2)] by blast
  have pre: "hang_pre ptr (tables m) root p a i v"
    using ok d(2,3) a i by (simp add: hang_pre_def)
  show ?thesis
    using d grown_hang [OF pre] hang_through(1) [OF pre, of "[]"] by (intro that [of m' "ptr v"]) simp_all
qed

lemma descend_ok:
  assumes ok: "ok m root" and r: "free m (Suc k)"
    and a: "node_at ptr (tables m) root p = Some a" "length p \<le> 2" and i: "i < 512"
    and path: "open_path ptr (tables m) root (p @ i # q)" "q \<noteq> []"
  obtains m' b where "descend m a i = Inr (m', Inr b)" "extends root m m'" "free m' k"
    "node_at ptr (tables m') root (p @ [i]) = Some b"
proof -
  obtain n where n: "tables m a = Some n" using node_at_dom [OF a(1)] by blast
  have len: "i < length (entries n)" using tree_invD(1) [OF conjunct2 [OF ok] n] i by simp
  consider "table_entry (entries n ! i)" | "\<not> present (entries n ! i)"
    using path lookup_append [OF a(1), of "i # q"] n len
    by (auto simp: open_path_def table_entry_def lookup.simps(2) split: if_splits)
  then show ?thesis
  proof cases
    case 1
    from descend_there [OF ok a n i this] show ?thesis
      using ok grown_refl [OF conjunct2 [OF ok]] free_le [OF r] by (intro that) simp_all
  next
    case 2
    show ?thesis by (rule descend_new [OF ok r a n i 2]) (rule that)
  qed
qed

lemma descend_root:
  assumes ok: "ok m root" and top: "top_ok (tables m) root" and r: "free m (Suc k)" and i: "i < 512"
  obtains m' b where "descend m root i = Inr (m', Inr b)" "extends root m m'" "free m' k"
    "node_at ptr (tables m') root [i] = Some b"
proof -
  obtain n where n: "tables m root = Some n" using tree_invD(2) [OF conjunct2 [OF ok]] by blast
  have a: "node_at ptr (tables m) root [] = Some root" "length [] \<le> (2 :: nat)" using n by simp_all
  show ?thesis
  proof (cases "present (entries n ! i)")
    case True
    then have "table_entry (entries n ! i)" using top n i by (simp add: top_ok_def table_entry_def)
    from descend_there [OF ok a n i this] show ?thesis
      using ok grown_refl [OF conjunct2 [OF ok]] free_le [OF r] by (intro that) simp_all
  next
    case False
    show ?thesis by (rule descend_new [OF ok r a n i False]) (rule that, simp_all)
  qed
qed

lemma entry_at:
  assumes "ok m root" "node_at ptr (tables m) root p = Some b" "i < 512"
  obtains e where "get m b i = Inr e" "\<And>v. put m b i v = Inr (with_tables m (write_node (tables m) b i v))"
proof -
  obtain nb where "tables m b = Some nb" "length (entries nb) = 512"
    using node_at_dom [OF assms(2)] tree_invD(1) [OF conjunct2 [OF assms(1)]] by blast
  then show ?thesis using that get_entry put_entry assms(3) by auto
qed

end

section \<open>Counting tables\<close>

text \<open>How often the loop walks down again: once per multiple of 512 in the range.\<close>

fun rewalks :: "nat \<Rightarrow> nat \<Rightarrow> nat" where
  "rewalks n 0 = 0"
| "rewalks n (Suc k) = (if n mod 512 = 0 then 1 else 0) + rewalks (Suc n) k"

lemma ceil_512: "(n + 511) div 512 = n div 512 + (if n mod 512 = 0 then 0 else 1)" for n :: nat
proof -
  have "n + 511 = (n mod 512 + 511) + 512 * (n div 512)" by simp
  then have "(n + 511) div 512 = n div 512 + (n mod 512 + 511) div 512"
    by (simp only: div_mult_self2 [OF numeral_neq_zero])
  moreover have "(n mod 512 + 511) div 512 = (if n mod 512 = 0 then 0 else 1)"
  proof (cases "n mod 512 = 0")
    case False
    moreover have "n mod 512 < 512" by simp
    ultimately show ?thesis by (intro div_nat_eqI) simp_all
  qed simp
  ultimately show ?thesis by simp
qed

lemma rewalks_bound: "rewalks n k \<le> k div 512 + 1"
proof -
  have "rewalks n k + (n + 511) div 512 = (n + k + 511) div 512"
  proof (induction k arbitrary: n)
    case 0
    show ?case by simp
  next
    case (Suc k)
    have "(Suc n + 511) div 512 = n div 512 + 1" by simp
    then have "(Suc n + 511) div 512 = (n + 511) div 512 + (if n mod 512 = 0 then 1 else 0)"
      by (simp only: ceil_512 split: if_split) simp
    with Suc [of "Suc n"] show ?case by simp
  qed
  moreover have "(n + 511 + k) div 512 \<le> (n + 511) div 512 + k div 512 + 1"
  proof -
    have "(n + 511) mod 512 < 512" "k mod 512 < 512" by simp_all
    then have "(n + 511) mod 512 + k mod 512 < 2 * 512" by linarith
    then have "((n + 511) mod 512 + k mod 512) div 512 < 2" by (rule less_mult_imp_div_less)
    then show ?thesis by (simp only: div_add1_eq [of "n + 511" k 512])
  qed
  ultimately show ?thesis by (simp add: add.commute add.left_commute)
qed

section \<open>The mapping algorithm\<close>

locale page_mapper = table_memory +
  fixes next_va :: "VirtAddr \<Rightarrow> VirtAddr outcome"
    and page_ok :: "nat \<Rightarrow> bool"
    and levels :: "'a \<Rightarrow> usize \<Rightarrow> VirtAddr \<Rightarrow> nat list \<Rightarrow> ('a \<times> usize rust_result) outcome"
    and gib_loop :: "usize \<Rightarrow> nat \<Rightarrow> PhysAddr \<Rightarrow> PageTableAttr \<Rightarrow> nat \<Rightarrow> nat \<Rightarrow> 'a \<Rightarrow> ('a \<times> unit rust_result) outcome"
    and page_loop :: "usize \<Rightarrow> PageTableAttr \<Rightarrow> nat \<Rightarrow> nat \<Rightarrow> nat \<Rightarrow> 'a \<Rightarrow> usize \<Rightarrow> VirtAddr \<Rightarrow> PhysAddr \<Rightarrow>
      ('a \<times> unit rust_result) outcome"
    and map_pages :: "'a \<Rightarrow> usize \<Rightarrow> VirtAddr \<Rightarrow> PhysAddr \<Rightarrow> nat \<Rightarrow> PageTableAttr \<Rightarrow> ('a \<times> unit rust_result) outcome"
    and create :: "'a \<Rightarrow> usize \<Rightarrow> VirtAddr \<Rightarrow> PhysAddr \<Rightarrow> MSize \<Rightarrow> PageTableAttr \<Rightarrow> ('a \<times> unit rust_result) outcome"
  assumes next_va: "unat (virt_usize va) = 4096 * n \<Longrightarrow> 4096 * (n + 1) < 2 ^ 64 \<Longrightarrow> page_ok (n + 1) \<Longrightarrow>
      next_va va = Inr (VirtAddr (virt_usize va + 4096))"
    and levels_done: "levels m node va [] = Inr (m, Inr node)"
    and levels_step: "nth_level_table_index va l = Inr i \<Longrightarrow> descend m node i = Inr (m1, Inr b) \<Longrightarrow>
      levels m node va (l # ls) = levels m1 b va ls"
    and gib_done: "gib_loop b i3 phys attr i 0 m = Inr (m, Inr ())"
    and gib_step: "\<lbrakk>get m b (i3 + i) = Inr e; mul_chk (of_nat i) (2 ^ 30) = Inr off;
      add_chk (phys_usize phys) off = Inr pa; frame_addr pa;
      put m b (i3 + i) (leaf_entry (PhysAddr pa) attr) = Inr m1\<rbrakk> \<Longrightarrow>
      gib_loop b i3 phys attr i (Suc k) m = gib_loop b i3 phys attr (Suc i) k m1"
    and page_done: "page_loop root attr s i 0 m node va phys = Inr (m, Inr ())"
    and page_step: "\<lbrakk>(if (s + i) mod 512 = 0 \<and> i \<noteq> 0 then levels m root va [4, 3, 2] else Inr (m, Inr node)) =
        Inr (m1, Inr b);
      get m1 b ((s + i) mod 512) = Inr e; frame_addr (phys_usize phys);
      put m1 b ((s + i) mod 512) (leaf_entry phys attr) = Inr m2; next_va va = Inr va1;
      add_chk (phys_usize phys) 4096 = Inr pa\<rbrakk> \<Longrightarrow>
      page_loop root attr s i (Suc k) m node va phys = page_loop root attr s (Suc i) k m2 b va1 (PhysAddr pa)"
    and map_4kib: "\<lbrakk>4096 dvd unat v; 4096 dvd unat pa;
      \<not> (attr = ReadWriteKernel1GiB \<and> 2 ^ 30 dvd unat v \<and> 2 ^ 30 dvd unat pa \<and> 2 ^ 18 dvd k);
      levels m root (VirtAddr v) [4, 3, 2] = Inr (m1, Inr b); pt_index (VirtAddr v) = Inr s\<rbrakk> \<Longrightarrow>
      map_pages m root (VirtAddr v) (PhysAddr pa) k attr = page_loop root attr s 0 k m1 b (VirtAddr v) (PhysAddr pa)"
    and map_1gib: "\<lbrakk>4096 dvd unat v; 4096 dvd unat pa; 2 ^ 30 dvd unat v; 2 ^ 30 dvd unat pa;
      pml4_index (VirtAddr v) = Inr i4; pdpt_index (VirtAddr v) = Inr i3; descend m root i4 = Inr (m1, Inr b)\<rbrakk> \<Longrightarrow>
      map_pages m root (VirtAddr v) (PhysAddr pa) (2 ^ 18 * g) ReadWriteKernel1GiB =
        gib_loop b i3 (PhysAddr pa) ReadWriteKernel1GiB 0 g m1"
    and create_pages: "create m root va phys (MSize sz) attr = map_pages m root va phys (pages sz) attr"
begin

text \<open>The walk to the page table of an address.\<close>

lemma levels_ok:
  assumes ok: "ok m root" and r: "free m (k + 3)"
    and path: "open_path ptr (tables m) root (page_path (page_number va))"
  obtains m' b where "levels m root va [4, 3, 2] = Inr (m', Inr b)" "extends root m m'" "free m' k"
    "node_at ptr (tables m') root (take 3 (page_path (page_number va))) = Some b"
proof -
  let ?P = "page_path (page_number va)"
  obtain i4 i3 i2 i1 where P: "?P = [i4, i3, i2, i1]" by (simp add: page_path_def)
  have lt: "i4 < 512" "i3 < 512" "i2 < 512"
    using page_path_less [of _ "page_number va"] by (simp_all add: P)
  have root: "node_at ptr (tables m) root [] = Some root" using tree_invD(2) [OF conjunct2 [OF ok]] by auto
  have r3: "free m (Suc (k + 2))" using r by (simp add: eval_nat_numeral)
  obtain m1 b1 where s1: "descend m root i4 = Inr (m1, Inr b1)" "extends root m m1" "free m1 (k + 2)"
      "node_at ptr (tables m1) root ([] @ [i4]) = Some b1"
    by (rule descend_ok [OF ok r3 root, of i4 "[i3, i2, i1]"]) (use lt path P in simp_all)
  have f1: "open_path ptr (tables m1) root ([i4] @ i3 # [i2, i1])"
    using open_path_grown [of ptr root "tables m" "tables m1"] s1(2) path P by simp
  have r2: "free m1 (Suc (k + 1))" using s1(3) by simp
  obtain m2 b2 where s2: "descend m1 b1 i3 = Inr (m2, Inr b2)" "extends root m1 m2" "free m2 (k + 1)"
      "node_at ptr (tables m2) root ([i4] @ [i3]) = Some b2"
    by (rule descend_ok [OF extends_ok [OF s1(2)] r2 _ _ _ f1]) (use s1(4) lt in simp_all)
  have f2: "open_path ptr (tables m2) root ([i4, i3] @ i2 # [i1])"
    using open_path_grown [of ptr root "tables m1" "tables m2"] s2(2) f1 by simp
  have r1: "free m2 (Suc k)" using s2(3) by simp
  obtain m3 b3 where s3: "descend m2 b2 i2 = Inr (m3, Inr b3)" "extends root m2 m3" "free m3 k"
      "node_at ptr (tables m3) root ([i4, i3] @ [i2]) = Some b3"
    by (rule descend_ok [OF extends_ok [OF s2(2)] r1 _ _ _ f2]) (use s2(4) lt in simp_all)
  have i: "nth_level_table_index va 4 = Inr i4" "nth_level_table_index va 3 = Inr i3"
    "nth_level_table_index va 2 = Inr i2" using level_indices [of va] by (simp_all add: P)
  have "levels m root va [4, 3, 2] = Inr (m3, Inr b3)"
    by (simp only: levels_step [OF i(1) s1(1)] levels_step [OF i(2) s2(1)] levels_step [OF i(3) s3(1)] levels_done)
  moreover have "extends root m m3" using s1(2) s2(2) s3(2) grown_trans by metis
  ultimately show ?thesis using s3(3,4) that by (simp add: P numeral_3_eq_3)
qed

text \<open>One iteration: the page table of the current page is at hand or is fetched again.\<close>

lemma fetch_table:
  assumes ok: "ok m root" and n: "page_number va = n" and path: "open_path ptr (tables m) root (page_path n)"
    and node: "i = 0 \<or> n mod 512 \<noteq> 0 \<Longrightarrow> node_at ptr (tables m) root (take 3 (page_path n)) = Some node"
    and r: "free m (3 * (if n mod 512 = 0 then 1 else 0) + k)"
  obtains m1 b where
    "(if n mod 512 = 0 \<and> i \<noteq> 0 then levels m root va [4, 3, 2] else Inr (m, Inr node)) = Inr (m1, Inr b)"
    "extends root m m1" "free m1 k" "node_at ptr (tables m1) root (take 3 (page_path n)) = Some b"
proof (cases "n mod 512 = 0 \<and> i \<noteq> 0")
  case True
  then have "free m (k + 3)" using r by (simp add: add.commute)
  then obtain m1 b where "levels m root va [4, 3, 2] = Inr (m1, Inr b)" "extends root m m1" "free m1 k"
      "node_at ptr (tables m1) root (take 3 (page_path (page_number va))) = Some b"
    using levels_ok [OF ok] path n by metis
  with True n show ?thesis by (intro that [of m1 b]) simp_all
next
  case False
  then have "free m k" using free_le [OF r] by simp
  with False node ok show ?thesis by (intro that [of m node]) (auto intro: grown_refl)
qed

lemma page_loop_step:
  assumes ok: "ok m root" and idx: "(s + i) mod 512 = n mod 512" and va: "unat (virt_usize va) = 4096 * n"
    and bounds: "4096 * (n + 1) < 2 ^ 64" "page_ok (n + 1)" "4096 dvd unat pa" "unat pa + 4096 \<le> 2 ^ 63"
    and node: "i = 0 \<or> n mod 512 \<noteq> 0 \<Longrightarrow> node_at ptr (tables m) root (take 3 (page_path n)) = Some node"
    and path: "open_path ptr (tables m) root (page_path n)"
    and r: "free m (3 * (if n mod 512 = 0 then 1 else 0) + r)"
  obtains m2 b where
    "\<And>k. page_loop root attr s i (Suc k) m node va (PhysAddr pa) =
       page_loop root attr s (Suc i) k m2 b (VirtAddr (virt_usize va + 4096)) (PhysAddr (pa + 4096))"
    "inv m2" "rest m2 = rest m" "page_written ptr root (tables m) (tables m2) n pa attr" "free m2 r"
    "node_at ptr (tables m2) root (take 3 (page_path n)) = Some b"
proof -
  have pn: "page_number va = n" using va by (simp add: page_number_def)
  obtain m1 b where f: "(if n mod 512 = 0 \<and> i \<noteq> 0 then levels m root va [4, 3, 2] else Inr (m, Inr node)) =
        Inr (m1, Inr b)"
      "extends root m m1" "free m1 r" "node_at ptr (tables m1) root (take 3 (page_path n)) = Some b"
    by (rule fetch_table [OF ok pn path node r])
  have ok1: "ok m1 root" by (rule extends_ok [OF f(2)])
  have frame: "frame_addr (phys_usize (PhysAddr pa))" using bounds by (simp add: frame_addr_arith)
  define e where "e = leaf_entry (PhysAddr pa) attr"
  define m2 where "m2 = with_tables m1 (write_node (tables m1) b (n mod 512) e)"
  note w = write_leaf_4kib [OF conjunct2 [OF ok1] f(4), where e = e]
  obtain e0 where rw: "get m1 b (n mod 512) = Inr e0" "put m1 b (n mod 512) e = Inr m2"
    unfolding m2_def by (rule entry_at [OF ok1 f(4), of "n mod 512"]) simp_all
  have pa1: "add_chk (phys_usize (PhysAddr pa)) 4096 = Inr (pa + 4096)"
    using bounds(4) by (simp add: add_chk_ok)
  note step = page_step [of s i m root va node m1 b e0 "PhysAddr pa" attr m2, unfolded idx,
      OF f(1) rw(1) frame rw(2) [unfolded e_def] next_va [OF va bounds(1,2)] pa1]
  have "tables m2 = write_node (tables m1) b (n mod 512) e" "rest m2 = rest m" "inv m2" "free m2 r"
    using f(2,3) ok1 by (simp_all add: m2_def tables_with rest_with free_with inv_with)
  with step w f(2,4) show ?thesis
    by (intro that [of m2 b]) (simp_all add: page_written_def grown_def e_def)
qed

lemma page_loop_ok:
  assumes "ok m root" "(s + i) mod 512 = n mod 512" "unat (virt_usize va) = 4096 * n"
    and "4096 * (n + k) < 2 ^ 64" "k \<le> 2 ^ 36" "\<And>j. j < k \<Longrightarrow> page_ok (n + j + 1)"
    and "4096 dvd unat pa" "unat pa + 4096 * k \<le> 2 ^ 63"
    and "i = 0 \<or> n mod 512 \<noteq> 0 \<Longrightarrow> node_at ptr (tables m) root (take 3 (page_path n)) = Some node"
    and "\<And>j. j < k \<Longrightarrow> open_path ptr (tables m) root (page_path (n + j))"
    and "free m (3 * rewalks n k + r)"
  shows "\<exists>m'. page_loop root attr s i k m node va (PhysAddr pa) = Inr (m', Inr ()) \<and> inv m' \<and> rest m' = rest m \<and>
    maps_pages ptr root (tables m) (tables m') n k pa attr \<and> free m' r"
  using assms
proof (induction k arbitrary: i m node va pa n)
  case 0
  then show ?case by (simp add: maps_pages_def page_done)
next
  case (Suc k)
  have path: "open_path ptr (tables m) root (page_path n)" using Suc.prems(10) [of 0] by simp
  have rm: "free m (3 * (if n mod 512 = 0 then 1 else 0) + (3 * rewalks (Suc n) k + r))"
    using Suc.prems(11) by (simp add: algebra_simps)
  have b: "4096 * (n + 1) < 2 ^ 64" "page_ok (n + 1)" "unat pa + 4096 \<le> 2 ^ 63"
    using Suc.prems(4,8) Suc.prems(6) [of 0] by simp_all
  obtain m2 b where s: "\<And>k. page_loop root attr s i (Suc k) m node va (PhysAddr pa) =
       page_loop root attr s (Suc i) k m2 b (VirtAddr (virt_usize va + 4096)) (PhysAddr (pa + 4096))"
      "inv m2" "rest m2 = rest m" "page_written ptr root (tables m) (tables m2) n pa attr"
      "free m2 (3 * rewalks (Suc n) k + r)" "node_at ptr (tables m2) root (take 3 (page_path n)) = Some b"
    using page_loop_step [OF Suc.prems(1-3) b(1,2) Suc.prems(7) b(3) Suc.prems(9) path rm] by blast
  have ok2: "ok m2 root" using s(2,4) by (simp add: page_written_def)
  have "\<exists>m'. page_loop root attr s (Suc i) k m2 b (VirtAddr (virt_usize va + 4096)) (PhysAddr (pa + 4096)) =
        Inr (m', Inr ()) \<and> inv m' \<and> rest m' = rest m2 \<and>
      maps_pages ptr root (tables m2) (tables m') (Suc n) k (pa + 4096) attr \<and> free m' r"
  proof (rule Suc.IH [OF ok2])
    show "(s + Suc i) mod 512 = Suc n mod 512"
      using Suc.prems(2) by (metis add_Suc_right mod_Suc_eq)
    show "unat (virt_usize (VirtAddr (virt_usize va + 4096))) = 4096 * Suc n"
      using Suc.prems(3,4) by (simp add: unat_add_no_wrap)
    show "4096 * (Suc n + k) < 2 ^ 64" "k \<le> 2 ^ 36" using Suc.prems(4,5) by simp_all
    show "page_ok (Suc n + j + 1)" if "j < k" for j using Suc.prems(6) [of "Suc j"] that by simp
    show "4096 dvd unat (pa + 4096)" "unat (pa + 4096) + 4096 * k \<le> 2 ^ 63"
      using Suc.prems(7,8) by (simp_all add: unat_add_no_wrap)
    show "node_at ptr (tables m2) root (take 3 (page_path (Suc n))) = Some b" if "Suc i = 0 \<or> Suc n mod 512 \<noteq> 0"
    proof -
      have "Suc n div 512 = n div 512" using that by (simp add: div_Suc mod_Suc split: if_splits)
      from page_path_upper [OF this] s(6) show ?thesis by simp
    qed
    show "open_path ptr (tables m2) root (page_path (Suc n + j))" if "j < k" for j
    proof -
      have "page_path (Suc n + j) \<noteq> page_path n"
        using page_path_distinct [of n "Suc n + j"] Suc.prems(5) that by simp
      then show ?thesis using Suc.prems(10) [of "Suc j"] that s(4)
        by (simp add: open_path_def page_written_def)
    qed
    show "free m2 (3 * rewalks (Suc n) k + r)" by (rule s(5))
  qed
  with maps_pages_cons [OF s(4) _ Suc.prems(5)] s(1,3) show ?case by auto
qed

lemma gib_loop_ok:
  assumes "ok m root" "node_at ptr (tables m) root [i4] = Some b"
    "i3 + i + k \<le> 512" "2 ^ 30 dvd unat phys" "unat phys + 2 ^ 30 * (i + k) \<le> 2 ^ 63" "free m r"
  shows "\<exists>m'. gib_loop b i3 (PhysAddr phys) ReadWriteKernel1GiB i k m = Inr (m', Inr ()) \<and> inv m' \<and>
    rest m' = rest m \<and> maps_gib ptr root (tables m) (tables m') i4 i3 i (i + k) phys \<and> free m' r"
  using assms
proof (induction k arbitrary: i m)
  case 0
  then show ?case by (simp add: maps_gib_def gib_done)
next
  case (Suc k)
  note ok = Suc.prems(1)
  have "unat phys + 2 ^ 30 * Suc i \<le> 2 ^ 63" using Suc.prems(5) by simp
  note fr = gib_frame [OF Suc.prems(4) this]
  have i: "i3 + i < 512" using Suc.prems(3) by simp
  define m1 where "m1 = with_tables m (write_node (tables m) b (i3 + i) (gib_entry phys i))"
  note w = write_leaf_1gib [OF conjunct2 [OF ok] Suc.prems(2) i fr(1)]
  have t1: "tables m1 = write_node (tables m) b (i3 + i) (gib_entry phys i)" "rest m1 = rest m" "inv m1" "free m1 r"
    using ok Suc.prems(6) by (simp_all add: m1_def tables_with rest_with free_with inv_with)
  have ok1: "ok m1 root" using w(1) t1 by (simp add: maps_gib_def)
  obtain e0 where rw: "get m b (i3 + i) = Inr e0" "put m b (i3 + i) (gib_entry phys i) = Inr m1"
    unfolding m1_def by (rule entry_at [OF ok Suc.prems(2) i]) simp_all
  have step: "gib_loop b i3 (PhysAddr phys) ReadWriteKernel1GiB i (Suc k) m =
      gib_loop b i3 (PhysAddr phys) ReadWriteKernel1GiB (Suc i) k m1"
    by (rule gib_step [OF rw(1) fr(2) _ fr(1) rw(2)]) (simp only: PhysAddr.sel fr(3))
  have "\<exists>m'. gib_loop b i3 (PhysAddr phys) ReadWriteKernel1GiB (Suc i) k m1 = Inr (m', Inr ()) \<and> inv m' \<and>
      rest m' = rest m1 \<and> maps_gib ptr root (tables m1) (tables m') i4 i3 (Suc i) (Suc i + k) phys \<and> free m' r"
    using Suc.prems(3-5) w(2) t1 by (intro Suc.IH [OF ok1]) simp_all
  then obtain m' where m': "gib_loop b i3 (PhysAddr phys) ReadWriteKernel1GiB (Suc i) k m1 = Inr (m', Inr ())"
      "inv m'" "rest m' = rest m1"
      "maps_gib ptr root (tables m1) (tables m') i4 i3 (Suc i) (Suc i + k) phys" "free m' r" by blast
  have "maps_gib ptr root (tables m) (tables m') i4 i3 i (Suc i + k) phys"
    by (rule maps_gib_trans [OF w(1) [folded t1(1)] m'(4)]) simp_all
  with step m' t1(2) show ?case by auto
qed

text \<open>\<open>map\<close> refines the two operations on address spaces.\<close>

lemma map_pages_refines:
  assumes ok: "ok m root" and va: "4096 dvd unat va" "unat va + 4096 * k < 2 ^ 64" "k \<le> 2 ^ 36"
    "\<And>j. j < k \<Longrightarrow> page_ok (unat va div 4096 + j + 1)"
    and pa: "4096 dvd unat pa" "unat pa + 4096 * k \<le> 2 ^ 63"
    and small: "\<not> (attr = ReadWriteKernel1GiB \<and> 2 ^ 30 dvd unat va \<and> 2 ^ 30 dvd unat pa \<and> 2 ^ 18 dvd k)"
    and path: "\<And>j. j < max k 1 \<Longrightarrow> open_path ptr (tables m) root (page_path (unat va div 4096 + j))"
    and r: "free m (3 * (k div 512) + 6 + r)"
  shows "\<exists>m'. map_pages m root (VirtAddr va) (PhysAddr pa) k attr = Inr (m', Inr ()) \<and> ok m' root \<and>
    rest m' = rest m \<and> free m' r \<and>
    space ptr (tables m') root = map_spec (space ptr (tables m) root) (unat va div 4096) k pa attr"
proof -
  let ?n = "unat va div 4096"
  have pn: "page_number (VirtAddr va) = ?n" by (simp add: page_number_def)
  have r1: "free m ((3 * rewalks ?n k + r) + 3)"
    using rewalks_bound [of ?n k] by (intro free_le [OF r]) simp
  have p0: "open_path ptr (tables m) root (page_path (page_number (VirtAddr va)))" using path [of 0] pn by simp
  obtain m1 b where w: "levels m root (VirtAddr va) [4, 3, 2] = Inr (m1, Inr b)" "extends root m m1"
      "free m1 (3 * rewalks ?n k + r)" "node_at ptr (tables m1) root (take 3 (page_path ?n)) = Some b"
    using levels_ok [OF ok r1 p0] unfolding pn by blast
  have path1: "open_path ptr (tables m1) root (page_path (?n + j))" if "j < k" for j
    using open_path_grown [of ptr root "tables m" "tables m1"] w(2) path that by simp
  have n: "4096 * ?n = unat va" using va(1) by simp
  obtain m' where m': "page_loop root attr (?n mod 512) 0 k m1 b (VirtAddr va) (PhysAddr pa) = Inr (m', Inr ())"
      "inv m'" "rest m' = rest m1" "maps_pages ptr root (tables m1) (tables m') ?n k pa attr" "free m' r"
    using page_loop_ok [OF extends_ok [OF w(2)], of "?n mod 512" 0 ?n "VirtAddr va" k pa b r attr]
      n va(2-4) pa w(3,4) path1 by (auto simp: distrib_left)
  have idx: "pt_index (VirtAddr va) = Inr (?n mod 512)"
    by (simp add: pt_index_def level_indices pn page_path_def)
  have m: "maps_pages ptr root (tables m) (tables m') ?n k pa attr"
    using m'(4) w(2) by (simp add: maps_pages_def grown_def)
  then have "ok m' root" using m'(2) by (simp add: maps_pages_def)
  with map_4kib [OF va(1) pa(1) small w(1) idx] m' w(2) maps_pages_space [OF m va(3)] show ?thesis by simp
qed

lemma map_gib_refines:
  assumes ok: "ok m root" and top: "top_ok (tables m) root" and va: "unat va = 2 ^ 30 * N"
    and fit: "N mod 512 + g \<le> 512" and pa: "2 ^ 30 dvd unat pa" "unat pa + 2 ^ 30 * g \<le> 2 ^ 63"
    and r: "free m (Suc r)"
  shows "\<exists>m'. map_pages m root (VirtAddr va) (PhysAddr pa) (2 ^ 18 * g) ReadWriteKernel1GiB = Inr (m', Inr ()) \<and>
    ok m' root \<and> rest m' = rest m \<and> free m' r \<and>
    space ptr (tables m') root = map_gib_spec (space ptr (tables m) root) (2 ^ 18 * N) g pa"
proof -
  let ?i4 = "N div 512 mod 512" and ?i3 = "N mod 512"
  have d: "unat va div 2 ^ 30 mod 512 = ?i3" "unat va div 2 ^ 39 mod 512 = ?i4" "2 ^ 30 dvd unat va"
    using div_mult2_eq [of "unat va" "2 ^ 30" 512] va by simp_all
  obtain m1 b where w: "descend m root ?i4 = Inr (m1, Inr b)" "extends root m m1" "free m1 r"
      "node_at ptr (tables m1) root [?i4] = Some b"
    by (rule descend_root [OF ok top r, of ?i4]) simp_all
  obtain m' where m': "gib_loop b ?i3 (PhysAddr pa) ReadWriteKernel1GiB 0 g m1 = Inr (m', Inr ())" "inv m'"
      "rest m' = rest m1" "maps_gib ptr root (tables m1) (tables m') ?i4 ?i3 0 g pa" "free m' r"
    using gib_loop_ok [OF extends_ok [OF w(2)] w(4), of ?i3 0 g pa r] fit pa w(3) by auto
  have idx: "pml4_index (VirtAddr va) = Inr ?i4" "pdpt_index (VirtAddr va) = Inr ?i3"
    unfolding d(1,2) [symmetric] by (simp_all add: pml4_index_def pdpt_index_def nth_level_table_index_div)
  have "(4096 :: nat) dvd 2 ^ 30" by simp
  then have al: "4096 dvd unat va" "4096 dvd unat pa" using d(3) pa(1) dvd_trans by blast+
  have m: "maps_gib ptr root (tables m) (tables m') ?i4 ?i3 0 g pa"
    using m'(4) w(2) by (simp add: maps_gib_def grown_def)
  then have "ok m' root" using m'(2) by (simp add: maps_gib_def)
  with map_1gib [OF al d(3) pa(1) idx w(1)] m' w(2) maps_gib_space [OF m fit] show ?thesis by simp
qed

lemma create_refines:
  assumes ok: "ok m root" and va: "4096 dvd unat va" "unat va + unat sz + 4096 \<le> 2 ^ 64" "unat sz \<le> 2 ^ 48"
    "\<And>j. j < pages sz \<Longrightarrow> page_ok (unat va div 4096 + j + 1)"
    and pa: "4096 dvd unat pa" "unat pa + unat sz + 4096 \<le> 2 ^ 63" and attr: "attr \<noteq> ReadWriteKernel1GiB"
    and path: "\<And>j. j < max (pages sz) 1 \<Longrightarrow> open_path ptr (tables m) root (page_path (unat va div 4096 + j))"
    and r: "free m (3 * (pages sz div 512) + 6 + r)"
  shows "\<exists>m'. create m root (VirtAddr va) (PhysAddr pa) (MSize sz) attr = Inr (m', Inr ()) \<and> ok m' root \<and>
    rest m' = rest m \<and> free m' r \<and>
    space ptr (tables m') root = map_spec (space ptr (tables m) root) (unat va div 4096) (pages sz) pa attr"
proof -
  have "unat va + 4096 * pages sz < 2 ^ 64" "pages sz \<le> 2 ^ 36" "unat pa + 4096 * pages sz \<le> 2 ^ 63"
    using va(2,3) pa(2) pages_bounds [of sz] by simp_all
  from map_pages_refines [OF ok va(1) this(1,2) va(4) pa(1) this(3) _ path r] attr show ?thesis
    unfolding create_pages by blast
qed

end

section \<open>Permissions of a mapped range\<close>

text \<open>What \<open>create_refines\<close> means address by address.\<close>

lemma map_spec_translates:
  assumes va: "4096 dvd unat va" "unat sz \<le> 2 ^ 48" and pa: "4096 dvd unat pa" "unat pa + unat sz + 4096 \<le> 2 ^ 63"
    and attr: "attr \<noteq> NotPresent" "attr \<noteq> ReadWriteKernel1GiB"
    and x: "unat va \<le> unat x" "unat x < unat va + unat sz"
  shows "\<exists>e. translate_in (map_spec A (unat va div 4096) (pages sz) pa attr) x = Some (pa + (x - va), e) \<and> \<not> user e \<and>
    (writable e \<longleftrightarrow> attr \<in> {ReadWriteExecuteKernel, ReadWriteKernel, ReadWriteKernelIO}) \<and>
    (no_exec e \<longleftrightarrow> attr \<in> {ReadKernel, ReadWriteKernel, ReadWriteKernelIO})"
proof -
  note pb = pages_bounds [of sz]
  have k: "pages sz \<le> 2 ^ 36" "unat pa + 4096 * pages sz \<le> 2 ^ 63" "unat x < unat va + 4096 * pages sz"
    using va(2) pa(2) pb x(2) by simp_all
  from translate_page_in [OF va(1) pa(1) k(2,1) attr(1) x(1) k(3), of A]
  show ?thesis using attr(2) by (metis insert_iff)
qed

end
