(* ===== verification/Paging_Correct.thy ===== *)
theory Paging_Correct
  imports Paging Table_Walk
begin

text \<open>
  Correctness of the kernel's paging code.  The kernel's table memory, heap included, satisfies
  the laws of \<open>table_memory\<close>, and \<open>map\<close> and \<open>create_mapping\<close> take the steps of \<open>page_mapper\<close>, so
  that the interpretation \<open>kpages\<close> gives their correctness: creating intermediate tables never
  changes a translation, \<open>map\<close> installs exactly the requested pages and leaves every other
  translation alone, and it returns whenever the heap has room for the tables it needs.
\<close>

section \<open>The invariant of the kernel's table memory\<close>

text \<open>Where the kernel finds the node an entry points to (\<open>phys_to_virt\<close> of its address).\<close>

definition kptr :: "PageTableEntry \<Rightarrow> usize" where
  "kptr e = phys_usize (pte_paddr e) + 0xFFFF888000000000"

abbreviation knode_at :: "kmem \<Rightarrow> usize \<Rightarrow> nat list \<Rightarrow> usize option" where
  "knode_at m \<equiv> node_at kptr (nodes m)"

abbreviation unblocked :: "kmem \<Rightarrow> usize \<Rightarrow> nat list \<Rightarrow> bool" where
  "unblocked m \<equiv> open_path kptr (nodes m)"

abbreviation pml4_ok :: "kmem \<Rightarrow> usize \<Rightarrow> bool" where
  "pml4_ok m \<equiv> top_ok (nodes m)"

abbreviation klookup :: "kmem \<Rightarrow> usize \<Rightarrow> nat list \<Rightarrow> (nat \<times> PageTableEntry) option" where
  "klookup m \<equiv> lookup kptr (nodes m)"

text \<open>
  The heap lies in the linear window, and every table node is a page-aligned block that the
  heap has already handed out.
\<close>

definition kmem_inv :: "kmem \<Rightarrow> bool" where
  "kmem_inv m \<longleftrightarrow>
     heap_ready 4096 (heap m) \<and> 0xFFFF888000000000 \<le> la_start (heap m) \<and>
     la_end (heap m) \<le> 0xFFFF890000000000 \<and>
     (\<forall>a \<in> dom (nodes m). la_start (heap m) \<le> a \<and> unat a + 4096 \<le> unat (la_next (heap m)) \<and>
        4096 dvd unat a)"

text \<open>Room for \<open>k\<close> more nodes.\<close>

definition room :: "kmem \<Rightarrow> nat \<Rightarrow> bool" where
  "room m k \<longleftrightarrow> align_up_nat 4096 (unat (la_next (heap m))) + 4096 * k \<le> unat (la_end (heap m))"

lemma room_mono: "room m k \<Longrightarrow> j \<le> k \<Longrightarrow> room m j"
  by (auto simp: room_def)

lemma small_node_layout: "small_layout 4096 node_layout"
  by (simp add: small_layout_def valid_layout_def node_layout_def is_power_of_two_def)

lemma box_zeroed_node_ok:
  assumes inv: "kmem_inv m" and r: "room m (Suc k)"
  obtains m' p where "box_zeroed_node m = Inr (m', p)" "p \<notin> dom (nodes m)"
    "nodes m' = (nodes m)(p \<mapsto> zeroed_node)" "kmem_inv m'" "room m' k" "cr3 m' = cr3 m"
proof -
  let ?h = "heap m"
  have ready: "heap_ready 4096 ?h" using inv by (simp add: kmem_inv_def)
  have fit: "fits ?h node_layout"
    using r by (simp add: fits_def block_start_def room_def node_layout_def)
  obtain h p where h: "alloc ?h node_layout = Inr (h, p)" "unat p = block_start ?h node_layout"
      "unat (la_next h) = unat p + unat (layout_size node_layout)" "la_start h = la_start ?h"
      "la_end h = la_end ?h" "heap_ready 4096 h" "0 < unat p"
    using alloc_block [OF ready _ _ fit] small_node_layout unfolding small_layout_def by blast
  have pn: "unat p = align_up_nat 4096 (unat (la_next ?h))" "unat (la_next h) = unat p + 4096"
    using h(2,3) by (simp_all add: block_start_def node_layout_def)
  have ge: "unat (la_next ?h) \<le> unat p"
    unfolding pn(1) by (rule align_up_nat_ge) simp
  have p_dvd: "4096 dvd unat p" unfolding pn(1) by (rule align_up_nat_dvd)
  have p_start: "la_start ?h \<le> p"
    using ready ge by (simp add: heap_ready_def heap_inv_def word_le_nat_alt)
  let ?m = "m\<lparr>heap := h, nodes := (nodes m)(p \<mapsto> zeroed_node)\<rparr>"
  have "box_zeroed_node m = Inr (?m, p)"
    using h(1,7) by (auto simp: box_zeroed_node_def)
  moreover have "p \<notin> dom (nodes m)"
    using inv ge by (force simp: kmem_inv_def)
  moreover have "kmem_inv ?m"
    using inv h(4-6) pn ge p_dvd p_start by (force simp: kmem_inv_def)
  moreover have "room ?m k"
  proof -
    have "4096 dvd unat (la_next h)" using p_dvd pn(2) by simp
    then have "align_up_nat 4096 (unat (la_next h)) = unat p + 4096"
      using pn(2) by (simp add: align_up_nat_id)
    then show ?thesis using r pn h(5) by (simp add: room_def)
  qed
  ultimately show ?thesis by (intro that [of ?m p]) simp_all
qed

text \<open>A node address and the entry that points to it.\<close>

lemma node_addr_window:
  assumes "kmem_inv m" "a \<in> dom (nodes m)"
  shows "0xFFFF888000000000 \<le> unat a" "unat a < 0xFFFF890000000000" "4096 dvd unat a"
proof -
  from assms have "la_start (heap m) \<le> a" "unat a + 4096 \<le> unat (la_next (heap m))" "4096 dvd unat a"
    and h: "0xFFFF888000000000 \<le> la_start (heap m)" "la_next (heap m) \<le> la_end (heap m)"
      "la_end (heap m) \<le> 0xFFFF890000000000"
    by (auto simp: kmem_inv_def heap_ready_def heap_inv_def)
  then show "0xFFFF888000000000 \<le> unat a" "unat a < 0xFFFF890000000000" "4096 dvd unat a"
    by (simp_all add: word_le_nat_alt)
qed

lemma kptr_phys_to_virt:
  assumes "0xFFFF888000000000 \<le> unat (kptr e)" "unat (kptr e) < 0xFFFF890000000000"
  shows "phys_to_virt (pte_paddr e) = Inr (VirtAddr (kptr e))"
proof -
  have "phys_usize (pte_paddr e) = kptr e - 0xFFFF888000000000" by (simp add: kptr_def)
  then have "unat (phys_usize (pte_paddr e)) = unat (kptr e) - 0xFFFF888000000000"
    using assms(1) by (simp add: unat_sub word_le_nat_alt)
  with assms(2) have "unat (phys_usize (pte_paddr e)) < 0x778000000000" by simp
  then show ?thesis by (simp add: phys_to_virt_ok kptr_def)
qed

lemma table_entry_of_node:
  assumes "0xFFFF888000000000 \<le> unat p" "unat p < 0xFFFF890000000000" "4096 dvd unat p"
  defines "v \<equiv> \<lparr>pte_value = (p - 0xFFFF888000000000) OR attr_u64 ReadWriteExecuteKernel\<rparr>"
  shows "virt_to_phys (VirtAddr p) = Inr (PhysAddr (p - 0xFFFF888000000000))"
    "kptr v = p" "table_entry v"
proof -
  let ?f = "p - 0xFFFF888000000000"
  show "virt_to_phys (VirtAddr p) = Inr (PhysAddr ?f)"
    using assms(1,2) by (subst virt_to_phys_linear) (simp_all add: word_le_nat_alt)
  have f: "unat ?f = unat p - 0xFFFF888000000000"
    using assms(1) by (simp add: unat_sub word_le_nat_alt)
  have "4096 dvd unat ?f" unfolding f using assms(3) by (simp add: dvd_diff_nat)
  moreover have "unat ?f < 2 ^ 63" using f assms(2) by simp
  ultimately have frame: "frame_addr ?f" by (rule frame_addr_arith)
  have v: "v = leaf_entry (PhysAddr ?f) ReadWriteExecuteKernel"
    by (simp add: v_def leaf_entry_def)
  show "kptr v = p" using leaf_entry_paddr [of "PhysAddr ?f"] frame by (simp add: kptr_def v)
  show "table_entry v"
    using leaf_entry_flags(1,4) [of "PhysAddr ?f" ReadWriteExecuteKernel] frame
    by (simp add: table_entry_def v)
qed

section \<open>The laws of a table memory\<close>

lemma read_entry_ok: "nodes m a = Some n \<Longrightarrow> i < length (entries n) \<Longrightarrow> read_entry m a i = Inr (entries n ! i)"
  by (simp add: read_entry_def)

lemma write_entry_ok:
  "nodes m a = Some n \<Longrightarrow> i < length (entries n) \<Longrightarrow>
     write_entry m a i e = Inr (m\<lparr>nodes := write_node (nodes m) a i e\<rparr>)"
  by (simp add: write_entry_def)

lemma next_node_mut_ok:
  assumes "kmem_inv m" "kptr e \<in> dom (nodes m)" "present e"
  shows "next_node_mut e = Inr (Some (kptr e))"
  using assms kptr_phys_to_virt [OF node_addr_window(1,2) [OF assms(1,2)]]
  by (simp add: next_node_mut_def)

lemma get_or_alloc_present:
  assumes "kmem_inv m" "nodes m a = Some n" "i < length (entries n)" "present (entries n ! i)"
    "kptr (entries n ! i) \<in> dom (nodes m)"
  shows "get_or_alloc_next_level_table m a i = Inr (m, Inr (kptr (entries n ! i)))"
  using assms next_node_mut_ok [OF assms(1,5,4)]
  by (simp add: get_or_alloc_next_level_table_def read_entry_ok)

lemma get_or_alloc_absent:
  assumes inv: "kmem_inv m" and r: "room m (Suc k)"
    and n: "nodes m a = Some n" "i < length (entries n)" "\<not> present (entries n ! i)"
  shows "\<exists>m' v. get_or_alloc_next_level_table m a i = Inr (m', Inr (kptr v)) \<and> kptr v \<notin> dom (nodes m) \<and>
    table_entry v \<and> nodes m' = hang kptr (nodes m) a i v \<and> kmem_inv m' \<and> room m' k \<and> cr3 m' = cr3 m"
proof -
  obtain m1 b where box: "box_zeroed_node m = Inr (m1, b)" "b \<notin> dom (nodes m)"
      "nodes m1 = (nodes m)(b \<mapsto> zeroed_node)" "kmem_inv m1" "room m1 k" "cr3 m1 = cr3 m"
    using inv r by (rule box_zeroed_node_ok)
  define v where "v = \<lparr>pte_value = (b - 0xFFFF888000000000) OR attr_u64 ReadWriteExecuteKernel\<rparr>"
  have b: "b \<in> dom (nodes m1)" by (simp add: box(3))
  note v = table_entry_of_node [OF node_addr_window [OF box(4) b], folded v_def]
  let ?m = "m1\<lparr>nodes := write_node (nodes m1) a i v\<rparr>"
  have hang: "nodes ?m = hang kptr (nodes m) a i v" by (simp add: hang_def v(2) box(3))
  have "a \<noteq> b" using n(1) box(2) by blast
  then have n1: "nodes m1 a = Some n" using n(1) by (simp add: box(3))
  have inv': "kmem_inv ?m" using box(4) by (simp add: kmem_inv_def)
  have wr: "nodes ?m a = Some (n\<lparr>entries := (entries n)[i := v]\<rparr>)"
    using n1 by (simp add: write_node_def)
  have "present v" using v(3) by (simp add: table_entry_def)
  then have nxt: "next_node_mut v = Inr (Some b)"
    using next_node_mut_ok [OF inv', of v] v(2) b by simp
  have alloc: "alloc_next_level_table m (entries n ! i) = Inr (m1, v, Inr ())"
    using n(3) by (cases "entries n ! i") (simp add: alloc_next_level_table_def box(1) v(1) v_def)
  have "get_or_alloc_next_level_table m a i = Inr (?m, Inr (kptr v))"
    using n n1 wr alloc nxt v(2)
    by (simp add: get_or_alloc_next_level_table_def read_entry_def write_entry_def)
  moreover have "room ?m k" using box(5) by (simp add: room_def)
  ultimately show ?thesis using hang inv' box(2,6) v(2,3) by (intro exI [of _ ?m] exI [of _ v]) simp
qed

section \<open>The steps of the loops\<close>

lemma map_1gib_step:
  assumes "read_entry m b (i3 + i) = Inr e" "mul_chk (of_nat i) (2 ^ 30) = Inr off"
    "add_chk (phys_usize phys) off = Inr pa" "frame_addr pa"
    "write_entry m b (i3 + i) (leaf_entry (PhysAddr pa) attr) = Inr m1"
  shows "map_1gib b i3 phys attr i (Suc k) m = map_1gib b i3 phys attr (Suc i) k m1"
proof -
  have "set_entry e (PhysAddr pa) attr = (leaf_entry (PhysAddr pa) attr, Inr ())"
    using assms(4) by (simp add: set_entry_ok)
  then show ?thesis by (simp only: map_1gib.simps assms bind_out_Inr prod.case sum.case)
qed

lemma virt_add_page:
  "unat (virt_usize va) = 4096 * n \<Longrightarrow> 4096 * (n + 1) < 2 ^ 64 \<Longrightarrow>
     virt_add va PAGE_SIZE = Inr (VirtAddr (virt_usize va + 4096))"
  by (simp add: virt_add_def PAGE_SIZE_def add_chk_ok)

lemma map_4kib_step:
  assumes "(if (s + i) mod 512 = 0 \<and> i \<noteq> 0 then map_levels m root va [4, 3, 2] else Inr (m, Inr node)) =
      Inr (m1, Inr b)"
    "read_entry m1 b ((s + i) mod 512) = Inr e" "frame_addr (phys_usize pa)"
    "write_entry m1 b ((s + i) mod 512) (leaf_entry pa attr) = Inr m2"
    "virt_add va PAGE_SIZE = Inr va1" "add_chk (phys_usize pa) 4096 = Inr pa1"
  shows "map_4kib root attr s i (Suc k) m node va pa = map_4kib root attr s (Suc i) k m2 b va1 (PhysAddr pa1)"
proof -
  have "set_entry e pa attr = (leaf_entry pa attr, Inr ())" using assms(3) by (rule set_entry_ok)
  moreover have "phys_add pa PAGE_SIZE = Inr (PhysAddr pa1)"
    using assms(6) by (simp add: phys_add_def PAGE_SIZE_def)
  ultimately show ?thesis by (simp only: map_4kib.simps Let_def assms(1,2,4,5) bind_out_Inr prod.case sum.case)
qed

lemma unat_numeral_4096: "unat (4096 :: usize) = 4096"
  by simp

lemma map_range_4kib_path:
  assumes "4096 dvd unat va" "4096 dvd unat pa"
    and "\<not> (attr = ReadWriteKernel1GiB \<and> 2 ^ 30 dvd unat va \<and> 2 ^ 30 dvd unat pa \<and> 2 ^ 18 dvd k)"
  shows "map_range m root (VirtAddr va) (PhysAddr pa) k attr =
    bind_out (map_levels m root (VirtAddr va) [4, 3, 2]) (\<lambda>(m1, r).
      case r of Inl err \<Rightarrow> Inr (m1, Inl err)
      | Inr node \<Rightarrow> bind_out (pt_index (VirtAddr va)) (\<lambda>start_index.
          map_4kib root attr start_index 0 k m1 node (VirtAddr va) (PhysAddr pa)))"
  using assms(1,2) unfolding map_range_def dvd_eq_mod_eq_0 [symmetric] PAGE_SIZE_def
  by (simp only: VirtAddr.sel PhysAddr.sel MSize.sel assms(3) if_False rust_assert_def if_True
      bind_out_Inr unat_numeral_4096)

lemma map_range_1gib_path:
  assumes "4096 dvd unat va" "4096 dvd unat pa" "2 ^ 30 dvd unat va" "2 ^ 30 dvd unat pa"
  shows "map_range m root (VirtAddr va) (PhysAddr pa) (2 ^ 18 * g) ReadWriteKernel1GiB =
    bind_out (pml4_index (VirtAddr va)) (\<lambda>i4.
    bind_out (pdpt_index (VirtAddr va)) (\<lambda>i3.
    bind_out (get_or_alloc_next_level_table m root i4) (\<lambda>(m1, r).
      case r of Inl err \<Rightarrow> Inr (m1, Inl err)
      | Inr pdpt \<Rightarrow> map_1gib pdpt i3 (PhysAddr pa) ReadWriteKernel1GiB 0 g m1)))"
proof -
  have d: "2 ^ 18 * g div 2 ^ 18 = g" "2 ^ 18 dvd 2 ^ 18 * g" by simp_all
  show ?thesis
    using assms unfolding map_range_def dvd_eq_mod_eq_0 [symmetric] PAGE_SIZE_def
    by (simp only: VirtAddr.sel PhysAddr.sel MSize.sel d simp_thms if_True rust_assert_def
        bind_out_Inr unat_numeral_4096)
qed

lemma create_mapping_pages:
  "create_mapping m root va pa (MSize sz) attr = map_range m root va pa (pages sz) attr"
  by (simp add: create_mapping_def PAGE_SIZE_def)

lemma map_levels_step:
  "nth_level_table_index va l = Inr i \<Longrightarrow> get_or_alloc_next_level_table m node i = Inr (m1, Inr b) \<Longrightarrow>
     map_levels m node va (l # ls) = map_levels m1 b va ls"
  by simp

lemma map_range_4kib_steps:
  "\<lbrakk>4096 dvd unat va; 4096 dvd unat pa;
    \<not> (attr = ReadWriteKernel1GiB \<and> 2 ^ 30 dvd unat va \<and> 2 ^ 30 dvd unat pa \<and> 2 ^ 18 dvd k);
    map_levels m root (VirtAddr va) [4, 3, 2] = Inr (m1, Inr b); pt_index (VirtAddr va) = Inr s\<rbrakk> \<Longrightarrow>
   map_range m root (VirtAddr va) (PhysAddr pa) k attr = map_4kib root attr s 0 k m1 b (VirtAddr va) (PhysAddr pa)"
  by (subst map_range_4kib_path, assumption+) (simp only: bind_out_Inr prod.case sum.case)

lemma map_range_1gib_steps:
  "\<lbrakk>4096 dvd unat va; 4096 dvd unat pa; 2 ^ 30 dvd unat va; 2 ^ 30 dvd unat pa;
    pml4_index (VirtAddr va) = Inr i4; pdpt_index (VirtAddr va) = Inr i3;
    get_or_alloc_next_level_table m root i4 = Inr (m1, Inr b)\<rbrakk> \<Longrightarrow>
   map_range m root (VirtAddr va) (PhysAddr pa) (2 ^ 18 * g) ReadWriteKernel1GiB =
     map_1gib b i3 (PhysAddr pa) ReadWriteKernel1GiB 0 g m1"
  by (subst map_range_1gib_path, assumption+) (simp only: bind_out_Inr prod.case sum.case)

interpretation kpages: page_mapper nodes "\<lambda>m M. m\<lparr>nodes := M\<rparr>" kptr kmem_inv room cr3 read_entry write_entry
  get_or_alloc_next_level_table "\<lambda>va. virt_add va PAGE_SIZE" "\<lambda>_. True" map_levels map_1gib map_4kib map_range
  create_mapping
  by unfold_locales
    ((rule read_entry_ok write_entry_ok get_or_alloc_present get_or_alloc_absent virt_add_page room_mono map_levels_step
        map_1gib_step map_4kib_step map_range_4kib_steps map_range_1gib_steps create_mapping_pages; assumption) |
      simp add: kmem_inv_def room_def)+

text \<open>The facts in the vocabulary of the kernel.\<close>

lemma map_levels_ok:
  assumes "kmem_inv m" "tree_inv kptr (nodes m) root" "room m (k + 3)"
    "unblocked m root (page_path (page_number va))"
  obtains m' b where "map_levels m root va [4, 3, 2] = Inr (m', Inr b)"
    "tree_inv kptr (nodes m') root" "knode_at m' root (take 3 (page_path (page_number va))) = Some b"
  using kpages.levels_ok [of m root k va] kpages.extends_ok assms by metis

lemma get_or_alloc_root:
  assumes "kmem_inv m" "tree_inv kptr (nodes m) root" "pml4_ok m root" "room m (Suc k)" "i < 512"
  obtains m' b where "get_or_alloc_next_level_table m root i = Inr (m', Inr b)"
    "tree_inv kptr (nodes m') root" "knode_at m' root [i] = Some b"
  using kpages.descend_root [of m root k i] kpages.extends_ok assms by metis

end
