(* ===== verification/Kernel_Space.thy ===== *)
theory Kernel_Space
  imports Address_Space
begin

text \<open>
  The kernel address space: the 1 GiB mappings, the ways \<open>map\<close> panics, \<open>duplicate_kernel\<close>,
  and what \<open>init_paging\<close> of \<open>kernel/src/paging.rs\<close> builds.  \<open>linked\<close> states what the linker
  script \<open>kernel.ld\<close> promises about the section bounds.
\<close>

section \<open>1 GiB mappings\<close>



section \<open>Where map panics\<close>

lemma map_1gib_past_end:
  assumes "nodes m b = Some n" "length (entries n) = 512" "i3 + i \<le> 512" "512 < i3 + i + k"
    "2 ^ 30 dvd unat phys" "unat phys + 2 ^ 30 * (i + k) \<le> 2 ^ 63"
  shows "map_1gib b i3 (PhysAddr phys) attr i k m = Inl Index_out_of_bounds"
  using assms
proof (induction k arbitrary: i m n)
  case 0
  then show ?case by simp
next
  case (Suc k)
  show ?case
  proof (cases "i3 + i = 512")
    case True
    then show ?thesis using Suc.prems(1,2) by (simp add: read_entry_def)
  next
    case False
    have "unat phys + 2 ^ 30 * Suc i \<le> 2 ^ 63" using Suc.prems(6) by simp
    note fr = gib_frame [OF Suc.prems(5) this]
    let ?n = "n\<lparr>entries := (entries n)[i3 + i := leaf_entry (PhysAddr (phys + of_nat i * 2 ^ 30)) attr]\<rparr>"
    have "map_1gib b i3 (PhysAddr phys) attr (Suc i) k (m\<lparr>nodes := (nodes m)(b \<mapsto> ?n)\<rparr>) = Inl Index_out_of_bounds"
      by (rule Suc.IH [where n = ?n]) (use Suc.prems False in simp_all)
    then show ?thesis
      using Suc.prems False fr by (simp add: read_entry_def write_entry_def write_node_def set_entry_ok)
  qed
qed

text \<open>
  C32: a 1 GiB mapping that runs past entry 511 of its directory panics on the array index,
  although the addresses continue in the next PML4 entry; the code never returns an error
  for it and never maps the rest.
\<close>

theorem create_mapping_1gib_past_directory:
  assumes inv: "kmem_inv m" "tree_inv kptr (nodes m) root" "pml4_ok m root"
    and va: "unat va = 2 ^ 30 * N" and sz: "unat sz = 2 ^ 30 * g" and past: "512 < N mod 512 + g"
    and pa: "2 ^ 30 dvd unat pa" "unat pa + unat sz \<le> 2 ^ 63" and r: "room m 1"
  shows "create_mapping m root (VirtAddr va) (PhysAddr pa) (MSize sz) ReadWriteKernel1GiB =
    Inl Index_out_of_bounds"
proof -
  let ?i4 = "unat va div 2 ^ 39 mod 512"
  have i3: "unat va div 2 ^ 30 mod 512 = N mod 512" using va by simp
  have r1: "room m (Suc 0)" using r by simp
  obtain m1 b where w: "get_or_alloc_next_level_table m root ?i4 = Inr (m1, Inr b)"
      "tree_inv kptr (nodes m1) root" "knode_at m1 root [?i4] = Some b"
    by (rule get_or_alloc_root [OF inv r1, of ?i4]) simp_all
  obtain nb where nb: "nodes m1 b = Some nb" "length (entries nb) = 512"
    using node_at_dom [OF w(3)] tree_invD(1) [OF w(2)] by blast
  have loop: "map_1gib b (N mod 512) (PhysAddr pa) ReadWriteKernel1GiB 0 g m1 = Inl Index_out_of_bounds"
    using past pa sz by (intro map_1gib_past_end [OF nb]) simp_all
  have idx: "pml4_index (VirtAddr va) = Inr ?i4" "pdpt_index (VirtAddr va) = Inr (N mod 512)"
    unfolding i3 [symmetric] by (simp_all add: pml4_index_def pdpt_index_def nth_level_table_index_div)
  have d: "2 ^ 30 dvd unat va" using va by simp
  have "(4096 :: nat) dvd 2 ^ 30" by simp
  then have al: "4096 dvd unat va" "4096 dvd unat pa" using d pa(1) dvd_trans by blast+
  show ?thesis
    unfolding create_mapping_pages pages_gib [OF sz] map_range_1gib_path [OF al d pa(1)] idx
    using w(1) loop by (simp only: bind_out_Inr prod.case sum.case)
qed

theorem create_mapping_1gib_past_directory_witness:
  "create_mapping example_mem 0xFFFF888001000000 (VirtAddr 0x7FC0000000) (PhysAddr 0) (MSize 0x80000000)
     ReadWriteKernel1GiB = Inl Index_out_of_bounds"
  by (rule create_mapping_1gib_past_directory [OF example_mem_ok(1-3), of _ 511 _ 2])
    (simp_all add: example_mem_ok(5))

text \<open>
  Mapping the topmost page of the address space panics: the entry is written, but the loop
  then advances the virtual address past \<open>2\<^sup>6\<^sup>4\<close> although no page is left to map.
\<close>

lemma create_mapping_top_page:
  assumes inv: "kmem_inv m" "tree_inv kptr (nodes m) root" and sz: "0 < unat sz" "unat sz \<le> 4096"
    and pa: "4096 dvd unat pa" "unat pa + 4096 \<le> 2 ^ 63"
    and free: "unblocked m root (page_path (2 ^ 52 - 1))" and r: "room m 3"
  shows "create_mapping m root (VirtAddr 0xFFFFFFFFFFFFF000) (PhysAddr pa) (MSize sz) attr = Inl Arith_overflow"
proof -
  let ?va = "VirtAddr 0xFFFFFFFFFFFFF000"
  have pn: "page_number ?va = 2 ^ 52 - 1" by (simp add: page_number_def)
  have "pages sz \<le> 1" "0 < pages sz" using pages_bounds [of sz] sz by simp_all
  then have one: "pages sz = Suc 0" by simp
  have r3: "room m (0 + 3)" using r by simp
  obtain m1 b where w: "map_levels m root ?va [4, 3, 2] = Inr (m1, Inr b)" "tree_inv kptr (nodes m1) root"
      "knode_at m1 root (take 3 (page_path (2 ^ 52 - 1))) = Some b"
    using map_levels_ok [OF inv r3, of ?va] free unfolding pn by blast
  obtain nb where nb: "nodes m1 b = Some nb" "length (entries nb) = 512"
    using node_at_dom [OF w(3)] tree_invD(1) [OF w(2)] by blast
  have idx: "pt_index ?va = Inr 511" by (simp add: pt_index_def level_indices pn page_path_def)
  have frame: "frame_addr pa" using pa by (intro frame_addr_arith) simp_all
  have ovf: "virt_add ?va PAGE_SIZE = Inl Arith_overflow"
    by (simp add: virt_add_def PAGE_SIZE_def add_chk_def)
  have "\<not> (attr = ReadWriteKernel1GiB \<and> 2 ^ 30 dvd unat (0xFFFFFFFFFFFFF000 :: usize) \<and>
      2 ^ 30 dvd unat pa \<and> 2 ^ 18 dvd Suc 0)" "4096 dvd unat (0xFFFFFFFFFFFFF000 :: usize)" by simp_all
  note path = map_range_4kib_path [OF this(2) pa(1) this(1)]
  show ?thesis
    unfolding create_mapping_pages one path w(1) idx using nb frame ovf
    by (simp add: read_entry_def write_entry_def set_entry_ok)
qed

section \<open>duplicate\_kernel\<close>

definition copied :: "PageTableNode \<Rightarrow> nat set \<Rightarrow> PageTableNode \<Rightarrow> PageTableNode" where
  "copied n I z = \<lparr>entries = map (\<lambda>i. if i \<in> I \<and> present (entries n ! i) then entries n ! i
     else entries z ! i) [0..<512]\<rparr>"

lemma copied_step:
  assumes "length (entries z) = 512" "i < 512" "present (entries n ! i)"
  shows "copied n I \<lparr>entries = (entries z)[i := entries n ! i]\<rparr> = copied n (insert i I) z"
  using assms by (auto simp: copied_def nth_list_update)

lemma copied_skip: "\<not> present (entries n ! i) \<Longrightarrow> copied n (insert i I) z = copied n I z"
  by (auto simp: copied_def)

lemma copied_none: "length (entries z) = 512 \<Longrightarrow> copied n {} z = z"
  using map_nth [of "entries z"] by (simp add: copied_def)

lemma copy_present_ok:
  assumes "self \<noteq> new" "nodes m self = Some n" "length (entries n) = 512" "nodes m new = Some z"
    "length (entries z) = 512" "\<forall>i \<in> set is. i < 512"
  shows "copy_present self new is m = Inr (m\<lparr>nodes := (nodes m)(new \<mapsto> copied n (set is) z)\<rparr>)"
  using assms
proof (induction "is" arbitrary: m z)
  case Nil
  then show ?case by (simp only: list.set(1) copied_none copy_present.simps) (simp add: fun_upd_idem)
next
  case (Cons i "is")
  then have i: "i < 512" "read_entry m self i = Inr (entries n ! i)" by (simp_all add: read_entry_ok)
  show ?case
  proof (cases "present (entries n ! i)")
    case True
    let ?z = "\<lparr>entries = (entries z)[i := entries n ! i]\<rparr>"
    let ?m = "m\<lparr>nodes := (nodes m)(new \<mapsto> ?z)\<rparr>"
    have w: "write_entry m new i (entries n ! i) = Inr ?m"
      using Cons.prems(4,5) i(1) by (cases z) (simp add: write_entry_def write_node_def)
    have "copy_present self new is ?m = Inr (?m\<lparr>nodes := (nodes ?m)(new \<mapsto> copied n (set is) ?z)\<rparr>)"
      by (rule Cons.IH) (use Cons.prems in simp_all)
    then have "copy_present self new is ?m = Inr (m\<lparr>nodes := (nodes m)(new \<mapsto> copied n (set (i # is)) z)\<rparr>)"
      using copied_step [OF Cons.prems(5) i(1) True, of "set is"] by simp
    then show ?thesis using True by (simp only: copy_present.simps i(2) w bind_out_Inr flag_reads if_True)
  next
    case False
    then show ?thesis
      using Cons.IH [OF Cons.prems(1-5)] Cons.prems(6) i copied_skip [OF False, of "set is" z] by simp
  qed
qed

lemma copied_fresh:
  "length (entries n) = 512 \<Longrightarrow> same_entries n (copied n (set [0..<512]) zeroed_node)"
  by (auto simp: same_entries_def copied_def)

lemma duplicate_kernel_ok:
  assumes inv: "kmem_inv m" "tree_inv kptr (nodes m) self" and r: "room m (Suc j)"
  obtains m' new c where "duplicate_kernel m self = Inr (m', new)" "new \<notin> dom (nodes m)"
    "nodes m' = (nodes m)(new \<mapsto> c)" "length (entries c) = 512" "kmem_inv m'" "room m' j" "cr3 m' = cr3 m"
    "tree_inv kptr (nodes m') new" "tree_inv kptr (nodes m') self"
    "aspace m' new = aspace m self" "aspace m' self = aspace m self"
proof -
  obtain n where n: "nodes m self = Some n" using tree_invD(2) [OF inv(2)] by blast
  obtain m1 new where b: "box_zeroed_node m = Inr (m1, new)" "new \<notin> dom (nodes m)"
    "nodes m1 = (nodes m)(new \<mapsto> zeroed_node)" "kmem_inv m1" "cr3 m1 = cr3 m" "room m1 j"
    using box_zeroed_node_ok [OF inv(1) r] by blast
  have ns: "self \<noteq> new" using n b(2) by blast
  define c where "c = copied n (set [0..<512]) zeroed_node"
  define m' where "m' = m1\<lparr>nodes := (nodes m)(new \<mapsto> c)\<rparr>"
  have "copy_present self new [0..<512] m1 = Inr m'"
    using copy_present_ok [OF ns, of m1 n zeroed_node "[0..<512]"] n ns b(3) tree_invD(1) [OF inv(2) n]
    by (simp add: m'_def c_def)
  then have "duplicate_kernel m self = Inr (m', new)" by (simp add: duplicate_kernel_def b(1))
  moreover have "kmem_inv m'" using b(3,4) by (simp add: kmem_inv_def m'_def)
  moreover have "length (entries c) = 512" by (simp add: c_def copied_def)
  moreover note second_root [OF inv(2) n b(2) copied_fresh [OF tree_invD(1) [OF inv(2) n]], folded c_def]
  ultimately show ?thesis using b(2,5,6) by (intro that [of m' new c]) (simp_all add: m'_def space_def room_def)
qed

text \<open>
  C9: \<open>duplicate_kernel\<close> returns a new table with exactly the translations of the old one.
  The old table keeps its translations and both trees are well-formed.
\<close>

theorem duplicate_kernel_refines:
  assumes inv: "kmem_inv m" "tree_inv kptr (nodes m) self" and r: "room m 1"
  shows "\<exists>m' new. duplicate_kernel m self = Inr (m', new) \<and> new \<notin> dom (nodes m) \<and>
    aspace m' new = aspace m self \<and> aspace m' self = aspace m self \<and>
    kmem_inv m' \<and> tree_inv kptr (nodes m') new \<and> tree_inv kptr (nodes m') self"
  using duplicate_kernel_ok [OF inv, of 0] r by (metis One_nat_def)

theorem duplicate_kernel_refines_witness:
  "\<exists>m' new. duplicate_kernel example_mem 0xFFFF888001000000 = Inr (m', new) \<and>
    aspace m' new = aspace example_mem 0xFFFF888001000000"
  using duplicate_kernel_refines [OF example_mem_ok(1,2)] example_mem_ok(5) [of 1] by auto

end
