(* ===== verification/Kernel_Init.thy ===== *)
theory Kernel_Init
  imports Kernel_Space
begin

text \<open>
  The address space that \<open>init_paging\<close> of \<open>kernel/src/paging.rs\<close> builds and loads into
  \<open>CR3\<close>.  \<open>linked\<close> states what the linker script \<open>kernel.ld\<close> promises about the section
  bounds; \<open>region_of\<close> is the memory map of the kernel, \<open>kernel_space\<close> the address space that
  the five calls of \<open>create_mapping\<close> compose.
\<close>

section \<open>The memory map\<close>

datatype region = Linear | Text | Rodata | Data | Apic | Unmapped

text \<open>The pages of a section: whole pages from its start.\<close>

definition in_section :: "VirtAddr \<Rightarrow> VirtAddr \<Rightarrow> usize \<Rightarrow> bool" where
  "in_section a b x \<longleftrightarrow> unat (virt_usize a) \<le> unat x \<and>
     unat x < unat (virt_usize a) + 4096 * pages (virt_usize b - virt_usize a)"

definition region_of :: "symbols \<Rightarrow> usize \<Rightarrow> region" where
  "region_of s x =
     (if in_section (sym_text s) (sym_text_end s) x then Text
      else if in_section (sym_rodata s) (sym_rodata_end s) x then Rodata
      else if in_section (sym_data s) (sym_bss_end s) x then Data
      else if 0xFFFF888000000000 \<le> unat x \<and> unat x < 0xFFFF890000000000 then Linear
      else if 0xFEE00000 \<le> unat x \<and> unat x < 0xFEE01000 then Apic
      else Unmapped)"

definition region_paddr :: "region \<Rightarrow> usize \<Rightarrow> usize" where
  "region_paddr r x = (case r of Linear \<Rightarrow> x - 0xFFFF888000000000 | Apic \<Rightarrow> x | _ \<Rightarrow> x - 0xFFFFFFFF80000000)"

definition section_bounds :: "VirtAddr \<Rightarrow> VirtAddr \<Rightarrow> bool" where
  "section_bounds a b \<longleftrightarrow> 4096 dvd unat (virt_usize a) \<and> 0xFFFFFFFF80000000 \<le> virt_usize a \<and> a \<le> b \<and>
     unat (virt_usize b) + 4096 \<le> 2 ^ 64"

definition linked :: "symbols \<Rightarrow> bool" where
  "linked s \<longleftrightarrow> section_bounds (sym_text s) (sym_text_end s) \<and> section_bounds (sym_rodata s) (sym_rodata_end s) \<and>
     section_bounds (sym_data s) (sym_bss_end s) \<and> sym_text_end s \<le> sym_rodata s \<and> sym_rodata_end s \<le> sym_data s"

definition kernel_space :: "symbols \<Rightarrow> address_space" where
  "kernel_space s =
     (let sect = (\<lambda>A a b attr. map_spec A (unat (virt_usize a) div 4096) (pages (virt_usize b - virt_usize a))
                   (virt_usize a - 0xFFFFFFFF80000000) attr);
          A1 = map_gib_spec (\<lambda>_. None) (0xFFFF888000000000 div 4096) 512 0;
          A2 = sect A1 (sym_text s) (sym_text_end s) ReadExecuteKernel;
          A3 = sect A2 (sym_rodata s) (sym_rodata_end s) ReadKernel;
          A4 = sect A3 (sym_data s) (sym_bss_end s) ReadWriteKernel
      in map_spec A4 (0xFEE00000 div 4096) 1 0xFEE00000 ReadWriteKernelIO)"

section \<open>Sections\<close>

lemma section_size:
  assumes "section_bounds (VirtAddr a) (VirtAddr b)"
  shows "unat (b - a) = unat b - unat a" "unat a \<le> unat b" "0xFFFFFFFF80000000 \<le> unat a"
    "unat a + 4096 * pages (b - a) < 2 ^ 64" "pages (b - a) \<le> 2 ^ 19" "4096 dvd unat a"
    "unat (a - 0xFFFFFFFF80000000) = unat a - 0xFFFFFFFF80000000"
proof -
  show a: "unat a \<le> unat b" "0xFFFFFFFF80000000 \<le> unat a" "4096 dvd unat a"
    using assms by (simp_all add: section_bounds_def word_le_nat_alt)
  show d: "unat (b - a) = unat b - unat a" using a(1) by (simp add: unat_sub word_le_nat_alt)
  have e: "unat b + 4096 \<le> 2 ^ 64" using assms by (simp add: section_bounds_def)
  show l: "unat a + 4096 * pages (b - a) < 2 ^ 64" using pages_bounds(2) [of "b - a"] d a e by linarith
  show "pages (b - a) \<le> 2 ^ 19" using l a(2) by simp
  show "unat (a - 0xFFFFFFFF80000000) = unat a - 0xFFFFFFFF80000000"
    using a(2) by (simp add: unat_sub word_le_nat_alt)
qed

lemma section_frame:
  assumes "section_bounds (VirtAddr a) (VirtAddr b)"
  shows "4096 dvd unat (a - 0xFFFFFFFF80000000)"
    "unat (a - 0xFFFFFFFF80000000) + 4096 * pages (b - a) \<le> 2 ^ 63"
proof -
  note sec = section_size [OF assms]
  show "4096 dvd unat (a - 0xFFFFFFFF80000000)" unfolding sec(7) using sec(6) by (simp add: dvd_diff_nat)
  show "unat (a - 0xFFFFFFFF80000000) + 4096 * pages (b - a) \<le> 2 ^ 63"
    unfolding sec(7) using sec(3,4) by simp
qed

lemma map_section_ok:
  assumes inv: "kmem_inv m" "tree_inv kptr (nodes m) root" and sec: "section_bounds (VirtAddr a) (VirtAddr b)"
    and attr: "attr \<noteq> ReadWriteKernel1GiB"
    and free: "\<And>j. j < max (pages (b - a)) 1 \<Longrightarrow> unblocked m root (page_path (unat a div 4096 + j))"
    and r: "room m (3 * (pages (b - a) div 512) + 6 + r)"
  obtains m' where "map_section m root (VirtAddr a) (VirtAddr b) attr = Inr m'"
    "kmem_inv m'" "tree_inv kptr (nodes m') root" "cr3 m' = cr3 m" "room m' r"
    "aspace m' root = map_spec (aspace m root) (unat a div 4096) (pages (b - a)) (a - 0xFFFFFFFF80000000) attr"
proof -
  note ss = section_size [OF sec] and fr = section_frame [OF sec]
  have k: "pages (b - a) \<le> 2 ^ 36" using ss(5) by simp
  obtain m' where m': "map_range m root (VirtAddr a) (PhysAddr (a - 0xFFFFFFFF80000000)) (pages (b - a)) attr = Inr (m', Inr ())"
    "kmem_inv m'" "tree_inv kptr (nodes m') root" "cr3 m' = cr3 m" "room m' r"
    "aspace m' root = map_spec (aspace m root) (unat a div 4096) (pages (b - a)) (a - 0xFFFFFFFF80000000) attr"
    using map_range_refines [OF inv ss(6) ss(4) k fr _ free r] attr by blast
  have "virt_to_phys (VirtAddr a) = Inr (PhysAddr (a - 0xFFFFFFFF80000000))"
    using virt_to_phys_kernel [of "VirtAddr a"] ss(3) by (simp add: word_le_nat_alt)
  moreover have "from_address virt_usize (VirtAddr a) (VirtAddr b) = Inr (MSize (b - a))"
    using ss(2) by (simp add: from_address_def sub_chk_ok word_le_nat_alt)
  ultimately have "map_section m root (VirtAddr a) (VirtAddr b) attr = Inr m'"
    using m'(1) by (simp add: map_section_def create_mapping_pages)
  then show ?thesis using m' that by blast
qed

lemma section_pages_canonical:
  assumes "section_bounds (VirtAddr a) (VirtAddr b)" "j \<le> pages (b - a)"
  shows "canonical_page (unat a div 4096 + j)"
proof -
  note ss = section_size [OF assms(1)]
  have "4096 * (unat a div 4096) = unat a" using ss(6) by simp
  then have "4096 * (unat a div 4096 + j) < 2 ^ 64" "0xFFFFFFFF80000000 \<le> 4096 * (unat a div 4096)"
    using ss(3,4) assms(2) by (simp_all add: distrib_left)
  then show ?thesis by (simp add: canonical_page_def)
qed

text \<open>Where a section does and does not change an address space, for a canonical address.\<close>

lemma section_hit:
  assumes sec: "section_bounds (VirtAddr a) (VirtAddr b)" and x: "canonical x"
  shows "page_off (unat a div 4096) (unat x div 4096) < pages (b - a) \<longleftrightarrow> in_section (VirtAddr a) (VirtAddr b) x"
proof -
  note ss = section_size [OF sec]
  have "page_off (unat a div 4096) (unat x div 4096) < pages (b - a) \<longleftrightarrow>
      unat a div 4096 \<le> unat x div 4096 \<and> unat x div 4096 < unat a div 4096 + pages (b - a)"
    using page_off_canonical [OF canonical_page_of [OF x]] section_pages_canonical [OF sec] ss(5) by simp
  also have "\<dots> \<longleftrightarrow> in_section (VirtAddr a) (VirtAddr b) x"
    unfolding in_section_def VirtAddr.sel by (rule page_interval [OF ss(6)])
  finally show ?thesis .
qed

section \<open>init\_paging\<close>

abbreviation linear_space :: address_space where
  "linear_space \<equiv> map_gib_spec (\<lambda>_. None) (0xFFFF888000000000 div 4096) 512 0"

definition free_page :: "address_space \<Rightarrow> nat \<Rightarrow> bool" where
  "free_page A p \<longleftrightarrow> (\<forall>k e. A p = Some (k, e) \<longrightarrow> k = 0)"

lemma free_page_map: "free_page A p \<Longrightarrow> free_page (map_spec A n k pa attr) p"
  by (simp add: free_page_def map_spec_def leaf_view_def)

lemma free_page_linear: "canonical_page p \<Longrightarrow> p < 0xFFFF888000000 \<or> 0xFFFF890000000 \<le> p \<Longrightarrow> free_page linear_space p"
  unfolding free_page_def map_gib_spec_def using linear_hit [of p] by auto

lemma free_page_section:
  assumes "section_bounds (VirtAddr a) (VirtAddr b)" "j < max (pages (b - a)) 1"
  shows "free_page linear_space (unat a div 4096 + j)"
proof (rule free_page_linear)
  show "canonical_page (unat a div 4096 + j)" using section_pages_canonical assms by simp
  have "0xFFFFFFFF80000000 div 4096 \<le> unat a div 4096" using section_size(3) [OF assms(1)] by (rule div_le_mono)
  then show "unat a div 4096 + j < 0xFFFF888000000 \<or> 0xFFFF890000000 \<le> unat a div 4096 + j" by simp
qed

lemma map_section_free:
  assumes inv: "kmem_inv m" "tree_inv kptr (nodes m) root" and sec: "section_bounds a b"
    and attr: "attr \<noteq> ReadWriteKernel1GiB"
    and free: "\<forall>p. free_page linear_space p \<longrightarrow> free_page (aspace m root) p"
    and r: "room m (3 * (pages (virt_usize b - virt_usize a) div 512) + 6 + r)"
  obtains m' where "map_section m root a b attr = Inr m'"
    "kmem_inv m'" "tree_inv kptr (nodes m') root" "room m' r"
    "aspace m' root = map_spec (aspace m root) (unat (virt_usize a) div 4096) (pages (virt_usize b - virt_usize a))
       (virt_usize a - 0xFFFFFFFF80000000) attr"
    "\<forall>p. free_page linear_space p \<longrightarrow> free_page (aspace m' root) p"
proof -
  obtain a' b' where ab: "a = VirtAddr a'" "b = VirtAddr b'" by (cases a; cases b)
  have unbl: "unblocked m root (page_path (unat a' div 4096 + j))" if "j < max (pages (b' - a')) 1" for j
  proof -
    have "free_page (aspace m root) (unat a' div 4096 + j)"
      using free free_page_section [OF sec [unfolded ab] that] by blast
    then show ?thesis unfolding open_path_space free_page_def .
  qed
  obtain m' where m': "map_section m root a b attr = Inr m'"
    "kmem_inv m'" "tree_inv kptr (nodes m') root" "room m' r"
    "aspace m' root = map_spec (aspace m root) (unat a' div 4096) (pages (b' - a')) (a' - 0xFFFFFFFF80000000) attr"
    using map_section_ok [OF inv sec [unfolded ab] attr unbl r [unfolded ab VirtAddr.sel]] unfolding ab by blast
  moreover have "\<forall>p. free_page linear_space p \<longrightarrow> free_page (aspace m' root) p"
    unfolding m'(5) using free free_page_map by blast
  ultimately show ?thesis using that by (simp add: ab)
qed

definition tables_needed :: "symbols \<Rightarrow> nat" where
  "tables_needed s =
     3 * (pages (virt_usize (sym_text_end s) - virt_usize (sym_text s)) div 512) +
     3 * (pages (virt_usize (sym_rodata_end s) - virt_usize (sym_rodata s)) div 512) +
     3 * (pages (virt_usize (sym_bss_end s) - virt_usize (sym_data s)) div 512) + 26"

lemma linear_mapping_ok:
  assumes "kmem_inv m" "tree_inv kptr (nodes m) root" "pml4_ok m root" "room m (Suc r)"
    and empty: "aspace m root = (\<lambda>_. None)"
  obtains m' where "create_mapping m root LINER_MAPPING_BASE_VADDR (PhysAddr 0) LINER_MAPPING_SIZE
      ReadWriteKernel1GiB = Inr (m', Inr ())"
    "kmem_inv m'" "tree_inv kptr (nodes m') root" "room m' r" "aspace m' root = linear_space"
proof -
  have va: "unat (0xFFFF888000000000 :: usize) = 2 ^ 30 * 0x3FFFE2200" by simp
  have sz: "unat (0x8000000000 :: usize) = 2 ^ 30 * 512" by simp
  obtain m' where m': "map_range m root (VirtAddr 0xFFFF888000000000) (PhysAddr 0) (2 ^ 18 * 512) ReadWriteKernel1GiB
      = Inr (m', Inr ())" "kmem_inv m'" "tree_inv kptr (nodes m') root" "room m' r"
    "aspace m' root = map_gib_spec (aspace m root) (2 ^ 18 * 0x3FFFE2200) 512 0"
    using map_range_gib_refines [OF assms(1-3) va, of 512 0 r] assms(4) by auto
  have "create_mapping m root LINER_MAPPING_BASE_VADDR (PhysAddr 0) LINER_MAPPING_SIZE ReadWriteKernel1GiB
      = Inr (m', Inr ())"
    unfolding layout_defs create_mapping_pages pages_gib [OF sz] by (rule m'(1))
  moreover have "aspace m' root = linear_space" using m'(5) by (simp add: empty)
  ultimately show ?thesis using m' that by blast
qed

lemma apic_mapping_ok:
  assumes "kmem_inv m" "tree_inv kptr (nodes m) root" "room m (6 + r)"
    and free: "free_page (aspace m root) 0xFEE00"
  obtains m' where "create_mapping m root (VirtAddr APIC_IO_START_ADDR) (PhysAddr APIC_IO_START_ADDR) APIC_IO_SIZE
      ReadWriteKernelIO = Inr (m', Inr ())"
    "kmem_inv m'" "tree_inv kptr (nodes m') root" "room m' r"
    "aspace m' root = map_spec (aspace m root) (0xFEE00000 div 4096) 1 0xFEE00000 ReadWriteKernelIO"
proof -
  have one: "pages 0x1000 = 1" by (simp add: div_ceil_def)
  have "unblocked m root (page_path (unat (0xFEE00000 :: usize) div 4096 + j))" if "j < max 1 1" for j
    using free that by (simp add: open_path_space free_page_def)
  from map_range_refines [OF assms(1,2) _ _ _ _ _ _ this, where pa = "0xFEE00000" and attr = ReadWriteKernelIO and r = r and k = 1] assms(3)
  have "\<exists>m'. map_range m root (VirtAddr 0xFEE00000) (PhysAddr 0xFEE00000) 1 ReadWriteKernelIO = Inr (m', Inr ()) \<and>
    kmem_inv m' \<and> tree_inv kptr (nodes m') root \<and> room m' r \<and>
    aspace m' root = map_spec (aspace m root) (0xFEE00000 div 4096) 1 0xFEE00000 ReadWriteKernelIO"
    by auto
  then show ?thesis using that unfolding layout_defs create_mapping_pages one by blast
qed

lemma init_paging_room:
  assumes inv: "kmem_inv m" "\<forall>a n. nodes m a = Some n \<longrightarrow> length (entries n) = 512"
    and sec: "linked s" and r: "room m (tables_needed s + k)"
  shows "\<exists>m' root. init_paging m s = Inr (m', root) \<and> aspace m' root = kernel_space s \<and>
    VirtAddr root \<ge> LINER_MAPPING_BASE_VADDR \<and> cr3 m' = root - 0xFFFF888000000000 \<and>
    kmem_inv m' \<and> tree_inv kptr (nodes m') root \<and> room m' k"
proof -
  define t where "t = pages (virt_usize (sym_text_end s) - virt_usize (sym_text s)) div 512"
  define d where "d = pages (virt_usize (sym_rodata_end s) - virt_usize (sym_rodata s)) div 512"
  define w where "w = pages (virt_usize (sym_bss_end s) - virt_usize (sym_data s)) div 512"
  have sb: "section_bounds (sym_text s) (sym_text_end s)" "section_bounds (sym_rodata s) (sym_rodata_end s)"
    "section_bounds (sym_data s) (sym_bss_end s)" using sec by (simp_all add: linked_def)
  have len: "\<And>a n. nodes m a = Some n \<Longrightarrow> length (entries n) = 512" using inv(2) by blast
  have at: "ReadExecuteKernel \<noteq> ReadWriteKernel1GiB" "ReadKernel \<noteq> ReadWriteKernel1GiB"
    "ReadWriteKernel \<noteq> ReadWriteKernel1GiB" by simp_all
  have r0: "room m (Suc (Suc (3 * t + 6 + (3 * d + 6 + (3 * w + 6 + (6 + k))))))"
    by (rule room_mono [OF r]) (simp add: tables_needed_def t_def d_def w_def)
  obtain m0 root where m0: "box_zeroed_node m = Inr (m0, root)" "kmem_inv m0" "nodes m0 root = Some zeroed_node"
    "room m0 (Suc (3 * t + 6 + (3 * d + 6 + (3 * w + 6 + (6 + k)))))" "tree_inv kptr (nodes m0) root"
    "pml4_ok m0 root" "aspace m0 root = (\<lambda>_. None)"
    "virt_to_phys (VirtAddr root) = Inr (PhysAddr (root - 0xFFFF888000000000))"
    by (rule box_root [OF inv(1) len r0]) simp_all
  obtain m1 where m1: "create_mapping m0 root LINER_MAPPING_BASE_VADDR (PhysAddr 0) LINER_MAPPING_SIZE
      ReadWriteKernel1GiB = Inr (m1, Inr ())" "kmem_inv m1" "tree_inv kptr (nodes m1) root"
    "room m1 (3 * t + 6 + (3 * d + 6 + (3 * w + 6 + (6 + k))))" "aspace m1 root = linear_space"
    by (rule linear_mapping_ok [OF m0(2,5,6,4,7)])
  have f1: "\<forall>p. free_page linear_space p \<longrightarrow> free_page (aspace m1 root) p" using m1(5) by simp
  obtain m2 where m2: "map_section m1 root (sym_text s) (sym_text_end s) ReadExecuteKernel = Inr m2"
    "kmem_inv m2" "tree_inv kptr (nodes m2) root" "room m2 (3 * d + 6 + (3 * w + 6 + (6 + k)))"
    "aspace m2 root = map_spec (aspace m1 root) (unat (virt_usize (sym_text s)) div 4096)
       (pages (virt_usize (sym_text_end s) - virt_usize (sym_text s)))
       (virt_usize (sym_text s) - 0xFFFFFFFF80000000) ReadExecuteKernel"
    "\<forall>p. free_page linear_space p \<longrightarrow> free_page (aspace m2 root) p"
    by (rule map_section_free [OF m1(2,3) sb(1) at(1) f1 m1(4) [unfolded t_def]])
  obtain m3 where m3: "map_section m2 root (sym_rodata s) (sym_rodata_end s) ReadKernel = Inr m3"
    "kmem_inv m3" "tree_inv kptr (nodes m3) root" "room m3 (3 * w + 6 + (6 + k))"
    "aspace m3 root = map_spec (aspace m2 root) (unat (virt_usize (sym_rodata s)) div 4096)
       (pages (virt_usize (sym_rodata_end s) - virt_usize (sym_rodata s)))
       (virt_usize (sym_rodata s) - 0xFFFFFFFF80000000) ReadKernel"
    "\<forall>p. free_page linear_space p \<longrightarrow> free_page (aspace m3 root) p"
    by (rule map_section_free [OF m2(2,3) sb(2) at(2) m2(6) m2(4) [unfolded d_def]])
  obtain m4 where m4: "map_section m3 root (sym_data s) (sym_bss_end s) ReadWriteKernel = Inr m4"
    "kmem_inv m4" "tree_inv kptr (nodes m4) root" "room m4 (6 + k)"
    "aspace m4 root = map_spec (aspace m3 root) (unat (virt_usize (sym_data s)) div 4096)
       (pages (virt_usize (sym_bss_end s) - virt_usize (sym_data s)))
       (virt_usize (sym_data s) - 0xFFFFFFFF80000000) ReadWriteKernel"
    "\<forall>p. free_page linear_space p \<longrightarrow> free_page (aspace m4 root) p"
    by (rule map_section_free [OF m3(2,3) sb(3) at(3) m3(6) m3(4) [unfolded w_def]])
  have "free_page (aspace m4 root) 0xFEE00" 
    using m4(6) free_page_linear [of "0xFEE00"] by (simp add: canonical_page_def)
  then obtain m5 where m5: "create_mapping m4 root (VirtAddr APIC_IO_START_ADDR) (PhysAddr APIC_IO_START_ADDR)
      APIC_IO_SIZE ReadWriteKernelIO = Inr (m5, Inr ())" "kmem_inv m5" "tree_inv kptr (nodes m5) root" "room m5 k"
    "aspace m5 root = map_spec (aspace m4 root) (0xFEE00000 div 4096) 1 0xFEE00000 ReadWriteKernelIO"
    using apic_mapping_ok [OF m4(2,3,4)] by blast
  have "init_paging m s = Inr (write_cr3 m5 (PhysAddr (root - 0xFFFF888000000000)), root)"
    unfolding init_paging_def
    by (simp only: m0(1) m1(1) m2(1) m3(1) m4(1) m5(1) m0(8) bind_out_Inr prod.case unwrap_result_simps)
  moreover have "aspace m5 root = kernel_space s"
    unfolding kernel_space_def Let_def m5(5) m4(5) m3(5) m2(5) m1(5) ..
  moreover have "0xFFFF888000000000 \<le> unat root"
    using node_addr_window(1) [OF m0(2), of root] m0(3) by blast
  ultimately show ?thesis
    using m5(2,3,4) by (auto simp: write_cr3_def space_def kmem_inv_def room_def layout_defs word_le_nat_alt)
qed

lemma init_paging_ok:
  assumes "kmem_inv m" "\<forall>a n. nodes m a = Some n \<longrightarrow> length (entries n) = 512" "linked s" "room m (tables_needed s)"
  shows "\<exists>m' root. init_paging m s = Inr (m', root) \<and> aspace m' root = kernel_space s \<and>
    VirtAddr root \<ge> LINER_MAPPING_BASE_VADDR \<and> cr3 m' = root - 0xFFFF888000000000 \<and>
    kmem_inv m' \<and> tree_inv kptr (nodes m') root"
  using init_paging_room [OF assms(1-3), of 0] assms(4) by auto

section \<open>Translation in the kernel space\<close>

text \<open>The permissions of the pages with attribute \<open>attr\<close>, as \<open>leaf_entry_flags\<close> gives them.\<close>

definition grants :: "PageTableEntry \<Rightarrow> bool \<Rightarrow> bool \<Rightarrow> bool" where
  "grants e w nx \<longleftrightarrow> \<not> user e \<and> (writable e \<longleftrightarrow> w) \<and> (no_exec e \<longleftrightarrow> nx)"

lemma translate_section_in:
  assumes sec: "section_bounds a b" and x: "in_section a b x" and attr: "attr \<noteq> NotPresent" "attr \<noteq> ReadWriteKernel1GiB"
  shows "\<exists>e. translate_in (map_spec A (unat (virt_usize a) div 4096) (pages (virt_usize b - virt_usize a))
      (virt_usize a - 0xFFFFFFFF80000000) attr) x = Some (x - 0xFFFFFFFF80000000, e) \<and>
    grants e (attr \<in> {ReadWriteExecuteKernel, ReadWriteKernel, ReadWriteKernelIO})
      (attr \<in> {ReadKernel, ReadWriteKernel, ReadWriteKernelIO})"
proof -
  obtain a' b' where ab: "a = VirtAddr a'" "b = VirtAddr b'" by (cases a; cases b)
  note ss = section_size [OF sec [unfolded ab]] and fr = section_frame [OF sec [unfolded ab]]
  have k: "pages (b' - a') \<le> 2 ^ 36" using ss(5) by simp
  have xs: "unat a' \<le> unat x" "unat x < unat a' + 4096 * pages (b' - a')"
    using x unfolding in_section_def ab VirtAddr.sel by blast+
  obtain e where e: "translate_in (map_spec A (unat a' div 4096) (pages (b' - a')) (a' - 0xFFFFFFFF80000000) attr) x
      = Some (a' - 0xFFFFFFFF80000000 + (x - a'), e)"
    "writable e \<longleftrightarrow> attr \<in> {ReadWriteExecuteKernel, ReadWriteKernel, ReadWriteKernel1GiB, ReadWriteKernelIO}"
    "no_exec e \<longleftrightarrow> attr \<in> {ReadKernel, ReadWriteKernel, ReadWriteKernel1GiB, ReadWriteKernelIO}" "\<not> user e"
    by (rule translate_page_in [OF ss(6) fr k attr(1) xs])
  have "a' - 0xFFFFFFFF80000000 + (x - a') = x - 0xFFFFFFFF80000000" by simp
  with e(1) have "translate_in (map_spec A (unat a' div 4096) (pages (b' - a')) (a' - 0xFFFFFFFF80000000) attr) x
      = Some (x - 0xFFFFFFFF80000000, e)" by (simp only:)
  then show ?thesis using e(2-4) attr(2) unfolding ab VirtAddr.sel grants_def by blast
qed

lemma translate_section_out:
  assumes "section_bounds a b" "canonical x" "\<not> in_section a b x"
  shows "translate_in (map_spec A (unat (virt_usize a) div 4096) (pages (virt_usize b - virt_usize a)) pa attr) x
    = translate_in A x"
proof -
  obtain a' b' where ab: "a = VirtAddr a'" "b = VirtAddr b'" by (cases a; cases b)
  show ?thesis unfolding ab VirtAddr.sel
    by (rule translate_page_out) (use section_hit [OF assms(1) [unfolded ab] assms(2)] assms(3) ab in simp)
qed

lemma translate_linear:
  assumes x: "canonical x"
  shows "0xFFFF888000000000 \<le> unat x \<and> unat x < 0xFFFF890000000000 \<Longrightarrow>
      \<exists>e. translate_in linear_space x = Some (x - 0xFFFF888000000000, e) \<and> grants e True True"
    "\<not> (0xFFFF888000000000 \<le> unat x \<and> unat x < 0xFFFF890000000000) \<Longrightarrow> translate_in linear_space x = None"
proof -
  assume i: "0xFFFF888000000000 \<le> unat x \<and> unat x < 0xFFFF890000000000"
  have va: "unat (0xFFFF888000000000 :: usize) = 2 ^ 30 * 0x3FFFE2200" by simp
  from i show "\<exists>e. translate_in linear_space x = Some (x - 0xFFFF888000000000, e) \<and> grants e True True"
    using translate_gib_in [OF va, of 0 512 x "\<lambda>_. None"] by (auto simp: grants_def)
next
  assume o: "\<not> (0xFFFF888000000000 \<le> unat x \<and> unat x < 0xFFFF890000000000)"
  have "4096 dvd (0xFFFF888000000000 :: nat)" by simp
  from page_interval [OF this, of "unat x" "2 ^ 27"] o
  have "\<not> (0xFFFF888000000 \<le> unat x div 4096 \<and> unat x div 4096 < 0xFFFF890000000)" by simp
  then have "2 ^ 18 * 512 \<le> page_off (0xFFFF888000000000 div 4096) (unat x div 4096)"
    using linear_hit [OF canonical_page_of [OF x]] not_less by blast
  from translate_gib_out [OF this] show "translate_in linear_space x = None" by (simp add: translate_in_def)
qed

lemma translate_apic:
  assumes x: "canonical x"
  defines "A' \<equiv> \<lambda>A. map_spec A (0xFEE00000 div 4096) 1 0xFEE00000 ReadWriteKernelIO"
  shows "0xFEE00000 \<le> unat x \<and> unat x < 0xFEE01000 \<Longrightarrow> \<exists>e. translate_in (A' A) x = Some (x, e) \<and> grants e True True"
    "\<not> (0xFEE00000 \<le> unat x \<and> unat x < 0xFEE01000) \<Longrightarrow> translate_in (A' A) x = translate_in A x"
proof -
  assume i: "0xFEE00000 \<le> unat x \<and> unat x < 0xFEE01000"
  then show "\<exists>e. translate_in (A' A) x = Some (x, e) \<and> grants e True True"
    using translate_page_in [of "0xFEE00000" "0xFEE00000" 1 ReadWriteKernelIO x A]
    by (auto simp: grants_def A'_def)
next
  assume o: "\<not> (0xFEE00000 \<le> unat x \<and> unat x < 0xFEE01000)"
  have "4096 dvd (0xFEE00000 :: nat)" by simp
  from page_interval [OF this, of "unat x" 1] o
  have "\<not> (0xFEE00 \<le> unat x div 4096 \<and> unat x div 4096 < 0xFEE00 + 1)" by simp
  moreover have "page_off 0xFEE00 (unat x div 4096) < 1 \<longleftrightarrow> 0xFEE00 \<le> unat x div 4096 \<and> unat x div 4096 < 0xFEE00 + 1"
    by (rule page_off_canonical [OF canonical_page_of [OF x]]) (simp_all add: canonical_page_def)
  ultimately have "1 \<le> page_off 0xFEE00 (unat x div 4096)" using not_less by blast
  then show "translate_in (A' A) x = translate_in A x"
    unfolding A'_def by (intro translate_page_out) simp
qed

lemma section_disjoint:
  assumes "section_bounds a b" "section_bounds c d" "b \<le> c"
  shows "in_section a b x \<Longrightarrow> \<not> in_section c d x" "in_section c d x \<Longrightarrow> \<not> in_section a b x"
proof -
  obtain a' b' c' d' where ab: "a = VirtAddr a'" "b = VirtAddr b'" "c = VirtAddr c'" "d = VirtAddr d'"
    by (cases a; cases b; cases c; cases d)
  note s1 = section_size [OF assms(1) [unfolded ab]] and s2 = section_size [OF assms(2) [unfolded ab]]
  obtain u v where uv: "unat a' = 4096 * u" "unat c' = 4096 * v" using s1(6) s2(6) unfolding dvd_def by blast
  have "unat b' \<le> unat c'" using assms(3) ab by (simp add: word_le_nat_alt)
  then have "4096 * u + 4096 * pages (b' - a') < 4096 * v + 4096"
    using pages_bounds(2) [of "b' - a'"] s1(1,2) uv by linarith
  then have "u + pages (b' - a') < v + 1" by linarith
  then have "u + pages (b' - a') \<le> v" by simp
  then have "unat a' + 4096 * pages (b' - a') \<le> unat c'" using uv by linarith
  then show "in_section a b x \<Longrightarrow> \<not> in_section c d x" "in_section c d x \<Longrightarrow> \<not> in_section a b x"
    by (auto simp: in_section_def ab)
qed

lemma section_high: "section_bounds a b \<Longrightarrow> in_section a b x \<Longrightarrow> 0xFFFFFFFF80000000 \<le> unat x"
  by (auto simp: section_bounds_def in_section_def word_le_nat_alt)

lemma section_trans: "section_bounds a b \<Longrightarrow> section_bounds c d \<Longrightarrow> b \<le> c \<Longrightarrow> d \<le> e \<Longrightarrow> b \<le> e"
  by (auto simp: section_bounds_def)

lemma kernel_space_translate:
  assumes l: "linked s" and x: "canonical x"
  shows "region_of s x = Unmapped \<and> translate_in (kernel_space s) x = None \<or>
    region_of s x \<noteq> Unmapped \<and>
    (\<exists>e. translate_in (kernel_space s) x = Some (region_paddr (region_of s x) x, e) \<and>
      grants e (region_of s x \<in> {Linear, Data, Apic}) (region_of s x \<noteq> Text))"
proof -
  note sb = l [unfolded linked_def]
  have t: "section_bounds (sym_text s) (sym_text_end s)" and d: "section_bounds (sym_rodata s) (sym_rodata_end s)"
    and w: "section_bounds (sym_data s) (sym_bss_end s)" using sb by blast+
  have ord: "sym_text_end s \<le> sym_rodata s" "sym_rodata_end s \<le> sym_data s" using sb by blast+
  have tw: "sym_text_end s \<le> sym_data s" using section_trans [OF t d ord(1,2)] .
  note dis = section_disjoint [OF t d ord(1)] section_disjoint [OF d w ord(2)] section_disjoint [OF t w tw]
  have apic: "\<not> (0xFEE00000 \<le> unat x \<and> unat x < 0xFEE01000)" if "0xFFFF888000000000 \<le> unat x" using that by linarith
  note out = translate_section_out [OF t x] translate_section_out [OF d x] translate_section_out [OF w x]
  note eqs = kernel_space_def Let_def
  show ?thesis
  proof (cases "region_of s x")
    case Linear
    then have n: "\<not> in_section (sym_text s) (sym_text_end s) x" "\<not> in_section (sym_rodata s) (sym_rodata_end s) x"
      "\<not> in_section (sym_data s) (sym_bss_end s) x" and i: "0xFFFF888000000000 \<le> unat x \<and> unat x < 0xFFFF890000000000"
      by (simp_all add: region_of_def split: if_splits)
    have "translate_in (kernel_space s) x = translate_in linear_space x"
      unfolding eqs translate_apic(2) [OF x apic [OF conjunct1 [OF i]]] out(3) [OF n(3)] out(2) [OF n(2)] out(1) [OF n(1)] ..
    then show ?thesis using translate_linear(1) [OF x i] Linear by (simp add: region_paddr_def)
  next
    case Text
    then have i: "in_section (sym_text s) (sym_text_end s) x" by (simp add: region_of_def split: if_splits)
    have na: "\<not> (0xFEE00000 \<le> unat x \<and> unat x < 0xFEE01000)" using section_high [OF t i] by linarith
    from translate_section_in [OF t i, of ReadExecuteKernel linear_space] show ?thesis
      unfolding eqs translate_apic(2) [OF x na] out(3) [OF dis(5) [OF i]] out(2) [OF dis(1) [OF i]] Text
      by (simp add: region_paddr_def)
  next
    case Rodata
    then have i: "in_section (sym_rodata s) (sym_rodata_end s) x" by (simp add: region_of_def split: if_splits)
    have na: "\<not> (0xFEE00000 \<le> unat x \<and> unat x < 0xFEE01000)" using section_high [OF d i] by linarith
    from translate_section_in [OF d i, of ReadKernel] show ?thesis
      unfolding eqs translate_apic(2) [OF x na] out(3) [OF dis(3) [OF i]] Rodata by (simp add: region_paddr_def)
  next
    case Data
    then have i: "in_section (sym_data s) (sym_bss_end s) x" by (simp add: region_of_def split: if_splits)
    have na: "\<not> (0xFEE00000 \<le> unat x \<and> unat x < 0xFEE01000)" using section_high [OF w i] by linarith
    from translate_section_in [OF w i, of ReadWriteKernel] show ?thesis
      unfolding eqs translate_apic(2) [OF x na] Data by (simp add: region_paddr_def)
  next
    case Apic
    then have i: "0xFEE00000 \<le> unat x \<and> unat x < 0xFEE01000" by (simp add: region_of_def split: if_splits)
    show ?thesis using translate_apic(1) [OF x i] unfolding eqs Apic by (simp add: region_paddr_def)
  next
    case Unmapped
    then have n: "\<not> in_section (sym_text s) (sym_text_end s) x" "\<not> in_section (sym_rodata s) (sym_rodata_end s) x"
      "\<not> in_section (sym_data s) (sym_bss_end s) x"
      and na: "\<not> (0xFFFF888000000000 \<le> unat x \<and> unat x < 0xFFFF890000000000)"
        "\<not> (0xFEE00000 \<le> unat x \<and> unat x < 0xFEE01000)"
      by (simp_all add: region_of_def split: if_splits)
    have "translate_in (kernel_space s) x = None"
      unfolding eqs translate_apic(2) [OF x na(2)] out(3) [OF n(3)] out(2) [OF n(2)] out(1) [OF n(1)]
      by (rule translate_linear(2) [OF x na(1)])
    then show ?thesis using Unmapped by blast
  qed
qed

section \<open>What init\_paging guarantees\<close>

text \<open>
  C6: \<open>init_paging\<close> does not fail for a kernel linked as \<open>kernel.ld\<close> says and a heap with room
  for the tables, and it refines the abstract composition of its five mappings: the address
  space of the new root is \<open>kernel_space\<close>, \<open>CR3\<close> holds the physical address of that root, and
  the tables are well-formed.
\<close>

theorem init_paging_refines:
  assumes "kmem_inv m" "\<forall>a n. nodes m a = Some n \<longrightarrow> length (entries n) = 512" "linked s" "room m (tables_needed s)"
  shows "\<exists>m' root. init_paging m s = Inr (m', root) \<and> aspace m' root = kernel_space s \<and>
    virt_to_phys (VirtAddr root) = Inr (PhysAddr (cr3 m')) \<and> kmem_inv m' \<and> tree_inv kptr (nodes m') root"
proof -
  obtain m' root where m': "init_paging m s = Inr (m', root)" "aspace m' root = kernel_space s"
    "cr3 m' = root - 0xFFFF888000000000" "kmem_inv m'" "tree_inv kptr (nodes m') root"
    using init_paging_ok [OF assms] by blast
  have "virt_to_phys (VirtAddr root) = Inr (PhysAddr (root - 0xFFFF888000000000))"
    using node_addr_window [OF m'(4) tree_invD(2) [OF m'(5)]] by (rule table_entry_of_node(1))
  then show ?thesis using m' by auto
qed

text \<open>Section bounds of a small kernel image.\<close>

definition example_symbols :: symbols where
  "example_symbols =
     \<lparr>sym_text = VirtAddr 0xFFFFFFFF80100000, sym_text_end = VirtAddr 0xFFFFFFFF80110123,
      sym_rodata = VirtAddr 0xFFFFFFFF80111000, sym_rodata_end = VirtAddr 0xFFFFFFFF80112800,
      sym_data = VirtAddr 0xFFFFFFFF80113000, sym_bss_end = VirtAddr 0xFFFFFFFF80200000\<rparr>"

lemma example_symbols_linked: "linked example_symbols"
  by (simp add: linked_def example_symbols_def section_bounds_def)

lemma example_room: "room example_mem (tables_needed example_symbols)"
  by (rule example_mem_ok(5)) (simp add: tables_needed_def example_symbols_def div_ceil_def)

lemma example_nodes: "\<forall>a n. nodes example_mem a = Some n \<longrightarrow> length (entries n) = 512"
  by (simp add: example_mem_def)

theorem init_paging_refines_witness:
  "linked example_symbols \<and>
   (\<exists>m' root. init_paging example_mem example_symbols = Inr (m', root) \<and>
      aspace m' root = kernel_space example_symbols)"
  using init_paging_refines [OF example_mem_ok(1) example_nodes example_symbols_linked example_room]
    example_symbols_linked by blast



text \<open>
  C28: write xor execute.  No canonical address of the kernel address space is both writable
  and executable.
\<close>

theorem init_paging_write_xor_execute:
  assumes "kmem_inv m" "\<forall>a n. nodes m a = Some n \<longrightarrow> length (entries n) = 512" "linked s" "room m (tables_needed s)"
    and "init_paging m s = Inr (m', root)" "canonical x" "translate m' root x = Some (p, e)"
  shows "\<not> writable e \<or> no_exec e"
proof -
  have "aspace m' root = kernel_space s" using init_paging_ok [OF assms(1-4)] assms(5) by auto
  then show ?thesis using kernel_space_translate [OF assms(3,6)] assms(7) by (auto simp: grants_def)
qed

theorem init_paging_write_xor_execute_witness:
  "\<exists>m' root p e. init_paging example_mem example_symbols = Inr (m', root) \<and>
    translate m' root 0xFFFFFFFF80100004 = Some (p, e) \<and> (\<not> writable e \<or> no_exec e)"
proof -
  have r: "region_of example_symbols 0xFFFFFFFF80100004 = Text"
    by (simp add: region_of_def in_section_def example_symbols_def div_ceil_def)
  have c: "canonical 0xFFFFFFFF80100004" by (simp add: canonical_def)
  note pre = example_mem_ok(1) example_nodes example_symbols_linked example_room
  obtain m' root where m': "init_paging example_mem example_symbols = Inr (m', root)"
    "aspace m' root = kernel_space example_symbols" using init_paging_ok [OF pre] by blast
  moreover obtain p e where "translate m' root 0xFFFFFFFF80100004 = Some (p, e)"
    using kernel_space_translate [OF example_symbols_linked c] r m'(2) by auto
  ultimately show ?thesis using init_paging_write_xor_execute [OF pre m'(1) c] by blast
qed

end
