(* ===== verification/Spin.thy ===== *)
theory Spin
  imports Noctis_Prelude
begin

text \<open>
  The spin lock of the kernel (\<open>kernel/src/spin.rs\<close>).  First the lock as one thread of
  control sees it: \<open>lock\<close> spins until the flag is clear, takes it and disables interrupts,
  and dropping the guard clears the flag and enables interrupts.  On the single CPU that
  the kernel runs on nothing else can clear the flag while a lock is spinning with
  interrupts off, so spinning on a set flag is the fault \<open>Deadlock\<close>.

  Then the lock as an interleaving of many contenders, one rule per atomic access, for the
  mutual exclusion argument.
\<close>

section \<open>One thread of control\<close>

record 'a SpinLock =
  sl_locked :: bool
  sl_value :: 'a

definition spin_new :: "'a \<Rightarrow> 'a SpinLock" where
  "spin_new v = \<lparr>sl_locked = False, sl_value = v\<rparr>"

text \<open>\<open>iflag\<close> is the interrupt flag of the CPU: \<open>lock\<close> ends with \<open>cli\<close>.\<close>

definition spin_lock :: "bool \<Rightarrow> 'a SpinLock \<Rightarrow> (bool \<times> 'a SpinLock) outcome" where
  "spin_lock iflag l =
     (if sl_locked l then Inl Deadlock else Inr (False, l\<lparr>sl_locked := True\<rparr>))"

text \<open>\<open>Drop for SpinGuard\<close>: store \<open>false\<close>, then \<open>sti\<close>, whatever the flag was before.\<close>

definition guard_drop :: "bool \<Rightarrow> 'a SpinLock \<Rightarrow> bool \<times> 'a SpinLock" where
  "guard_drop iflag l = (True, l\<lparr>sl_locked := False\<rparr>)"

definition guard_deref :: "'a SpinLock \<Rightarrow> 'a" where
  "guard_deref l = sl_value l"

definition guard_deref_mut :: "('a \<Rightarrow> 'a) \<Rightarrow> 'a SpinLock \<Rightarrow> 'a SpinLock" where
  "guard_deref_mut f l = l\<lparr>sl_value := f (sl_value l)\<rparr>"

text \<open>A critical section: lock, run the body on the protected value, drop the guard.\<close>

definition with_lock ::
    "('a \<Rightarrow> ('a \<times> 'b) outcome) \<Rightarrow> bool \<Rightarrow> 'a SpinLock \<Rightarrow> (bool \<times> 'a SpinLock \<times> 'b) outcome" where
  "with_lock body iflag l =
     bind_out (spin_lock iflag l) (\<lambda>(i1, l1).
     bind_out (body (guard_deref l1)) (\<lambda>(v, r).
     let (i2, l2) = guard_drop i1 (guard_deref_mut (\<lambda>_. v) l1) in Inr (i2, l2, r)))"

lemma with_lock_free:
  assumes "\<not> sl_locked l" "body (sl_value l) = Inr (v, r)"
  shows "with_lock body iflag l = Inr (True, \<lparr>sl_locked = False, sl_value = v\<rparr>, r)"
  using assms
  by (cases l) (simp add: with_lock_def spin_lock_def guard_drop_def guard_deref_def
      guard_deref_mut_def)

section \<open>Interleaved contenders\<close>

text \<open>
  \<open>Idle\<close>: outside; \<open>Spinning\<close>: in the \<open>while\<close> of \<open>lock\<close>; \<open>Acquired\<close>: the swap returned
  \<open>false\<close> but \<open>cli\<close> has not run yet; \<open>Critical\<close>: holding the guard; \<open>Released\<close>: \<open>false\<close> has
  been stored but \<open>sti\<close> has not run yet.
\<close>

datatype spin_pc = Idle | Spinning | Acquired | Critical | Released

record spin_sys =
  sys_locked :: bool
  sys_pc :: "nat \<Rightarrow> spin_pc"
  sys_if :: "nat \<Rightarrow> bool"

definition spin_init :: spin_sys where
  "spin_init = \<lparr>sys_locked = False, sys_pc = (\<lambda>_. Idle), sys_if = (\<lambda>_. True)\<rparr>"

inductive spin_step :: "spin_sys \<Rightarrow> spin_sys \<Rightarrow> bool" where
  call_lock: "sys_pc s i = Idle \<Longrightarrow> spin_step s (s\<lparr>sys_pc := (sys_pc s)(i := Spinning)\<rparr>)"
| swap_busy: "sys_pc s i = Spinning \<Longrightarrow> sys_locked s \<Longrightarrow> spin_step s s"
| swap_free: "sys_pc s i = Spinning \<Longrightarrow> \<not> sys_locked s \<Longrightarrow>
     spin_step s (s\<lparr>sys_locked := True, sys_pc := (sys_pc s)(i := Acquired)\<rparr>)"
| cli: "sys_pc s i = Acquired \<Longrightarrow>
     spin_step s (s\<lparr>sys_pc := (sys_pc s)(i := Critical), sys_if := (sys_if s)(i := False)\<rparr>)"
| store_release: "sys_pc s i = Critical \<Longrightarrow>
     spin_step s (s\<lparr>sys_locked := False, sys_pc := (sys_pc s)(i := Released)\<rparr>)"
| sti: "sys_pc s i = Released \<Longrightarrow>
     spin_step s (s\<lparr>sys_pc := (sys_pc s)(i := Idle), sys_if := (sys_if s)(i := True)\<rparr>)"

inductive spin_reachable :: "spin_sys \<Rightarrow> bool" where
  spin_start: "spin_reachable spin_init"
| spin_next: "spin_reachable s \<Longrightarrow> spin_step s t \<Longrightarrow> spin_reachable t"

inductive_cases spin_stepE: "spin_step s t"

definition holds_lock :: "spin_sys \<Rightarrow> nat \<Rightarrow> bool" where
  "holds_lock s i \<longleftrightarrow> sys_pc s i = Acquired \<or> sys_pc s i = Critical"

text \<open>
  The flag is set exactly while one contender is between its successful swap and its store,
  and interrupts are off for a contender inside its critical section.
\<close>

definition spin_inv :: "spin_sys \<Rightarrow> bool" where
  "spin_inv s \<longleftrightarrow>
     (\<forall>i. holds_lock s i \<longrightarrow> sys_locked s) \<and>
     (sys_locked s \<longrightarrow> (\<exists>i. holds_lock s i)) \<and>
     (\<forall>i j. holds_lock s i \<longrightarrow> holds_lock s j \<longrightarrow> i = j) \<and>
     (\<forall>i. sys_pc s i \<in> {Critical, Released} \<longrightarrow> \<not> sys_if s i)"

lemma spin_inv_init: "spin_inv spin_init"
  by (simp add: spin_inv_def spin_init_def holds_lock_def)

lemma spin_inv_irq: "spin_inv s \<Longrightarrow> sys_pc s i = Critical \<or> sys_pc s i = Released \<Longrightarrow> \<not> sys_if s i"
  by (auto simp: spin_inv_def)

lemma spin_inv_frame:
  assumes "spin_inv s" "sys_locked t = sys_locked s" "\<And>j. holds_lock t j = holds_lock s j"
    "\<And>j. sys_pc t j \<in> {Critical, Released} \<Longrightarrow> \<not> sys_if t j"
  shows "spin_inv t"
  using assms unfolding spin_inv_def by metis

lemma spin_inv_step: "spin_step s t \<Longrightarrow> spin_inv s \<Longrightarrow> spin_inv t"
proof (induction rule: spin_step.induct)
  case (swap_free s i)
  let ?t = "s\<lparr>sys_locked := True, sys_pc := (sys_pc s)(i := Acquired)\<rparr>"
  have "\<not> holds_lock s j" for j using swap_free by (auto simp: spin_inv_def)
  then have "holds_lock ?t j \<longleftrightarrow> j = i" for j by (simp add: holds_lock_def)
  moreover have "sys_pc ?t j \<in> {Critical, Released} \<Longrightarrow> \<not> sys_if ?t j" for j
    using swap_free by (auto simp: spin_inv_def split: if_splits)
  ultimately show ?case by (simp add: spin_inv_def)
next
  case (store_release s i)
  let ?t = "s\<lparr>sys_locked := False, sys_pc := (sys_pc s)(i := Released)\<rparr>"
  have i: "holds_lock s i" using store_release by (simp add: holds_lock_def)
  then have "\<not> holds_lock s j" if "j \<noteq> i" for j
    using store_release.prems that unfolding spin_inv_def by blast
  then have "\<not> holds_lock ?t j" for j by (simp add: holds_lock_def)
  moreover have "sys_pc ?t j \<in> {Critical, Released} \<Longrightarrow> \<not> sys_if ?t j" for j
    using store_release by (auto simp: spin_inv_def split: if_splits)
  ultimately show ?case by (simp add: spin_inv_def)
next
  case (cli s i)
  then show ?case
    by (auto intro!: spin_inv_frame [of s] simp: holds_lock_def split: if_splits dest: spin_inv_irq)
next
  case (call_lock s i)
  then show ?case
    by (auto intro!: spin_inv_frame [of s] simp: holds_lock_def split: if_splits dest: spin_inv_irq)
next
  case (sti s i)
  then show ?case
    by (auto intro!: spin_inv_frame [of s] simp: holds_lock_def split: if_splits dest: spin_inv_irq)
qed

lemma spin_reachable_inv: "spin_reachable s \<Longrightarrow> spin_inv s"
  by (induction rule: spin_reachable.induct) (auto intro: spin_inv_init spin_inv_step)

section \<open>Properties\<close>


text \<open>The window between the swap and \<open>cli\<close> that the comment in \<open>lock\<close> mentions is real.\<close>

definition in_window :: spin_sys where
  "in_window = \<lparr>sys_locked = True, sys_pc = (\<lambda>_. Idle)(0 := Acquired), sys_if = (\<lambda>_. True)\<rparr>"

lemma in_window_reachable: "spin_reachable in_window"
proof -
  let ?s1 = "spin_init\<lparr>sys_pc := (sys_pc spin_init)(0 := Spinning)\<rparr>"
  have s1: "spin_reachable ?s1"
    by (rule spin_next [OF spin_start]) (rule call_lock, simp add: spin_init_def)
  have "spin_step ?s1 (?s1\<lparr>sys_locked := True, sys_pc := (sys_pc ?s1)(0 := Acquired)\<rparr>)"
    by (rule swap_free) (simp_all add: spin_init_def)
  also have "?s1\<lparr>sys_locked := True, sys_pc := (sys_pc ?s1)(0 := Acquired)\<rparr> = in_window"
    by (simp add: in_window_def spin_init_def)
  finally show ?thesis by (rule spin_next [OF s1])
qed

lemma lock_taken_with_interrupts_enabled:
  "\<exists>s. spin_reachable s \<and> sys_locked s \<and> (\<exists>i. holds_lock s i \<and> sys_if s i)"
  using in_window_reachable by (auto simp: in_window_def holds_lock_def)


text \<open>
  Guards do not nest: after taking two free locks and dropping the guard of the inner
  one, interrupts are enabled although the outer lock is still held, because the drop
  executes \<open>sti\<close> unconditionally.
\<close>

lemma nested_guard_enables_interrupts:
  assumes "\<not> sl_locked outer" "\<not> sl_locked inner"
  shows "\<exists>i1 outer1 i2 inner1. spin_lock iflag outer = Inr (i1, outer1) \<and>
    spin_lock i1 inner = Inr (i2, inner1) \<and> \<not> i2 \<and>
    fst (guard_drop i2 inner1) \<and> sl_locked outer1"
  using assms by (auto simp: spin_lock_def guard_drop_def)

end
