(* ===== verification/Wasm.thy ===== *)
theory Wasm
  imports Noctis_Prelude
begin

text \<open>
  The WebAssembly interpreter of the kernel (\<open>kernel/src/wasm.rs\<close>).  A vector is a list in
  the order of the vector, so the top of a stack is its last element.  \<open>step\<close> is one turn of
  the loop in \<open>execute\<close>; \<open>execute\<close> itself may run forever and is a partial function whose
  value is \<open>None\<close> when it does.  The 32-bit arithmetic is that of the debug build: a result
  out of range is a panic.
\<close>

section \<open>Values, code and frames\<close>

datatype BlockType = Void

fun result_count :: "BlockType \<Rightarrow> nat" where
  "result_count Void = 0"

record Block =
  block_type :: BlockType

datatype Instruction =
    If_block Block
  | End
  | Return
  | Const i32
  | LocalGet u32
  | I32Lts
  | I32Add
  | I32Sub
  | I32Mul
  | Call u32

datatype LabelKind = If_label

record Label =
  lb_kind :: LabelKind
  lb_pc :: nat
  lb_sp :: nat
  lb_arity :: nat

record Frame =
  fr_pc :: int
  fr_sp :: nat
  fr_insts :: "Instruction list"
  fr_arity :: nat
  fr_labels :: "Label list"
  fr_locals :: "i32 list"

datatype ValueType = I32

record FuncType =
  params :: "ValueType list"
  results :: "ValueType list"

record Func =
  func_locals :: "i32 list"
  func_body :: "Instruction list"

record InternalFuncInst =
  func_type :: FuncType
  func_code :: Func

datatype FuncInst = Internal InternalFuncInst

record Store =
  funcs :: "FuncInst list"

record Runtime =
  rt_store :: Store
  rt_stack :: "i32 list"
  rt_call_stack :: "Frame list"

definition runtime_new :: "Store \<Rightarrow> Runtime" where
  "runtime_new s = \<lparr>rt_store = s, rt_stack = [], rt_call_stack = []\<rparr>"

section \<open>Vectors\<close>

text \<open>\<open>Vec::pop\<close>, \<open>slice::get\<close>, and \<open>Vec::drain(sp..)\<close>, which panics when \<open>sp\<close> is past the end.\<close>

definition vec_pop :: "'a list \<Rightarrow> ('a \<times> 'a list) option" where
  "vec_pop xs = (if xs = [] then None else Some (last xs, butlast xs))"

definition vec_get :: "'a list \<Rightarrow> nat \<Rightarrow> 'a option" where
  "vec_get xs i = (if i < length xs then Some (xs ! i) else None)"

definition vec_drain_from :: "'a list \<Rightarrow> nat \<Rightarrow> 'a list outcome" where
  "vec_drain_from xs sp = (if sp \<le> length xs then Inr (take sp xs) else Inl Index_out_of_bounds)"

lemma vec_pop_snoc [simp]: "vec_pop (xs @ [x]) = Some (x, xs)"
  by (simp add: vec_pop_def)

lemma vec_pop_Nil [simp]: "vec_pop [] = None"
  by (simp add: vec_pop_def)

section \<open>32-bit arithmetic\<close>

definition in_i32 :: "int \<Rightarrow> bool" where
  "in_i32 x \<longleftrightarrow> - (2 ^ 31) \<le> x \<and> x < 2 ^ 31"

definition i32_chk :: "(int \<Rightarrow> int \<Rightarrow> int) \<Rightarrow> i32 \<Rightarrow> i32 \<Rightarrow> i32 outcome" where
  "i32_chk f a b =
     (let r = f (sint a) (sint b) in if in_i32 r then Inr (word_of_int r) else Inl Arith_overflow)"

definition i32_lts :: "i32 \<Rightarrow> i32 \<Rightarrow> i32" where
  "i32_lts a b = (if sint a < sint b then 1 else 0)"

section \<open>The interpreter\<close>

definition push_frame :: "Runtime \<Rightarrow> InternalFuncInst \<Rightarrow> Runtime outcome" where
  "push_frame rt func =
     (let n = length (params (func_type func)) in
      if length (rt_stack rt) < n then Inl Arith_overflow
      else let bottom = length (rt_stack rt) - n;
               locals = drop bottom (rt_stack rt) @ map (\<lambda>_. 0) (func_locals (func_code func));
               frame = \<lparr>fr_pc = -1, fr_sp = bottom, fr_insts = func_body (func_code func),
                        fr_arity = length (results (func_type func)), fr_labels = [], fr_locals = locals\<rparr>
           in Inr (rt\<lparr>rt_stack := take bottom (rt_stack rt), rt_call_stack := rt_call_stack rt @ [frame]\<rparr>))"

definition stack_unwind :: "i32 list \<Rightarrow> nat \<Rightarrow> nat \<Rightarrow> i32 list outcome" where
  "stack_unwind stack sp arity =
     (if arity > 0
      then (case vec_pop stack of None \<Rightarrow> Inl (Panicked ''not found return value'')
            | Some (val, rest) \<Rightarrow>
                bind_out (vec_drain_from rest sp) (\<lambda>st. Inr (st @ [val])))
      else vec_drain_from stack sp)"

text \<open>\<open>insts\<close> is the code after the \<open>If\<close>, \<open>pc\<close> the address of its head.\<close>

fun end_addr_from :: "Instruction list \<Rightarrow> nat \<Rightarrow> nat \<Rightarrow> nat outcome" where
  "end_addr_from [] pc depth = Inl Unwrap_failed"
| "end_addr_from (If_block b # is) pc depth = end_addr_from is (Suc pc) (Suc depth)"
| "end_addr_from (End # is) pc depth =
     (if depth = 0 then Inr pc else end_addr_from is (Suc pc) (depth - 1))"
| "end_addr_from (i # is) pc depth = end_addr_from is (Suc pc) depth"

definition get_end_addr :: "Instruction list \<Rightarrow> nat \<Rightarrow> nat outcome" where
  "get_end_addr insts pc = end_addr_from (drop (Suc pc) insts) (Suc pc) 0"

text \<open>The two operands of a binary instruction: right-hand side first.\<close>

definition binary :: "Runtime \<Rightarrow> (i32 \<Rightarrow> i32 \<Rightarrow> i32 outcome) \<Rightarrow> Runtime outcome" where
  "binary rt f =
     (case vec_pop (rt_stack rt) of
        None \<Rightarrow> Inl (Panicked ''not found any value in the stack'')
      | Some (rhs, st1) \<Rightarrow>
          (case vec_pop st1 of
             None \<Rightarrow> Inl (Panicked ''not found any value in the stack'')
           | Some (lhs, st2) \<Rightarrow>
               bind_out (f lhs rhs) (\<lambda>v. Inr (rt\<lparr>rt_stack := st2 @ [v]\<rparr>))))"

text \<open>
  The \<open>match\<close> of \<open>execute\<close>: \<open>frame\<close> is the top frame, its \<open>pc\<close> already advanced, and
  \<open>below\<close> are the frames below it.
\<close>

fun run_inst :: "Runtime \<Rightarrow> Frame list \<Rightarrow> Frame \<Rightarrow> Instruction \<Rightarrow> Runtime outcome" where
  "run_inst rt below frame I32Add = binary rt (i32_chk (+))"
| "run_inst rt below frame I32Sub = binary rt (i32_chk (-))"
| "run_inst rt below frame I32Mul = binary rt (i32_chk (*))"
| "run_inst rt below frame I32Lts = binary rt (\<lambda>a b. Inr (i32_lts a b))"
| "run_inst rt below frame (Const val) = Inr (rt\<lparr>rt_stack := rt_stack rt @ [val]\<rparr>)"
| "run_inst rt below frame (LocalGet idx) =
     (case vec_get (fr_locals frame) (unat idx) of
        None \<Rightarrow> Inl (Panicked ''not found local variable'')
      | Some val \<Rightarrow> Inr (rt\<lparr>rt_stack := rt_stack rt @ [val]\<rparr>))"
| "run_inst rt below frame (Call idx) =
     (case vec_get (funcs (rt_store rt)) (unat idx) of
        None \<Rightarrow> Inl (Panicked ''not found func'')
      | Some (Internal func) \<Rightarrow> push_frame rt func)"
| "run_inst rt below frame (If_block block) =
     (case vec_pop (rt_stack rt) of
        None \<Rightarrow> Inl Unwrap_failed
      | Some (cond, st) \<Rightarrow>
          bind_out (get_end_addr (fr_insts frame) (nat (fr_pc frame))) (\<lambda>next_pc.
          let pc1 = (if cond = 0 then int next_pc else fr_pc frame);
              label = \<lparr>lb_kind = If_label, lb_pc = next_pc, lb_sp = length st,
                       lb_arity = result_count (block_type block)\<rparr>
          in Inr (rt\<lparr>rt_stack := st,
                     rt_call_stack := below @ [frame\<lparr>fr_pc := pc1, fr_labels := fr_labels frame @ [label]\<rparr>]\<rparr>)))"
| "run_inst rt below frame Return =
     bind_out (stack_unwind (rt_stack rt) (fr_sp frame) (fr_arity frame)) (\<lambda>st.
     Inr (rt\<lparr>rt_stack := st, rt_call_stack := below\<rparr>))"
| "run_inst rt below frame End =
     (case vec_pop (fr_labels frame) of
        Some (label, rest) \<Rightarrow>
          bind_out (stack_unwind (rt_stack rt) (lb_sp label) (lb_arity label)) (\<lambda>st.
          Inr (rt\<lparr>rt_stack := st,
                  rt_call_stack := below @ [frame\<lparr>fr_pc := int (lb_pc label), fr_labels := rest\<rparr>]\<rparr>))
      | None \<Rightarrow>
          bind_out (stack_unwind (rt_stack rt) (fr_sp frame) (fr_arity frame)) (\<lambda>st.
          Inr (rt\<lparr>rt_stack := st, rt_call_stack := below\<rparr>)))"

text \<open>One turn of the loop: \<open>Stop\<close> is \<open>break\<close>.\<close>

datatype turn = Stop Runtime | Continue Runtime

definition step :: "Runtime \<Rightarrow> turn outcome" where
  "step rt =
     (case vec_pop (rt_call_stack rt) of
        None \<Rightarrow> Inr (Stop rt)
      | Some (frame0, below) \<Rightarrow>
          let frame = frame0\<lparr>fr_pc := fr_pc frame0 + 1\<rparr>;
              rt1 = rt\<lparr>rt_call_stack := below @ [frame]\<rparr>
          in (case (if 0 \<le> fr_pc frame then vec_get (fr_insts frame) (nat (fr_pc frame)) else None) of
                None \<Rightarrow> Inr (Stop rt1)
              | Some inst \<Rightarrow> bind_out (run_inst rt1 below frame inst) (\<lambda>rt2. Inr (Continue rt2))))"

partial_function (option) execute :: "Runtime \<Rightarrow> Runtime outcome option" where
  "execute rt =
     (case step rt of
        Inl err \<Rightarrow> Some (Inl err)
      | Inr (Stop rt1) \<Rightarrow> Some (Inr rt1)
      | Inr (Continue rt1) \<Rightarrow> execute rt1)"

definition invoke :: "Runtime \<Rightarrow> InternalFuncInst \<Rightarrow> (Runtime \<times> i32 option) outcome option" where
  "invoke rt func =
     bind_run (Some (push_frame rt func)) (\<lambda>rt1.
     bind_run (execute rt1) (\<lambda>rt2.
     if 0 < length (results (func_type func))
     then (case vec_pop (rt_stack rt2) of
             None \<Rightarrow> Some (Inl (Panicked ''not found return value''))
           | Some (val, st) \<Rightarrow> Some (Inr (rt2\<lparr>rt_stack := st\<rparr>, Some val)))
     else Some (Inr (rt2, None))))"

definition call :: "Runtime \<Rightarrow> nat \<Rightarrow> i32 list \<Rightarrow> (Runtime \<times> i32 option) outcome option" where
  "call rt idx args =
     (let rt1 = rt\<lparr>rt_stack := []\<rparr> in
      case vec_get (funcs (rt_store rt1)) idx of
        None \<Rightarrow> Some (Inl (Panicked ''not found func''))
      | Some (Internal func) \<Rightarrow> invoke (rt1\<lparr>rt_stack := rt_stack rt1 @ args\<rparr>) func)"

section \<open>The demo task\<close>

definition diamond_size :: i32 where
  "diamond_size = 15"

text \<open>\<open>size as i32 / 2\<close>; the size is positive, so truncation is the integer quotient.\<close>

definition diamond_half :: i32 where
  "diamond_half = word_of_int (sint diamond_size div 2)"

definition diamond_func :: "Instruction list \<Rightarrow> InternalFuncInst" where
  "diamond_func body =
     \<lparr>func_type = \<lparr>params = [I32], results = [I32]\<rparr>, func_code = \<lparr>func_locals = [], func_body = body\<rparr>\<rparr>"

definition wasm_space :: Store where
  "wasm_space = \<lparr>funcs = [Internal (diamond_func
     [LocalGet 0, Const diamond_half, I32Lts, If_block \<lparr>block_type = Void\<rparr>,
      Const diamond_half, LocalGet 0, I32Sub, Return, End,
      LocalGet 0, Const diamond_half, I32Sub, Return])]\<rparr>"

definition wasm_star :: Store where
  "wasm_star = \<lparr>funcs = [Internal (diamond_func
     [LocalGet 0, Const diamond_half, I32Lts, If_block \<lparr>block_type = Void\<rparr>,
      LocalGet 0, Const 2, I32Mul, Const 1, I32Add, Return, End,
      Const diamond_size, Const 2, LocalGet 0, Const diamond_half, I32Sub, I32Mul, I32Sub, Return])]\<rparr>"

text \<open>\<open>as usize\<close> of an \<open>i32\<close> extends the sign.\<close>

definition i32_as_usize :: "i32 \<Rightarrow> usize" where
  "i32_as_usize w = word_of_int (sint w)"

definition unwrap_or_zero :: "i32 option \<Rightarrow> i32" where
  "unwrap_or_zero v = (case v of None \<Rightarrow> 0 | Some x \<Rightarrow> x)"

text \<open>The rows printed for the values \<open>ns\<close> of the loop variable.\<close>

fun wasm_rows :: "Runtime \<Rightarrow> Runtime \<Rightarrow> i32 list \<Rightarrow> string outcome option" where
  "wasm_rows runtime_space runtime_star [] = Some (Inr [])"
| "wasm_rows runtime_space runtime_star (n # ns) =
     bind_run (call runtime_space 0 [n]) (\<lambda>(space_rt, v).
     bind_run (call runtime_star 0 [n]) (\<lambda>(star_rt, w).
     bind_run (wasm_rows space_rt star_rt ns) (\<lambda>rest.
     Some (Inr (replicate (unat (i32_as_usize (unwrap_or_zero v))) (CHR '' '') @
                replicate (unat (i32_as_usize (unwrap_or_zero w))) (CHR ''*'') @ [CHR 0x0A] @ rest)))))"

text \<open>What one turn of the endless loop of \<open>wasm_entry\<close> prints before it halts the CPU.\<close>

definition wasm_entry :: "string outcome option" where
  "wasm_entry =
     bind_run (wasm_rows (runtime_new wasm_space) (runtime_new wasm_star)
                 (map word_of_int [0 .. sint diamond_size - 1])) (\<lambda>rows.
     Some (Inr ([CHR 0x0A] @ rows @ [CHR 0x0A])))"

end
