(* ===== verification/Wasm_Correct.thy ===== *)
theory Wasm_Correct
  imports Wasm
begin

text \<open>
  Correctness of the interpreter of \<open>kernel/src/wasm.rs\<close>.  A small expression language with
  a direct evaluator is the reference for straight-line code: executing the compiled code of
  an expression pushes its value, and panics exactly when the evaluator does.  On top of it
  come functions that branch once and return, and the demo task that draws the diamond.
  \<open>closes\<close> specifies which \<open>End\<close> belongs to an \<open>If\<close>.
\<close>

section \<open>Stepping through code\<close>

text \<open>The top frame stands before position \<open>n\<close> of its code.\<close>

definition at :: "Runtime \<Rightarrow> Frame list \<Rightarrow> Frame \<Rightarrow> nat \<Rightarrow> Runtime" where
  "at rt below fr n = rt\<lparr>rt_call_stack := below @ [fr\<lparr>fr_pc := int n - 1\<rparr>]\<rparr>"

lemma stack_update_first:
  "rt\<lparr>rt_call_stack := c, rt_stack := s\<rparr> = rt\<lparr>rt_stack := s, rt_call_stack := c\<rparr>"
  by (cases rt) simp

lemma step_at:
  assumes "n < length (fr_insts fr)"
  shows "step (at rt below fr n) =
    bind_out (run_inst (rt\<lparr>rt_call_stack := below @ [fr\<lparr>fr_pc := int n\<rparr>]\<rparr>) below (fr\<lparr>fr_pc := int n\<rparr>)
      (fr_insts fr ! n)) (\<lambda>rt2. Inr (Continue rt2))"
  using assms by (simp add: step_def at_def Let_def vec_get_def)

lemma execute_at:
  assumes "n < length (fr_insts fr)"
    "run_inst (rt\<lparr>rt_call_stack := below @ [fr\<lparr>fr_pc := int n\<rparr>]\<rparr>) below (fr\<lparr>fr_pc := int n\<rparr>) (fr_insts fr ! n) = r"
  shows "execute (at rt below fr n) = (case r of Inl err \<Rightarrow> Some (Inl err) | Inr rt' \<Rightarrow> execute rt')"
  using assms by (subst execute.simps) (simp add: step_at split: sum.split)

lemma execute_done: "rt_call_stack rt = [] \<Longrightarrow> execute rt = Some (Inr rt)"
  by (subst execute.simps) (simp add: step_def)

section \<open>Expressions\<close>

datatype binop = Plus_op | Minus_op | Times_op | Less_op

datatype aexp = Lit i32 | Loc u32 | Bin binop aexp aexp

fun op_inst :: "binop \<Rightarrow> Instruction" where
  "op_inst Plus_op = I32Add"
| "op_inst Minus_op = I32Sub"
| "op_inst Times_op = I32Mul"
| "op_inst Less_op = I32Lts"

fun op_fun :: "binop \<Rightarrow> i32 \<Rightarrow> i32 \<Rightarrow> i32 outcome" where
  "op_fun Plus_op a b = i32_chk (+) a b"
| "op_fun Minus_op a b = i32_chk (-) a b"
| "op_fun Times_op a b = i32_chk (*) a b"
| "op_fun Less_op a b = Inr (i32_lts a b)"

fun compile :: "aexp \<Rightarrow> Instruction list" where
  "compile (Lit c) = [Const c]"
| "compile (Loc i) = [LocalGet i]"
| "compile (Bin f a b) = compile a @ compile b @ [op_inst f]"

fun eval :: "i32 list \<Rightarrow> aexp \<Rightarrow> i32 outcome" where
  "eval ls (Lit c) = Inr c"
| "eval ls (Loc i) = (case vec_get ls (unat i) of None \<Rightarrow> Inl (Panicked ''not found local variable'') | Some v \<Rightarrow> Inr v)"
| "eval ls (Bin f a b) = bind_out (eval ls a) (\<lambda>x. bind_out (eval ls b) (\<lambda>y. op_fun f x y))"

lemma run_op:
  "rt_stack rt = st @ [x, y] \<Longrightarrow>
     run_inst rt below fr (op_inst f) = bind_out (op_fun f x y) (\<lambda>v. Inr (rt\<lparr>rt_stack := st @ [v]\<rparr>))"
  using vec_pop_snoc [of "st @ [x]" y] by (cases f) (simp_all add: binary_def)

abbreviation pushed :: "Runtime \<Rightarrow> i32 \<Rightarrow> Runtime" where
  "pushed rt v \<equiv> rt\<lparr>rt_stack := rt_stack rt @ [v]\<rparr>"

lemma execute_comp:
  assumes "fr_insts fr = pre @ compile e @ post"
  shows "execute (at rt below fr (length pre)) =
    (case eval (fr_locals fr) e of Inl err \<Rightarrow> Some (Inl err)
     | Inr v \<Rightarrow> execute (at (pushed rt v) below fr (length pre + length (compile e))))"
  using assms
proof (induction e arbitrary: pre post rt)
  case (Lit c)
  then have "length pre < length (fr_insts fr)" "fr_insts fr ! length pre = Const c" by simp_all
  from execute_at [OF this(1) refl] this(2) show ?case by (simp add: at_def stack_update_first)
next
  case (Loc i)
  then have "length pre < length (fr_insts fr)" "fr_insts fr ! length pre = LocalGet i" by simp_all
  from execute_at [OF this(1) refl] this(2) show ?case
    by (cases "vec_get (fr_locals fr) (unat i)") (simp_all add: at_def stack_update_first)
next
  case (Bin f a b)
  have a: "fr_insts fr = pre @ compile a @ (compile b @ [op_inst f] @ post)"
    and b: "fr_insts fr = (pre @ compile a) @ compile b @ ([op_inst f] @ post)" using Bin.prems by simp_all
  show ?case
  proof (cases "eval (fr_locals fr) a")
    case (Inl err)
    then show ?thesis using Bin.IH(1) [OF a] by simp
  next
    case x: (Inr x)
    show ?thesis
    proof (cases "eval (fr_locals fr) b")
      case (Inl err)
      then show ?thesis using Bin.IH(1) [OF a] Bin.IH(2) [OF b, of "pushed rt x"] x by simp
    next
      case y: (Inr y)
      let ?n = "length pre + length (compile a) + length (compile b)"
      have n: "?n < length (fr_insts fr)" "fr_insts fr ! ?n = op_inst f"
        using Bin.prems by (simp_all add: nth_append)
      have "execute (at (pushed (pushed rt x) y) below fr ?n) =
          (case op_fun f x y of Inl err \<Rightarrow> Some (Inl err)
           | Inr v \<Rightarrow> execute (at (pushed rt v) below fr (Suc ?n)))"
        using execute_at [OF n(1) refl, of "pushed (pushed rt x) y" below]
        unfolding n(2) by (subst (asm) run_op [where st = "rt_stack rt"]) (auto simp: at_def stack_update_first split: sum.split)
      then show ?thesis
        using Bin.IH(1) [OF a] Bin.IH(2) [OF b, of "pushed rt x"] x y
        by (simp add: add.assoc split: sum.split)
    qed
  qed
qed

section \<open>Functions that branch once\<close>

text \<open>\<open>if c { return a } return b\<close>\<close>

definition cond_body :: "aexp \<Rightarrow> aexp \<Rightarrow> aexp \<Rightarrow> Instruction list" where
  "cond_body c a b =
     compile c @ [If_block \<lparr>block_type = Void\<rparr>] @ compile a @ [Return, End] @ compile b @ [Return]"

definition cond_func :: "ValueType list \<Rightarrow> i32 list \<Rightarrow> aexp \<Rightarrow> aexp \<Rightarrow> aexp \<Rightarrow> InternalFuncInst" where
  "cond_func ps ls c a b =
     \<lparr>func_type = \<lparr>params = ps, results = [I32]\<rparr>,
      func_code = \<lparr>func_locals = ls, func_body = cond_body c a b\<rparr>\<rparr>"

definition cond_value :: "i32 list \<Rightarrow> aexp \<Rightarrow> aexp \<Rightarrow> aexp \<Rightarrow> i32 outcome" where
  "cond_value ls c a b = bind_out (eval ls c) (\<lambda>v. if v = 0 then eval ls b else eval ls a)"

lemma end_addr_compile:
  "end_addr_from (compile e @ is) pc d = end_addr_from is (pc + length (compile e)) d"
proof (induction e arbitrary: pc "is")
  case (Bin f a b)
  have "end_addr_from (op_inst f # is) q d = end_addr_from is (Suc q) d" for q "is" by (cases f) simp_all
  then show ?case using Bin by (simp add: add.assoc)
qed simp_all

lemma execute_return:
  assumes "n < length (fr_insts fr)" "fr_insts fr ! n = Return" "fr_arity fr = 1" "fr_sp fr \<le> length st"
    "rt_stack rt = st @ [v]"
  shows "execute (at rt below fr n) =
    execute (rt\<lparr>rt_stack := take (fr_sp fr) st @ [v], rt_call_stack := below\<rparr>)"
  using execute_at [OF assms(1) refl, of rt below] assms(2-5)
  by (simp add: stack_unwind_def vec_drain_from_def stack_update_first)

text \<open>The code of the function with the positions of its parts.\<close>

lemma cond_positions:
  assumes "fr_insts fr = cond_body c a b"
  defines "i \<equiv> length (compile c)"
  defines "e \<equiv> i + length (compile a) + 2"
  shows "i < length (fr_insts fr)" "fr_insts fr ! i = If_block \<lparr>block_type = Void\<rparr>"
    "get_end_addr (fr_insts fr) i = Inr e"
    "fr_insts fr = (compile c @ [If_block \<lparr>block_type = Void\<rparr>]) @ compile a @ ([Return, End] @ compile b @ [Return])"
    "Suc (i + length (compile a)) < length (fr_insts fr)" "fr_insts fr ! Suc (i + length (compile a)) = Return"
    "fr_insts fr = (compile c @ [If_block \<lparr>block_type = Void\<rparr>] @ compile a @ [Return, End]) @ compile b @ [Return]"
    "Suc (e + length (compile b)) < length (fr_insts fr)" "fr_insts fr ! Suc (e + length (compile b)) = Return"
  using assms
  by (simp_all add: cond_body_def nth_append get_end_addr_def end_addr_compile)

lemma label_update_first: "fr\<lparr>fr_pc := p, fr_labels := l\<rparr> = fr\<lparr>fr_labels := l, fr_pc := p\<rparr>"
  by (cases fr) simp

lemma execute_if:
  fixes rt :: Runtime
  assumes "n < length (fr_insts fr)" "fr_insts fr ! n = If_block blk" "get_end_addr (fr_insts fr) n = Inr e"
  defines "fr' \<equiv> fr\<lparr>fr_labels := fr_labels fr @
    [\<lparr>lb_kind = If_label, lb_pc = e, lb_sp = length (rt_stack rt), lb_arity = result_count (block_type blk)\<rparr>]\<rparr>"
  shows "execute (at (pushed rt v) below fr n) = execute (at rt below fr' (if v = 0 then Suc e else Suc n))"
proof -
  have "rt\<lparr>rt_stack := rt_stack rt\<rparr> = rt" by simp
  then show ?thesis
    using execute_at [OF assms(1) refl, of "pushed rt v" below] assms(2,3)
    by (simp add: at_def fr'_def stack_update_first label_update_first Let_def)
qed

lemma execute_cond:
  assumes code: "fr_insts fr = cond_body c a b" and fr: "fr_arity fr = 1" "fr_sp fr \<le> length (rt_stack rt)"
  shows "execute (at rt below fr 0) =
    (case cond_value (fr_locals fr) c a b of Inl err \<Rightarrow> Some (Inl err)
     | Inr v \<Rightarrow> execute (rt\<lparr>rt_stack := take (fr_sp fr) (rt_stack rt) @ [v], rt_call_stack := below\<rparr>))"
proof -
  note pos = cond_positions [OF code]
  have start: "fr_insts fr = [] @ compile c @ ([If_block \<lparr>block_type = Void\<rparr>] @ compile a @ [Return, End] @ compile b @ [Return])"
    using code by (simp add: cond_body_def)
  note c = execute_comp [OF start, of rt below, simplified]
  show ?thesis
  proof (cases "eval (fr_locals fr) c")
    case (Inl err)
    then show ?thesis using c by (simp add: cond_value_def)
  next
    case v: (Inr v)
    define fr' where "fr' = fr\<lparr>fr_labels := fr_labels fr @ [\<lparr>lb_kind = If_label, lb_pc = length (compile c) + length (compile a) + 2,
      lb_sp = length (rt_stack rt), lb_arity = 0\<rparr>]\<rparr>"
    have same: "fr_insts fr' = fr_insts fr" "fr_locals fr' = fr_locals fr" "fr_arity fr' = 1" "fr_sp fr' = fr_sp fr"
      using fr by (simp_all add: fr'_def)
    have branch: "execute (at rt below fr 0) = execute (at rt below fr'
        (if v = 0 then Suc (length (compile c) + length (compile a) + 2) else Suc (length (compile c))))"
      using c v execute_if [OF pos(1-3), of rt v below] by (simp add: fr'_def)
    have ret: "execute (at (pushed rt x) below fr' k) =
        execute (rt\<lparr>rt_stack := take (fr_sp fr) (rt_stack rt) @ [x], rt_call_stack := below\<rparr>)"
      if "k < length (fr_insts fr)" "fr_insts fr ! k = Return" for x k
      using execute_return [of k fr' "rt_stack rt" "pushed rt x" x below] that same fr by simp
    show ?thesis
    proof (cases "v = 0")
      case True
      note b = execute_comp [OF pos(7) [folded same(1)], of rt below]
      show ?thesis using branch b ret [OF pos(8,9)] v True same(2)
        by (simp add: cond_value_def split: sum.split)
    next
      case False
      note a = execute_comp [OF pos(4) [folded same(1)], of rt below]
      show ?thesis using branch a ret [OF pos(5,6)] v False same(2)
        by (simp add: cond_value_def split: sum.split)
    qed
  qed
qed

lemma call_cond:
  assumes "vec_get (funcs (rt_store rt)) idx = Some (Internal (cond_func ps ls c a b))"
    and "length args = length ps" "rt_call_stack rt = []"
  shows "call rt idx args =
    Some (bind_out (cond_value (args @ replicate (length ls) 0) c a b) (\<lambda>v. Inr (rt\<lparr>rt_stack := []\<rparr>, Some v)))"
proof -
  define rt1 where "rt1 = rt\<lparr>rt_stack := []\<rparr>"
  define fr where "fr = \<lparr>fr_pc = -1, fr_sp = 0, fr_insts = cond_body c a b, fr_arity = 1, fr_labels = [],
    fr_locals = args @ replicate (length ls) 0\<rparr>"
  have "push_frame (rt1\<lparr>rt_stack := args\<rparr>) (cond_func ps ls c a b) = Inr (at rt1 [] fr 0)"
    using assms(2,3) by (simp add: push_frame_def cond_func_def rt1_def fr_def at_def map_replicate_const)
  moreover have "execute (at rt1 [] fr 0) =
    (case cond_value (args @ replicate (length ls) 0) c a b of Inl err \<Rightarrow> Some (Inl err)
     | Inr v \<Rightarrow> Some (Inr (rt1\<lparr>rt_stack := [v], rt_call_stack := []\<rparr>)))"
    using execute_cond [of fr c a b rt1 "[]"] by (simp add: fr_def rt1_def execute_done split: sum.split)
  moreover have "rt1\<lparr>rt_stack := [v], rt_call_stack := [], rt_stack := []\<rparr> = rt\<lparr>rt_stack := []\<rparr>" for v
    using assms(3) by (cases rt) (simp add: rt1_def)
  moreover have "call rt idx args = invoke (rt1\<lparr>rt_stack := args\<rparr>) (cond_func ps ls c a b)"
    using assms(1) by (simp add: call_def rt1_def)
  moreover have "results (func_type (cond_func ps ls c a b)) = [I32]" by (simp add: cond_func_def)
  ultimately show ?thesis
    by (cases "cond_value (args @ replicate (length ls) 0) c a b") (simp_all add: invoke_def vec_pop_def)
qed

text \<open>
  C16: the interpreter computes what the source program means.  A function that evaluates a
  condition and returns one of two expressions, compiled to stack code, is executed by
  \<open>call\<close> to exactly the value (or exactly the panic) of a direct evaluation over its
  arguments and zeroed locals; the call always returns, and leaves both stacks empty.
\<close>

theorem call_cond_func:
  assumes "vec_get (funcs (rt_store rt)) idx = Some (Internal (cond_func ps ls c a b))"
    and "length args = length ps" "rt_call_stack rt = []"
  shows "call rt idx args =
    Some (bind_out (cond_value (args @ replicate (length ls) 0) c a b) (\<lambda>v. Inr (rt\<lparr>rt_stack := []\<rparr>, Some v)))"
  using assms by (rule call_cond)

lemma cond_value_simps:
  "eval ls c = Inr v \<Longrightarrow> v = 0 \<Longrightarrow> cond_value ls c a b = eval ls b"
  "eval ls c = Inr v \<Longrightarrow> v \<noteq> 0 \<Longrightarrow> cond_value ls c a b = eval ls a"
  by (simp_all add: cond_value_def)

text \<open>The maximum of two numbers.\<close>

abbreviation max_code :: InternalFuncInst where
  "max_code \<equiv> cond_func [I32, I32] [] (Bin Less_op (Loc 0) (Loc 1)) (Loc 1) (Loc 0)"

theorem call_cond_func_witness:
  "call (runtime_new \<lparr>funcs = [Internal max_code]\<rparr>) 0 [3, 8] =
     Some (Inr (runtime_new \<lparr>funcs = [Internal max_code]\<rparr>, Some 8))"
proof -
  let ?rt = "runtime_new \<lparr>funcs = [Internal max_code]\<rparr>"
  have "call ?rt 0 [3, 8] =
      Some (bind_out (cond_value ([3, 8] @ replicate (length ([] :: i32 list)) 0) (Bin Less_op (Loc 0) (Loc 1)) (Loc 1) (Loc 0))
        (\<lambda>v. Inr (?rt\<lparr>rt_stack := []\<rparr>, Some v)))"
    by (rule call_cond_func [where ps = "[I32, I32]"]) (simp_all add: runtime_new_def vec_get_def)
  then show ?thesis by (simp add: runtime_new_def cond_value_def vec_get_def i32_lts_def)
qed

section \<open>The diamond\<close>

text \<open>The rows of a diamond of height \<open>2 * h + 1\<close>.\<close>

definition diamond_row :: "nat \<Rightarrow> nat \<Rightarrow> string" where
  "diamond_row h n =
     (let d = (if n \<le> h then h - n else n - h) in replicate d (CHR '' '') @ replicate (2 * (h - d) + 1) (CHR ''*''))"

definition space_func :: InternalFuncInst where
  "space_func = cond_func [I32] [] (Bin Less_op (Loc 0) (Lit 7)) (Bin Minus_op (Lit 7) (Loc 0)) (Bin Minus_op (Loc 0) (Lit 7))"

definition star_func :: InternalFuncInst where
  "star_func = cond_func [I32] [] (Bin Less_op (Loc 0) (Lit 7))
     (Bin Plus_op (Bin Times_op (Loc 0) (Lit 2)) (Lit 1))
     (Bin Minus_op (Lit 15) (Bin Times_op (Lit 2) (Bin Minus_op (Loc 0) (Lit 7))))"

lemma wasm_stores:
  "wasm_space = \<lparr>funcs = [Internal space_func]\<rparr>" "wasm_star = \<lparr>funcs = [Internal star_func]\<rparr>"
  by (simp_all add: wasm_space_def wasm_star_def space_func_def star_func_def cond_func_def diamond_func_def
      cond_body_def diamond_half_def diamond_size_def)

lemma call_space:
  "call (runtime_new wasm_space) 0 [n] =
     Some (bind_out (cond_value [n] (Bin Less_op (Loc 0) (Lit 7)) (Bin Minus_op (Lit 7) (Loc 0)) (Bin Minus_op (Loc 0) (Lit 7)))
       (\<lambda>v. Inr (runtime_new wasm_space, Some v)))"
proof -
  have "runtime_new wasm_space\<lparr>rt_stack := []\<rparr> = runtime_new wasm_space" by (simp add: runtime_new_def)
  then show ?thesis
    using execute_done call_cond [of "runtime_new wasm_space" 0 "[I32]" "[]" _ _ _ "[n]"]
    by (simp add: wasm_stores runtime_new_def space_func_def vec_get_def)
qed

lemma call_star:
  "call (runtime_new wasm_star) 0 [n] =
     Some (bind_out (cond_value [n] (Bin Less_op (Loc 0) (Lit 7)) (Bin Plus_op (Bin Times_op (Loc 0) (Lit 2)) (Lit 1))
       (Bin Minus_op (Lit 15) (Bin Times_op (Lit 2) (Bin Minus_op (Loc 0) (Lit 7)))))
       (\<lambda>v. Inr (runtime_new wasm_star, Some v)))"
proof -
  have "runtime_new wasm_star\<lparr>rt_stack := []\<rparr> = runtime_new wasm_star" by (simp add: runtime_new_def)
  then show ?thesis
    using call_cond [of "runtime_new wasm_star" 0 "[I32]" "[]" _ _ _ "[n]"]
    by (simp add: wasm_stores runtime_new_def star_func_def vec_get_def)
qed

lemma sint_small: "n < 2 ^ 31 \<Longrightarrow> sint (of_nat n :: i32) = int n"
  by (simp add: signed_of_nat signed_take_bit_int_eq_self)

lemma i32_chk_nat:
  assumes "a < 2 ^ 31" "b < 2 ^ 31" "f (int a) (int b) = int r" "r < 2 ^ 31"
  shows "i32_chk f (of_nat a) (of_nat b) = Inr (of_nat r)"
  using assms by (simp add: i32_chk_def sint_small in_i32_def)

lemma i32_lts_nat: "a < 2 ^ 31 \<Longrightarrow> b < 2 ^ 31 \<Longrightarrow> i32_lts (of_nat a) (of_nat b) = (if a < b then 1 else 0)"
  by (simp add: i32_lts_def sint_small)

lemma space_value:
  assumes "n < 15"
  shows "cond_value [of_nat n] (Bin Less_op (Loc 0) (Lit 7)) (Bin Minus_op (Lit 7) (Loc 0)) (Bin Minus_op (Loc 0) (Lit 7)) =
    Inr (of_nat (if n \<le> 7 then 7 - n else n - 7))"
proof (cases "n < 7")
  case True
  then show ?thesis
    using i32_lts_nat [of n 7] i32_chk_nat [of 7 n "(-)" "7 - n"] by (simp add: cond_value_def vec_get_def of_nat_diff)
next
  case False
  then show ?thesis
    using assms i32_lts_nat [of n 7] i32_chk_nat [of n 7 "(-)" "n - 7"]
    by (auto simp: cond_value_def vec_get_def of_nat_diff)
qed

lemma star_value:
  assumes "n < 15"
  defines "d \<equiv> (if n \<le> 7 then 7 - n else n - 7)"
  shows "cond_value [of_nat n] (Bin Less_op (Loc 0) (Lit 7)) (Bin Plus_op (Bin Times_op (Loc 0) (Lit 2)) (Lit 1))
      (Bin Minus_op (Lit 15) (Bin Times_op (Lit 2) (Bin Minus_op (Loc 0) (Lit 7)))) =
    Inr (of_nat (2 * (7 - d) + 1))"
proof (cases "n < 7")
  case True
  have "i32_chk (*) (of_nat n) 2 = Inr (of_nat (n * 2))" "i32_chk (+) (of_nat (n * 2)) 1 = Inr (of_nat (n * 2 + 1))"
    using True i32_chk_nat [of n 2 "(*)" "n * 2"] i32_chk_nat [of "n * 2" 1 "(+)" "n * 2 + 1"] by simp_all
  then show ?thesis
    using True i32_lts_nat [of n 7] by (simp add: cond_value_def vec_get_def d_def mult.commute)
next
  case False
  let ?k = "n - 7"
  have "i32_chk (-) (of_nat n) 7 = Inr (of_nat ?k)" "i32_chk (*) 2 (of_nat ?k) = Inr (of_nat (2 * ?k))"
    "i32_chk (-) 15 (of_nat (2 * ?k)) = Inr (of_nat (15 - 2 * ?k))"
    using False assms(1) i32_chk_nat [of n 7 "(-)" ?k] i32_chk_nat [of 2 ?k "(*)" "2 * ?k"]
      i32_chk_nat [of 15 "2 * ?k" "(-)" "15 - 2 * ?k"] by (simp_all add: of_nat_diff)
  moreover have "15 - 2 * ?k = 2 * (7 - d) + 1" using False assms by (auto simp: d_def)
  ultimately show ?thesis
    using False assms(1) i32_lts_nat [of n 7] by (simp add: cond_value_def vec_get_def del: of_nat_mult of_nat_add)
qed

lemma small_as_usize: "n < 2 ^ 31 \<Longrightarrow> unat (i32_as_usize (of_nat n)) = n"
  by (simp add: i32_as_usize_def sint_small unat_of_nat_usize)

lemma diamond_rows:
  "\<forall>n \<in> set ns. n < 15 \<Longrightarrow>
   wasm_rows (runtime_new wasm_space) (runtime_new wasm_star) (map of_nat ns) =
     Some (Inr (concat (map (\<lambda>n. diamond_row 7 n @ [CHR 0x0A]) ns)))"
proof (induction ns)
  case (Cons n ns)
  have n: "n < 15" using Cons.prems by simp
  define d where "d = (if n \<le> 7 then 7 - n else n - 7)"
  have calls: "call (runtime_new wasm_space) 0 [of_nat n] = Some (Inr (runtime_new wasm_space, Some (of_nat d)))"
    "call (runtime_new wasm_star) 0 [of_nat n] = Some (Inr (runtime_new wasm_star, Some (of_nat (2 * (7 - d) + 1))))"
    unfolding call_space call_star space_value [OF n] star_value [OF n] d_def by simp_all
  have "d < 2 ^ 31" "2 * (7 - d) + 1 < 2 ^ 31" using n by (auto simp: d_def)
  note u = this [THEN small_as_usize]
  have "diamond_row 7 n = replicate d (CHR '' '') @ replicate (2 * (7 - d) + 1) (CHR ''*'')"
    by (simp add: diamond_row_def d_def)
  moreover have "wasm_rows (runtime_new wasm_space) (runtime_new wasm_star) (map of_nat ns) =
      Some (Inr (concat (map (\<lambda>n. diamond_row 7 n @ [CHR 0x0A]) ns)))"
    using Cons by simp
  ultimately show ?case
    by (simp only: list.map wasm_rows.simps calls bind_run_simps prod.case unwrap_or_zero_def option.case u
        concat.simps append_assoc)
qed simp

text \<open>
  C19: one turn of \<open>wasm_entry\<close> prints a diamond.  It runs to completion without a panic, and
  its output is a blank line, the 15 rows of the diamond of half-height 7, and a blank line.
\<close>

theorem wasm_entry_prints_diamond:
  "wasm_entry = Some (Inr ([CHR 0x0A] @ concat (map (\<lambda>n. diamond_row 7 n @ [CHR 0x0A]) [0..<15]) @ [CHR 0x0A]))"
proof -
  have "map word_of_int [0 .. sint diamond_size - 1] = (map of_nat [0..<15] :: i32 list)"
    by (simp add: diamond_size_def upto_rec1 upt_rec)
  then show ?thesis unfolding wasm_entry_def using diamond_rows [of "[0..<15]"] by simp
qed

section \<open>Which End belongs to an If\<close>

text \<open>How many blocks a piece of code leaves open.\<close>

fun nesting :: "Instruction list \<Rightarrow> int" where
  "nesting [] = 0"
| "nesting (If_block b # is) = nesting is + 1"
| "nesting (End # is) = nesting is - 1"
| "nesting (i # is) = nesting is"

text \<open>Position \<open>k\<close> is the first one that closes a block that was open before the code.\<close>

definition closes :: "nat \<Rightarrow> Instruction list \<Rightarrow> nat \<Rightarrow> bool" where
  "closes d is k \<longleftrightarrow> k < length is \<and> nesting (take (Suc k) is) = - int d - 1 \<and>
     (\<forall>j \<le> k. - int d - 1 < nesting (take j is))"

lemma closes_Cons:
  assumes "\<And>xs. nesting (i # xs) = nesting xs + c" "c = int d' - int d" "i \<noteq> End \<or> 0 < d"
  shows "closes d (i # is) k \<longleftrightarrow> (\<exists>k'. k = Suc k' \<and> closes d' is k')"
proof (cases k)
  case 0
  then show ?thesis using assms(1) [of "[]"] assms(2,3) by (cases i) (auto simp: closes_def)
next
  case (Suc k')
  have "(\<forall>j \<le> Suc k'. - int d - 1 < nesting (take j (i # is))) \<longleftrightarrow> (\<forall>j \<le> k'. - int d' - 1 < nesting (take j is))"
  proof
    assume a: "\<forall>j \<le> Suc k'. - int d - 1 < nesting (take j (i # is))"
    show "\<forall>j \<le> k'. - int d' - 1 < nesting (take j is)"
    proof (intro allI impI)
      fix j assume "j \<le> k'"
      then have "- int d - 1 < nesting (take (Suc j) (i # is))" using a by (auto simp del: take_Suc_Cons)
      then show "- int d' - 1 < nesting (take j is)" using assms(1,2) by simp
    qed
  next
    assume a: "\<forall>j \<le> k'. - int d' - 1 < nesting (take j is)"
    show "\<forall>j \<le> Suc k'. - int d - 1 < nesting (take j (i # is))"
    proof (intro allI impI)
      fix j assume "j \<le> Suc k'"
      then show "- int d - 1 < nesting (take j (i # is))" using a assms(1,2) by (cases j) auto
    qed
  qed
  then show ?thesis using Suc assms(1,2) by (auto simp: closes_def)
qed

lemma closes_if: "closes d (If_block b # is) k \<longleftrightarrow> (\<exists>k'. k = Suc k' \<and> closes (Suc d) is k')"
  by (rule closes_Cons [where c = 1]) simp_all

lemma closes_inner_end: "0 < d \<Longrightarrow> closes d (End # is) k \<longleftrightarrow> (\<exists>k'. k = Suc k' \<and> closes (d - 1) is k')"
  by (rule closes_Cons [where c = "-1"]) (simp_all add: of_nat_diff)

lemma closes_end: "closes 0 (End # is) k \<longleftrightarrow> k = 0"
proof
  assume "closes 0 (End # is) k"
  then have "\<forall>j \<le> k. - 1 < nesting (take j (End # is))" by (simp add: closes_def)
  then show "k = 0" by (cases k) (auto dest: spec [of _ 1])
qed (simp add: closes_def)

fun plain :: "Instruction \<Rightarrow> bool" where
  "plain (If_block b) = False"
| "plain End = False"
| "plain i = True"

lemma nesting_plain: "plain i \<Longrightarrow> nesting (i # xs) = nesting xs + 0"
  by (cases i) simp_all

lemma closes_plain: "plain i \<Longrightarrow> closes d (i # is) k \<longleftrightarrow> (\<exists>k'. k = Suc k' \<and> closes d is k')"
  by (rule closes_Cons [OF nesting_plain]) auto

lemma end_addr_plain: "plain i \<Longrightarrow> end_addr_from (i # is) pc d = end_addr_from is (Suc pc) d"
  by (cases i) simp_all

lemma shift_position: "(\<exists>k. e = Suc pc + k \<and> P k) \<longleftrightarrow> (\<exists>k. e = pc + k \<and> (\<exists>k'. k = Suc k' \<and> P k'))"
  by auto

lemma end_addr_closes: "end_addr_from is pc d = Inr e \<longleftrightarrow> (\<exists>k. e = pc + k \<and> closes d is k)"
proof (induction "is" arbitrary: pc d)
  case Nil
  show ?case by (simp add: closes_def)
next
  case (Cons i "is")
  consider (blk) b where "i = If_block b" | (fin) "i = End" | (plain) "plain i"
    by (cases i) simp_all
  then show ?case
  proof cases
    case blk
    show ?thesis unfolding blk end_addr_from.simps Cons.IH closes_if by (rule shift_position)
  next
    case fin
    show ?thesis
    proof (cases "d = 0")
      case True
      then show ?thesis unfolding fin by (auto simp: closes_end)
    next
      case False
      then have "end_addr_from (End # is) pc d = end_addr_from is (Suc pc) (d - 1)" "0 < d" by simp_all
      then show ?thesis unfolding fin by (simp only: Cons.IH closes_inner_end shift_position)
    qed
  next
    case plain
    show ?thesis unfolding end_addr_plain [OF plain] closes_plain [OF plain] Cons.IH by (rule shift_position)
  qed
qed

lemma end_addr_fails: "end_addr_from is pc d = Inl err \<Longrightarrow> err = Unwrap_failed"
  by (induction "is" pc d rule: end_addr_from.induct) (auto split: if_splits)

text \<open>
  C27: \<open>get_end_addr\<close> returns the matching \<open>End\<close> of a block and nothing else: its result is the
  first position after \<open>pc\<close> at which more blocks have been closed than opened.  Where there is
  no such position it panics; it never loops.
\<close>

theorem get_end_addr_matches:
  "(get_end_addr insts pc = Inr e \<longleftrightarrow> pc < e \<and> closes 0 (drop (Suc pc) insts) (e - Suc pc)) \<and>
   ((\<exists>e. get_end_addr insts pc = Inr e) \<or> get_end_addr insts pc = Inl Unwrap_failed)"
proof
  have "get_end_addr insts pc = Inr e \<longleftrightarrow> (\<exists>k. e = Suc pc + k \<and> closes 0 (drop (Suc pc) insts) k)"
    unfolding get_end_addr_def by (rule end_addr_closes)
  also have "\<dots> \<longleftrightarrow> pc < e \<and> closes 0 (drop (Suc pc) insts) (e - Suc pc)"
    by (auto intro!: exI [of _ "e - Suc pc"])
  finally show "get_end_addr insts pc = Inr e \<longleftrightarrow> pc < e \<and> closes 0 (drop (Suc pc) insts) (e - Suc pc)" .
  show "(\<exists>e. get_end_addr insts pc = Inr e) \<or> get_end_addr insts pc = Inl Unwrap_failed"
    using end_addr_fails [of "drop (Suc pc) insts" "Suc pc" 0] unfolding get_end_addr_def
    by (cases "end_addr_from (drop (Suc pc) insts) (Suc pc) 0") auto
qed

section \<open>Where the interpreter departs from WebAssembly\<close>

text \<open>A function with one parameter and one result.\<close>

definition unary_func :: "Instruction list \<Rightarrow> FuncInst" where
  "unary_func body = Internal \<lparr>func_type = \<lparr>params = [I32], results = [I32]\<rparr>,
     func_code = \<lparr>func_locals = [], func_body = body\<rparr>\<rparr>"

definition empty_if :: Runtime where
  "empty_if = runtime_new \<lparr>funcs = [unary_func
     [Const 7, LocalGet 0, If_block \<lparr>block_type = Void\<rparr>, End, Const 1, I32Add, End]]\<rparr>"

lemmas machine_defs = step_def vec_pop_def vec_get_def Let_def binary_def get_end_addr_def stack_unwind_def
  vec_drain_from_def push_frame_def

text \<open>
  A block that is skipped leaves its label behind.  The function computes \<open>7 + 1\<close> around
  an empty \<open>if\<close> block, so its argument should not matter; but when the condition is 0 the next
  \<open>End\<close> pops the stale label, jumps back and runs the code after the block a second time.
\<close>

lemma skipped_if_runs_code_twice:
  "call empty_if 0 [c] = Some (Inr (empty_if, Some (if c = 0 then 9 else 8)))"
  by (cases "c = 0")
    (simp_all add: call_def empty_if_def runtime_new_def unary_func_def invoke_def machine_defs execute.simps
      i32_chk_def in_i32_def)

definition successor :: "Instruction list \<Rightarrow> Runtime" where
  "successor tail = runtime_new \<lparr>funcs = [unary_func [LocalGet 0, Call 1, Const 1, I32Add, End],
     unary_func (LocalGet 0 # tail)]\<rparr>"

text \<open>
  Running off the end of a function ends the whole execution, not just the function.  The
  caller adds 1 to what the identity function returns.  With a final \<open>End\<close> in the identity
  the caller is resumed and the result is the successor; without it the result is the
  argument itself and both frames stay on the call stack.
\<close>

lemma callee_without_end_stops_caller:
  assumes "sint x < 2 ^ 31 - 1"
  shows "call (successor [End]) 0 [x] = Some (Inr (successor [End], Some (x + 1))) \<and>
    (\<exists>rt. call (successor []) 0 [x] = Some (Inr (rt, Some x)) \<and> length (rt_call_stack rt) = 2)"
proof
  have "in_i32 (sint x + 1)"
    using assms sint_greater_eq [of x] by (simp add: in_i32_def)
  then show "call (successor [End]) 0 [x] = Some (Inr (successor [End], Some (x + 1)))"
    by (simp add: call_def successor_def runtime_new_def unary_func_def invoke_def machine_defs execute.simps i32_chk_def)
  show "\<exists>rt. call (successor []) 0 [x] = Some (Inr (rt, Some x)) \<and> length (rt_call_stack rt) = 2"
    by (simp add: call_def successor_def runtime_new_def unary_func_def invoke_def machine_defs execute.simps)
qed

text \<open>
  The height that a stale label recorded may be higher than the stack is when a later \<open>End\<close>
  unwinds to it.  The code is valid WebAssembly and does nothing.
\<close>

definition two_ifs :: Runtime where
  "two_ifs = runtime_new \<lparr>funcs = [Internal \<lparr>func_type = \<lparr>params = [], results = []\<rparr>, func_code = \<lparr>func_locals = [],
     func_body = [Const 1, Const 0, If_block \<lparr>block_type = Void\<rparr>, End, If_block \<lparr>block_type = Void\<rparr>, End, End]\<rparr>\<rparr>]\<rparr>"

lemma stale_label_panics: "call two_ifs 0 [] = Some (Inl Index_out_of_bounds)"
  by (simp add: call_def two_ifs_def runtime_new_def invoke_def machine_defs execute.simps)

end
