(* ===== verification/X86.thy ===== *)
theory X86
  imports Memlayout
begin

text \<open>
  The part of the x86-64 machine that the assembly of the kernel uses: the general registers,
  \<open>RFLAGS\<close>, \<open>RIP\<close> and a memory of 8-byte cells.  All accesses of the modelled code are to
  8-byte aligned cells, so a cell is named by its address.  \<open>exec\<close> gives the effect of each
  instruction that occurs in \<open>switch_inner\<close> (\<open>kernel/src/task.rs\<close>), in the interrupt
  entry code (\<open>kernel/src/idt.rs\<close>) and in \<open>kernel_entry\<close> (\<open>kernel/src/main.rs\<close>), and the small
  wrappers of \<open>kernel/src/x86.rs\<close> follow.
\<close>

section \<open>Machine state and instructions\<close>

datatype reg = RAX | RCX | RDX | RBX | RSP | RBP | RSI | RDI
  | R8 | R9 | R10 | R11 | R12 | R13 | R14 | R15

record mach =
  regs :: "reg \<Rightarrow> u64"
  rflags :: u64
  rip :: u64
  mem :: "u64 \<Rightarrow> u64"

text \<open>
  \<open>Call ra f\<close> calls a compiled function: \<open>ra\<close> is the address of the next instruction and \<open>f\<close>
  the effect of the callee's body up to its \<open>ret\<close>.
\<close>

datatype instr =
    Push reg
  | Push_imm u64
  | Push_cell reg
  | Pop reg
  | Pushfq
  | Popfq
  | Store reg u64 reg
  | Load reg reg u64
  | Mov reg reg
  | Lea_label reg u64
  | And_imm reg u64
  | Add_imm reg u64
  | Call u64 "mach \<Rightarrow> mach"
  | Ret
  | Iretq

definition set_reg :: "reg \<Rightarrow> u64 \<Rightarrow> mach \<Rightarrow> mach" where
  "set_reg r v m = m\<lparr>regs := (regs m)(r := v)\<rparr>"

definition push_val :: "u64 \<Rightarrow> mach \<Rightarrow> mach" where
  "push_val v m =
     (let sp = regs m RSP - 8 in m\<lparr>regs := (regs m)(RSP := sp), mem := (mem m)(sp := v)\<rparr>)"

text \<open>The value on top of the stack, and the state without it.\<close>

definition top_val :: "mach \<Rightarrow> u64" where
  "top_val m = mem m (regs m RSP)"

definition drop_val :: "mach \<Rightarrow> mach" where
  "drop_val m = m\<lparr>regs := (regs m)(RSP := regs m RSP + 8)\<rparr>"

text \<open>\<open>pop rsp\<close> loads the popped value after the stack pointer has moved.\<close>

definition pop_reg :: "reg \<Rightarrow> mach \<Rightarrow> mach" where
  "pop_reg r m = set_reg r (top_val m) (drop_val m)"

definition ret :: "mach \<Rightarrow> mach" where
  "ret m = (drop_val m)\<lparr>rip := top_val m\<rparr>"

fun exec :: "instr \<Rightarrow> mach \<Rightarrow> mach" where
  "exec (Push r) m = push_val (regs m r) m"
| "exec (Push_imm v) m = push_val v m"
| "exec (Push_cell r) m = push_val (mem m (regs m r)) m"
| "exec (Pop r) m = pop_reg r m"
| "exec Pushfq m = push_val (rflags m) m"
| "exec Popfq m = (drop_val m)\<lparr>rflags := top_val m\<rparr>"
| "exec (Store b off r) m = m\<lparr>mem := (mem m)(regs m b + off := regs m r)\<rparr>"
| "exec (Load r b off) m = set_reg r (mem m (regs m b + off)) m"
| "exec (Mov d r) m = set_reg d (regs m r) m"
| "exec (Lea_label r a) m = set_reg r a m"
| "exec (And_imm r v) m = set_reg r (regs m r AND v) m"
| "exec (Add_imm r v) m = set_reg r (regs m r + v) m"
| "exec (Call ra f) m = ret (f (push_val ra m))"
| "exec Ret m = ret m"
| "exec Iretq m =
     (let sp = regs m RSP in
      m\<lparr>rip := mem m sp, rflags := mem m (sp + 16), regs := (regs m)(RSP := mem m (sp + 24))\<rparr>)"

definition run :: "instr list \<Rightarrow> mach \<Rightarrow> mach" where
  "run is m = fold exec is m"

lemma run_simps [simp]: "run [] m = m" "run (i # is) m = run is (exec i m)"
  by (simp_all add: run_def)

lemma run_append: "run (xs @ ys) m = run ys (run xs m)"
  by (simp add: run_def)

lemmas machine_simps = push_val_def top_val_def drop_val_def pop_reg_def set_reg_def ret_def Let_def

section \<open>Calling convention\<close>

text \<open>
  What the System V calling convention promises of a compiled function that is entered with
  the return address on top of the stack: it gives back the stack pointer and the
  callee-saved registers, and leaves the caller's part of the stack alone, which is described
  by the set of its cells.
\<close>

definition callee_saved :: "reg set" where
  "callee_saved = {RBX, RBP, RSP, R12, R13, R14, R15}"

definition abi :: "u64 set \<Rightarrow> (mach \<Rightarrow> mach) \<Rightarrow> mach \<Rightarrow> bool" where
  "abi cells f m \<longleftrightarrow> (\<forall>r \<in> callee_saved. regs (f m) r = regs m r) \<and> (\<forall>a \<in> cells. mem (f m) a = mem m a)"

lemma call_effect:
  assumes "abi cells f (push_val ra m)" "regs m RSP - 8 \<in> cells"
  defines "m' \<equiv> exec (Call ra f) m"
  shows "rip m' = ra" "\<And>r. r \<in> callee_saved \<Longrightarrow> regs m' r = regs m r"
    "\<And>a. a \<in> cells \<Longrightarrow> a \<noteq> regs m RSP - 8 \<Longrightarrow> mem m' a = mem m a"
proof -
  have sp: "regs (f (push_val ra m)) RSP = regs m RSP - 8"
    using assms(1) by (simp add: abi_def callee_saved_def machine_simps)
  then show "rip m' = ra" using assms(1,2) by (simp add: m'_def abi_def machine_simps)
  show "regs m' r = regs m r" if "r \<in> callee_saved" for r
    using assms(1) that sp by (auto simp: m'_def abi_def machine_simps callee_saved_def)
  show "mem m' a = mem m a" if "a \<in> cells" "a \<noteq> regs m RSP - 8" for a
    using assms(1) that by (simp add: m'_def abi_def machine_simps)
qed

section \<open>Wrappers of x86.rs\<close>

text \<open>The interrupt flag is bit 9 of \<open>RFLAGS\<close>.\<close>

definition disable_interrupts :: "mach \<Rightarrow> mach" where
  "disable_interrupts m = m\<lparr>rflags := unset_bit 9 (rflags m)\<rparr>"

definition enable_interrupts :: "mach \<Rightarrow> mach" where
  "enable_interrupts m = m\<lparr>rflags := set_bit 9 (rflags m)\<rparr>"

definition interrupts_enabled :: "mach \<Rightarrow> bool" where
  "interrupts_enabled m \<longleftrightarrow> bit (rflags m) 9"

text \<open>\<open>pushfq; pop\<close>: the flags pass through the cell below the stack pointer.\<close>

definition read_rflags :: "mach \<Rightarrow> mach \<times> u64" where
  "read_rflags m = (let m1 = run [Pushfq, Pop RAX] m in (m1, regs m1 RAX))"

text \<open>
  The functions of \<open>make_read_reg!\<close>: one \<open>mov\<close> into a register \<open>d\<close> that the compiler chooses.  The value
  of a control register, which \<open>mach\<close> does not have, and the address of the next instruction are
  arguments.
\<close>

definition read_reg :: "reg \<Rightarrow> reg \<Rightarrow> mach \<Rightarrow> mach \<times> u64" where
  "read_reg d r m = (let m1 = exec (Mov d r) m in (m1, regs m1 d))"

definition read_control :: "reg \<Rightarrow> u64 \<Rightarrow> mach \<Rightarrow> mach \<times> u64" where
  "read_control d cr m = (let m1 = set_reg d cr m in (m1, regs m1 d))"

definition read_rip :: "reg \<Rightarrow> u64 \<Rightarrow> mach \<Rightarrow> mach \<times> u64" where
  "read_rip d next m = (let m1 = exec (Lea_label d next) m in (m1, regs m1 d))"

lemma read_values:
  "snd (read_reg d r m) = regs m r" "snd (read_control d cr m) = cr" "snd (read_rip d next m) = next"
  "e \<noteq> d \<Longrightarrow> regs (fst (read_reg d r m)) e = regs m e"
  by (simp_all add: read_reg_def read_control_def read_rip_def machine_simps)

lemma interrupt_flag [simp]:
  "\<not> interrupts_enabled (disable_interrupts m)" "interrupts_enabled (enable_interrupts m)"
  by (simp_all add: interrupts_enabled_def disable_interrupts_def enable_interrupts_def bit_simps)

lemma read_rflags_value: "snd (read_rflags m) = rflags m"
  by (simp add: read_rflags_def machine_simps)

end
