(* ===== verification/Interrupt.thy ===== *)
theory Interrupt
  imports X86
begin

text \<open>
  The interrupt entry code of \<open>kernel/src/idt.rs\<close>: the stubs \<open>interrupt_entry_<n>\<close>, the
  common path that saves the registers, calls \<open>interrupt_handler\<close>, restores the registers,
  calls \<open>check_and_schedule\<close> and returns, and the frame that the handler reads.  The two
  compiled functions are parameters of the code; what is used of them is the calling
  convention \<open>abi\<close>.
\<close>

section \<open>Entry code\<close>

definition entry_without_ecode :: "u64 \<Rightarrow> instr list" where
  "entry_without_ecode index = [Push_imm 0, Push_imm index]"

definition entry_with_ecode :: "u64 \<Rightarrow> instr list" where
  "entry_with_ecode index = [Push_imm index]"

definition interrupt_entry :: "nat \<Rightarrow> instr list option" where
  "interrupt_entry n =
     (if n \<in> {3, 6, 42} then Some (entry_without_ecode (of_nat n))
      else if n \<in> {13, 14} then Some (entry_with_ecode (of_nat n))
      else None)"

definition save_registers :: "instr list" where
  "save_registers =
     [Push R15, Push R14, Push R13, Push R12, Push R11, Push R10, Push R9, Push R8, Push RDI, Push RSI,
      Push RBP, Push RSP, Push RBX, Push RDX, Push RCX, Push RAX]"

definition align_stack :: "instr list" where
  "align_stack = [Push RSP, Pop RDI, Push RSP, Push_cell RSP, And_imm RSP 0xFFFFFFFFFFFFFFF0]"

definition call_handler :: "u64 \<Rightarrow> (mach \<Rightarrow> mach) \<Rightarrow> instr list" where
  "call_handler ra handler = align_stack @ [Call ra handler, Load RSP RSP 8]"

definition restore_registers :: "instr list" where
  "restore_registers =
     [Pop RAX, Pop RCX, Pop RDX, Pop RBX, Pop RSP, Pop RBP, Pop RSI, Pop RDI, Pop R8, Pop R9, Pop R10,
      Pop R11, Pop R12, Pop R13, Pop R14, Pop R15, Add_imm RSP 0x10]"

definition interrupt_handler_common :: "u64 \<Rightarrow> (mach \<Rightarrow> mach) \<Rightarrow> u64 \<Rightarrow> (mach \<Rightarrow> mach) \<Rightarrow> instr list" where
  "interrupt_handler_common ra1 handler ra2 schedule =
     save_registers @ call_handler ra1 handler @ restore_registers @ [Call ra2 schedule, Iretq]"

section \<open>The frame as the handler sees it\<close>

record InterruptRegisters =
  ir_rax :: u64
  ir_rbx :: u64
  ir_rcx :: u64
  ir_rdx :: u64
  ir_rsi :: u64
  ir_rdi :: u64
  ir_rbp :: u64
  ir_rsp :: u64
  ir_r8 :: u64
  ir_r9 :: u64
  ir_r10 :: u64
  ir_r11 :: u64
  ir_r12 :: u64
  ir_r13 :: u64
  ir_r14 :: u64
  ir_r15 :: u64

record InterruptContext =
  ic_rip :: u64
  ic_cs :: u64
  ic_rflags :: u64
  ic_rsp :: u64
  ic_ss :: u64

record InterruptStackFrame =
  registers :: InterruptRegisters
  vector :: u64
  error_code :: u64
  int_context :: InterruptContext

text \<open>Reading the \<open>repr(C)\<close> structures through a pointer.\<close>

definition registers_at :: "(u64 \<Rightarrow> u64) \<Rightarrow> u64 \<Rightarrow> InterruptRegisters" where
  "registers_at M a =
     \<lparr>ir_rax = M a, ir_rbx = M (a + 0x8), ir_rcx = M (a + 0x10), ir_rdx = M (a + 0x18), ir_rsi = M (a + 0x20),
      ir_rdi = M (a + 0x28), ir_rbp = M (a + 0x30), ir_rsp = M (a + 0x38), ir_r8 = M (a + 0x40),
      ir_r9 = M (a + 0x48), ir_r10 = M (a + 0x50), ir_r11 = M (a + 0x58), ir_r12 = M (a + 0x60),
      ir_r13 = M (a + 0x68), ir_r14 = M (a + 0x70), ir_r15 = M (a + 0x78)\<rparr>"

definition context_frame_at :: "(u64 \<Rightarrow> u64) \<Rightarrow> u64 \<Rightarrow> InterruptContext" where
  "context_frame_at M a =
     \<lparr>ic_rip = M a, ic_cs = M (a + 0x8), ic_rflags = M (a + 0x10), ic_rsp = M (a + 0x18), ic_ss = M (a + 0x20)\<rparr>"

definition frame_at :: "(u64 \<Rightarrow> u64) \<Rightarrow> u64 \<Rightarrow> InterruptStackFrame" where
  "frame_at M a =
     \<lparr>registers = registers_at M a, vector = M (a + 0x80), error_code = M (a + 0x88),
      int_context = context_frame_at M (a + 0x90)\<rparr>"

section \<open>Saving and restoring\<close>

text \<open>The registers in the order of their cells, lowest first, for a stack pointer \<open>sp\<close> before the pushes.\<close>

definition saved_image :: "mach \<Rightarrow> (u64 \<Rightarrow> u64) \<Rightarrow> u64 \<Rightarrow> bool" where
  "saved_image m M b \<longleftrightarrow>
     M b = regs m RAX \<and> M (b + 0x8) = regs m RCX \<and> M (b + 0x10) = regs m RDX \<and> M (b + 0x18) = regs m RBX \<and>
     M (b + 0x20) = b + 0x28 \<and> M (b + 0x28) = regs m RBP \<and> M (b + 0x30) = regs m RSI \<and> M (b + 0x38) = regs m RDI \<and>
     M (b + 0x40) = regs m R8 \<and> M (b + 0x48) = regs m R9 \<and> M (b + 0x50) = regs m R10 \<and> M (b + 0x58) = regs m R11 \<and>
     M (b + 0x60) = regs m R12 \<and> M (b + 0x68) = regs m R13 \<and> M (b + 0x70) = regs m R14 \<and> M (b + 0x78) = regs m R15"

definition saved_cells :: "u64 \<Rightarrow> u64 set" where
  "saved_cells b = {b, b + 0x8, b + 0x10, b + 0x18, b + 0x20, b + 0x28, b + 0x30, b + 0x38,
     b + 0x40, b + 0x48, b + 0x50, b + 0x58, b + 0x60, b + 0x68, b + 0x70, b + 0x78}"

lemma save_registers_effect:
  fixes m :: mach
  defines "m' \<equiv> run save_registers m" and "b \<equiv> regs m RSP - 0x80"
  shows "regs m' RSP = b" "saved_image m (mem m') b" "\<And>r. r \<noteq> RSP \<Longrightarrow> regs m' r = regs m r"
    "\<And>a. a \<notin> saved_cells b \<Longrightarrow> mem m' a = mem m a" "rflags m' = rflags m"
  by (simp_all add: m'_def b_def save_registers_def machine_simps saved_image_def saved_cells_def)

lemma saved_image_cong:
  "saved_image m M b \<Longrightarrow> (\<And>a. a \<in> saved_cells b \<Longrightarrow> M' a = M a) \<Longrightarrow> saved_image m M' b"
  by (simp add: saved_image_def saved_cells_def)

lemma restore_registers_effect:
  assumes "saved_image m0 (mem m) b" "regs m RSP = b"
  defines "m' \<equiv> run restore_registers m"
  shows "regs m' RSP = b + 0x90" "\<And>r. r \<noteq> RSP \<Longrightarrow> regs m' r = regs m0 r" "mem m' = mem m"
proof -
  show "regs m' RSP = b + 0x90" "mem m' = mem m"
    using assms(1,2) by (simp_all add: m'_def restore_registers_def machine_simps saved_image_def ac_simps)
  show "regs m' r = regs m0 r" if "r \<noteq> RSP" for r
    using assms(1,2) that by (cases r) (simp_all add: m'_def restore_registers_def machine_simps saved_image_def ac_simps)
qed

text \<open>The stack pointer is moved down to a multiple of 16; the saved pointer is found from either position.\<close>

lemma align_16:
  fixes a :: u64
  assumes "8 dvd unat a"
  shows "a AND 0xFFFFFFFFFFFFFFF0 = a \<or> a AND 0xFFFFFFFFFFFFFFF0 = a - 8"
proof -
  have m: "(0xFFFFFFFFFFFFFFF0 :: u64) = NOT (mask 4)" by (simp add: mask_eq_exp_minus_1)
  have e: "unat (a AND 0xFFFFFFFFFFFFFFF0) = unat a - unat a mod 16"
    unfolding m using unat_and_not_mask [of a 4] by simp
  obtain k where k: "unat a = 8 * k" using assms by blast
  show ?thesis
  proof (cases "even k")
    case True
    then have "unat a mod 16 = 0" using k by (auto elim!: evenE)
    then have "unat (a AND 0xFFFFFFFFFFFFFFF0) = unat a" using e by simp
    then have "a AND 0xFFFFFFFFFFFFFFF0 = a" by (simp only: word_unat_eq_iff)
    then show ?thesis ..
  next
    case False
    then obtain j where j: "k = 2 * j + 1" by (auto elim!: oddE)
    then have "unat a mod 16 = 8" "8 \<le> unat a" using k by (simp_all add: mod_mult_self4)
    moreover from this have "unat (a - 8) = unat a - 8" by (subst unat_sub) (simp_all add: word_le_nat_alt)
    ultimately have "unat (a AND 0xFFFFFFFFFFFFFFF0) = unat (a - 8)" using e by simp
    then have "a AND 0xFFFFFFFFFFFFFFF0 = a - 8" by (simp only: word_unat_eq_iff)
    then show ?thesis ..
  qed
qed

text \<open>The cells of the caller that the handler must not touch: the saved registers and the two copies of the stack pointer.\<close>

definition protected_cells :: "u64 \<Rightarrow> u64 set" where
  "protected_cells b = saved_cells b \<union> {b - 8, b - 16, b - 24, b - 32}"

lemma align_effect:
  assumes "regs m RSP = b" "8 dvd unat b" "0x200 \<le> unat b"
  defines "m' \<equiv> run align_stack m"
  shows "regs m' RDI = b" "mem m' (b - 8) = b" "mem m' (b - 16) = b" "regs m' RSP = b - 16 \<or> regs m' RSP = b - 24"
    "\<And>a. a \<noteq> b - 8 \<Longrightarrow> a \<noteq> b - 16 \<Longrightarrow> mem m' a = mem m a" "\<And>r. r \<noteq> RSP \<Longrightarrow> r \<noteq> RDI \<Longrightarrow> regs m' r = regs m r"
proof -
  have "unat (b - 16) = unat b - 16" using assms(3) by (subst unat_sub) (simp_all add: word_le_nat_alt)
  then have "8 dvd unat (b - 16)" using assms(2,3) by simp
  from align_16 [OF this] show "regs m' RSP = b - 16 \<or> regs m' RSP = b - 24"
    using assms(1) by (auto simp: m'_def align_stack_def machine_simps)
qed (use assms(1) in \<open>simp_all add: m'_def align_stack_def machine_simps\<close>)

lemma call_handler_effect:
  assumes sp: "regs m RSP = b" "8 dvd unat b" "0x200 \<le> unat b"
    and abi: "abi (protected_cells b) handler (push_val ra (run align_stack m))"
  defines "m' \<equiv> run (call_handler ra handler) m"
  shows "regs m' RSP = b" "\<And>a. a \<in> saved_cells b \<Longrightarrow> mem m' a = mem m a"
proof -
  define m1 where "m1 = run align_stack m"
  note al = align_effect [OF sp, folded m1_def]
  have in1: "regs m1 RSP - 8 \<in> protected_cells b" using al(4) by (auto simp: protected_cells_def)
  note c = call_effect [OF abi [folded m1_def] in1]
  have m': "m' = exec (Load RSP RSP 8) (exec (Call ra handler) m1)"
    by (simp add: m'_def m1_def call_handler_def run_append)
  have same: "mem m1 (regs m1 RSP + 8) = b" "regs m1 RSP + 8 \<in> protected_cells b" "regs m1 RSP + 8 \<noteq> regs m1 RSP - 8"
    using al(2-4) by (auto simp: protected_cells_def)
  have "regs (exec (Call ra handler) m1) RSP = regs m1 RSP" by (rule c(2)) (simp add: callee_saved_def)
  then show "regs m' RSP = b" unfolding m' using c(3) [OF same(2,3)] same(1) by (simp add: set_reg_def)
  show "mem m' a = mem m a" if "a \<in> saved_cells b" for a
  proof -
    have "a \<in> protected_cells b" "a \<noteq> regs m1 RSP - 8" "a \<noteq> b - 8" "a \<noteq> b - 16"
      using that al(4) by (auto simp: protected_cells_def saved_cells_def)
    then show ?thesis unfolding m' using c(3) al(5) by (simp add: set_reg_def)
  qed
qed

section \<open>Properties\<close>


text \<open>
  The register part of the frame does not match the order in which the entry code pushes
  the registers: the fields for \<open>rbx\<close>, \<open>rcx\<close>, \<open>rdx\<close>, \<open>rsi\<close>, \<open>rdi\<close>, \<open>rbp\<close> and \<open>rsp\<close> show other
  registers; only \<open>rax\<close> and \<open>r8\<close> to \<open>r15\<close> are right.
\<close>

lemma interrupt_registers_permuted:
  "let m' = run (save_registers @ align_stack) m in
   registers (frame_at (mem m') (regs m' RDI)) =
     \<lparr>ir_rax = regs m RAX, ir_rbx = regs m RCX, ir_rcx = regs m RDX, ir_rdx = regs m RBX,
      ir_rsi = regs m RSP - 0x58, ir_rdi = regs m RBP, ir_rbp = regs m RSI, ir_rsp = regs m RDI,
      ir_r8 = regs m R8, ir_r9 = regs m R9, ir_r10 = regs m R10, ir_r11 = regs m R11,
      ir_r12 = regs m R12, ir_r13 = regs m R13, ir_r14 = regs m R14, ir_r15 = regs m R15\<rparr>"
  by (simp add: save_registers_def align_stack_def machine_simps frame_at_def registers_at_def)

text \<open>The machine when \<open>interrupt_handler\<close> is entered.\<close>

abbreviation at_handler :: "u64 \<Rightarrow> mach \<Rightarrow> mach" where
  "at_handler ra m \<equiv> push_val ra (run align_stack (run save_registers m))"

lemma registers_restored:
  assumes sp: "8 dvd unat (regs m RSP)" "0x280 \<le> unat (regs m RSP)"
    and abi: "abi (protected_cells (regs m RSP - 0x80)) handler (at_handler ra m)"
  defines "m' \<equiv> run (save_registers @ call_handler ra handler @ restore_registers) m"
  shows "\<And>r. r \<noteq> RSP \<Longrightarrow> regs m' r = regs m r" "regs m' RSP = regs m RSP + 0x10"
    "mem m' = mem (run (call_handler ra handler) (run save_registers m))"
proof -
  let ?b = "regs m RSP - 0x80"
  define m1 where "m1 = run save_registers m"
  define m2 where "m2 = run (call_handler ra handler) m1"
  have m': "m' = run restore_registers m2" by (simp add: m'_def m2_def m1_def run_append)
  note s = save_registers_effect [where m = m, folded m1_def]
  have ub: "unat ?b = unat (regs m RSP) - 0x80" using sp(2) by (subst unat_sub) (simp_all add: word_le_nat_alt)
  have b: "8 dvd unat ?b" "0x200 \<le> unat ?b" unfolding ub using sp by simp_all
  note c = call_handler_effect [OF s(1) b abi [folded m1_def], folded m2_def]
  have "saved_image m (mem m2) ?b" by (rule saved_image_cong [OF s(2)]) (rule c(2))
  note r = restore_registers_effect [OF this c(1), folded m']
  show "\<And>r. r \<noteq> RSP \<Longrightarrow> regs m' r = regs m r" by (rule r(2))
  show "regs m' RSP = regs m RSP + 0x10" using r(1) by simp
  show "mem m' = mem (run (call_handler ra handler) (run save_registers m))" using r(3) by (simp add: m2_def m1_def)
qed


definition example_interrupted :: mach where
  "example_interrupted = \<lparr>regs = (\<lambda>_. 5)(RSP := 0x8008, RCX := 0xC), rflags = 0x202, rip = 0, mem = (\<lambda>_. 0)\<rparr>"


text \<open>The cells of the interrupt context, above the vector and the error code.\<close>

definition interrupt_cells :: "u64 \<Rightarrow> u64 set" where
  "interrupt_cells sp = {sp + 0x10, sp + 0x18, sp + 0x20, sp + 0x28, sp + 0x30}"

lemma call_handler_keeps:
  assumes sp: "regs m RSP = b" "8 dvd unat b" "0x200 \<le> unat b"
    and abi: "abi (protected_cells b \<union> cells) handler (push_val ra (run align_stack m))"
    and a: "a \<in> cells" "a \<notin> {b - 8, b - 16, b - 24, b - 32}"
  shows "mem (run (call_handler ra handler) m) a = mem m a"
proof -
  define m1 where "m1 = run align_stack m"
  note al = align_effect [OF sp, folded m1_def]
  have "regs m1 RSP - 8 \<in> protected_cells b \<union> cells" using al(4) by (auto simp: protected_cells_def)
  note c = call_effect [OF abi [folded m1_def] this]
  have "a \<noteq> regs m1 RSP - 8" "a \<noteq> b - 8" "a \<noteq> b - 16" using a(2) al(4) by auto
  then show ?thesis using c(3) [of a] al(5) a(1) by (simp add: call_handler_def run_append m1_def [symmetric] set_reg_def)
qed

text \<open>
  C40: the call of \<open>check_and_schedule\<close> comes after the registers have been restored, so an
  interrupt is not transparent: a compiled scheduler that keeps the calling convention may
  leave any value in \<open>rax\<close>, and the interrupted program resumes, at its own instruction, with
  that value.
\<close>

theorem interrupt_may_clobber_rax:
  assumes sp: "8 dvd unat (regs m RSP)" "0x280 \<le> unat (regs m RSP)"
    and abi: "abi (protected_cells (regs m RSP - 0x80) \<union> interrupt_cells (regs m RSP)) handler (at_handler ra m)"
  shows "\<exists>schedule. (\<forall>cells n. abi cells schedule n) \<and>
    (let m' = run (interrupt_handler_common ra handler ra2 schedule) m in
     rip m' = mem m (regs m RSP + 0x10) \<and> rflags m' = mem m (regs m RSP + 0x20) \<and>
     regs m' RSP = mem m (regs m RSP + 0x28) \<and> regs m' RBX = regs m RBX \<and> regs m' RAX = v)"
proof -
  let ?sp = "regs m RSP" and ?b = "regs m RSP - 0x80"
  define m2 where "m2 = run (save_registers @ call_handler ra handler @ restore_registers) m"
  have abi1: "abi (protected_cells ?b) handler (at_handler ra m)" using abi by (auto simp: abi_def)
  note r = registers_restored [OF sp abi1, folded m2_def]
  note s = save_registers_effect [where m = m]
  have ub: "unat ?b = unat ?sp - 0x80" using sp(2) by (subst unat_sub) (simp_all add: word_le_nat_alt)
  have b: "8 dvd unat ?b" "0x200 \<le> unat ?b" unfolding ub using sp by simp_all
  have ctx: "mem m2 a = mem m a" if "a \<in> interrupt_cells ?sp" for a
  proof -
    have "a \<notin> {?b - 8, ?b - 16, ?b - 24, ?b - 32}" "a \<notin> saved_cells ?b"
      using that by (auto simp: interrupt_cells_def saved_cells_def)
    then show ?thesis using call_handler_keeps [OF s(1) b abi that] s(4) r(3) by simp
  qed
  have cells: "?sp + 0x10 \<in> interrupt_cells ?sp" "?sp + 0x20 \<in> interrupt_cells ?sp" "?sp + 0x28 \<in> interrupt_cells ?sp"
    by (simp_all add: interrupt_cells_def)
  let ?sch = "set_reg RAX v"
  define m3 where "m3 = exec (Call ra2 ?sch) m2"
  have m3: "regs m3 = (regs m2)(RAX := v)" "mem m3 = (mem m2)(?sp + 8 := ra2)"
    using r(2) by (auto simp: m3_def machine_simps)
  have sp3: "regs m3 RSP = ?sp + 0x10" "regs m3 RSP + 16 = ?sp + 0x20" "regs m3 RSP + 24 = ?sp + 0x28"
    using m3(1) r(2) by simp_all
  have "?sp + 0x10 \<noteq> ?sp + 8" "?sp + 0x20 \<noteq> ?sp + 8" "?sp + 0x28 \<noteq> ?sp + 8" by simp_all
  then have vals: "mem m3 (?sp + 0x10) = mem m (?sp + 0x10)" "mem m3 (?sp + 0x20) = mem m (?sp + 0x20)"
    "mem m3 (?sp + 0x28) = mem m (?sp + 0x28)"
    unfolding m3(2) using ctx [OF cells(1)] ctx [OF cells(2)] ctx [OF cells(3)] by simp_all
  have "run (interrupt_handler_common ra handler ra2 ?sch) m = exec Iretq m3"
    by (simp add: interrupt_handler_common_def m2_def m3_def run_append)
  moreover have "rip (exec Iretq m3) = mem m (?sp + 0x10)" "rflags (exec Iretq m3) = mem m (?sp + 0x20)"
    "regs (exec Iretq m3) RSP = mem m (?sp + 0x28)"
    using vals unfolding sp3 [symmetric] by (simp_all add: Let_def)
  moreover have "regs (exec Iretq m3) RBX = regs m RBX" "regs (exec Iretq m3) RAX = v"
    using m3(1) r(1) [of RBX] by (simp_all add: Let_def)
  moreover have "\<forall>cells n. abi cells ?sch n" by (simp add: abi_def set_reg_def callee_saved_def)
  ultimately show ?thesis by (intro exI [of _ ?sch]) (simp only: Let_def simp_thms)
qed

theorem interrupt_may_clobber_rax_witness:
  "\<exists>schedule. regs (run (interrupt_handler_common 0x77 id 0x88 schedule) example_interrupted) RAX = 0xBAD"
proof -
  have "\<exists>schedule. (\<forall>cells n. abi cells schedule n) \<and>
    (let m' = run (interrupt_handler_common 0x77 id 0x88 schedule) example_interrupted in
     rip m' = mem example_interrupted (regs example_interrupted RSP + 0x10) \<and>
     rflags m' = mem example_interrupted (regs example_interrupted RSP + 0x20) \<and>
     regs m' RSP = mem example_interrupted (regs example_interrupted RSP + 0x28) \<and>
     regs m' RBX = regs example_interrupted RBX \<and> regs m' RAX = 0xBAD)"
    by (rule interrupt_may_clobber_rax) (simp_all add: example_interrupted_def abi_def)
  then show ?thesis unfolding Let_def by blast
qed

end
