(* ===== verification/Context_Switch.thy ===== *)
theory Context_Switch
  imports X86
begin

text \<open>
  The context switch of \<open>kernel/src/task.rs\<close>: the assembly of \<open>switch_inner\<close> with the effect of its
  two halves, and the first context of a new task.  That every task resumes where it was is
  shown in \<open>Multitasking\<close>.
\<close>

section \<open>Contexts in memory\<close>

text \<open>\<open>repr(C)\<close>: the fields are consecutive cells in this order.\<close>

record TaskContext =
  ctx_rbx :: u64
  ctx_rbp :: u64
  ctx_r12 :: u64
  ctx_r13 :: u64
  ctx_r14 :: u64
  ctx_r15 :: u64
  ctx_rsp :: u64
  ctx_rflags :: u64

definition context_default :: TaskContext where
  "context_default = \<lparr>ctx_rbx = 0, ctx_rbp = 0, ctx_r12 = 0, ctx_r13 = 0, ctx_r14 = 0, ctx_r15 = 0,
     ctx_rsp = 0, ctx_rflags = 0\<rparr>"

definition context_at :: "(u64 \<Rightarrow> u64) \<Rightarrow> u64 \<Rightarrow> TaskContext" where
  "context_at M a = \<lparr>ctx_rbx = M a, ctx_rbp = M (a + 0x8), ctx_r12 = M (a + 0x10), ctx_r13 = M (a + 0x18),
     ctx_r14 = M (a + 0x20), ctx_r15 = M (a + 0x28), ctx_rsp = M (a + 0x30), ctx_rflags = M (a + 0x38)\<rparr>"

definition context_cells :: "u64 \<Rightarrow> u64 set" where
  "context_cells a = {a, a + 0x8, a + 0x10, a + 0x18, a + 0x20, a + 0x28, a + 0x30, a + 0x38}"

section \<open>switch\_inner\<close>

definition save_code :: "u64 \<Rightarrow> instr list" where
  "save_code label =
    [Lea_label RAX label,
     Push RAX,
     Pushfq,
     Pop RAX,
     Store RDI 0x38 RAX,
     Store RDI 0x0 RBX,
     Store RDI 0x8 RBP,
     Store RDI 0x10 R12,
     Store RDI 0x18 R13,
     Store RDI 0x20 R14,
     Store RDI 0x28 R15,
     Store RDI 0x30 RSP]"

definition restore_code :: "instr list" where
  "restore_code =
    [Load RBX RSI 0x0,
     Load RBP RSI 0x8,
     Load R12 RSI 0x10,
     Load R13 RSI 0x18,
     Load R14 RSI 0x20,
     Load R15 RSI 0x28,
     Load RSP RSI 0x30,
     Load RAX RSI 0x38,
     Push RAX,
     Popfq,
     Ret]"

text \<open>\<open>label\<close> is the address of \<open>2:\<close>, where a resumed task executes one more \<open>ret\<close>.\<close>

definition switch_inner :: "u64 \<Rightarrow> mach \<Rightarrow> mach" where
  "switch_inner label m =
     (let m1 = run (save_code label @ restore_code) m in if rip m1 = label then exec Ret m1 else m1)"

section \<open>The first context of a task\<close>

definition KERNEL_STACK_SIZE :: usize where
  "KERNEL_STACK_SIZE = 4096 * 4"

text \<open>Pointer arithmetic on \<open>*mut u64\<close> counts in units of 8 bytes.\<close>

definition push_stack :: "(u64 \<Rightarrow> u64) \<Rightarrow> u64 \<Rightarrow> u64 \<Rightarrow> (u64 \<Rightarrow> u64) \<times> u64" where
  "push_stack M rsp v = (let rsp1 = rsp - 8 * 1 in (M(rsp1 := v), rsp1))"

definition setup_initial_call :: "(u64 \<Rightarrow> u64) \<Rightarrow> TaskContext \<Rightarrow> u64 \<Rightarrow> u64 \<Rightarrow> (u64 \<Rightarrow> u64) \<times> TaskContext" where
  "setup_initial_call M ctx kstack func =
     (let stack_top = kstack + 8 * KERNEL_STACK_SIZE;
          (M1, stack_top1) = push_stack M stack_top func
      in (M1, ctx\<lparr>ctx_rsp := stack_top1, ctx_rflags := 0x202\<rparr>))"

section \<open>What the two halves do\<close>

lemma context_cells_mem [simp]:
  "a \<in> context_cells a" "a + 0x8 \<in> context_cells a" "a + 0x10 \<in> context_cells a" "a + 0x18 \<in> context_cells a"
  "a + 0x20 \<in> context_cells a" "a + 0x28 \<in> context_cells a" "a + 0x30 \<in> context_cells a" "a + 0x38 \<in> context_cells a"
  by (simp_all add: context_cells_def)

lemma context_at_cong: "(\<And>x. x \<in> context_cells a \<Longrightarrow> M x = M' x) \<Longrightarrow> context_at M a = context_at M' a"
  by (simp add: context_at_def)

text \<open>The cells of the stack that \<open>switch_inner\<close> uses, from the return address down.\<close>

definition stack_cells :: "u64 \<Rightarrow> u64 set" where
  "stack_cells sp = {sp, sp - 8, sp - 16}"

lemma save_effect:
  fixes m :: mach and label :: u64
  assumes "context_cells (regs m RDI) \<inter> stack_cells (regs m RSP) = {}"
  defines "m' \<equiv> run (save_code label) m"
  shows "context_at (mem m') (regs m RDI) =
      \<lparr>ctx_rbx = regs m RBX, ctx_rbp = regs m RBP, ctx_r12 = regs m R12, ctx_r13 = regs m R13,
       ctx_r14 = regs m R14, ctx_r15 = regs m R15, ctx_rsp = regs m RSP - 8, ctx_rflags = rflags m\<rparr>"
    "mem m' (regs m RSP - 8) = label"
    "\<And>a. a \<notin> context_cells (regs m RDI) \<Longrightarrow> a \<noteq> regs m RSP - 8 \<Longrightarrow> a \<noteq> regs m RSP - 16 \<Longrightarrow> mem m' a = mem m a"
    "regs m' RSI = regs m RSI"
  using assms
  by (simp_all add: save_code_def machine_simps context_at_def context_cells_def stack_cells_def)

lemma restore_effect:
  fixes m :: mach
  defines "c \<equiv> context_at (mem m) (regs m RSI)" and "m' \<equiv> run restore_code m"
  shows "regs m' RBX = ctx_rbx c" "regs m' RBP = ctx_rbp c" "regs m' R12 = ctx_r12 c" "regs m' R13 = ctx_r13 c"
    "regs m' R14 = ctx_r14 c" "regs m' R15 = ctx_r15 c" "regs m' RSP = ctx_rsp c + 8" "rflags m' = ctx_rflags c"
    "rip m' = mem m (ctx_rsp c)" "mem m' = (mem m)(ctx_rsp c - 8 := ctx_rflags c)"
  by (simp_all add: c_def m'_def restore_code_def machine_simps context_at_def)

section \<open>Properties\<close>

text \<open>
  C39: the first switch to a new task enters its function with interrupts enabled and the
  stack pointer at the top that \<open>setup_initial_call\<close> computed; but this top is counted in
  8-byte words, so it lies far outside the task's own stack: the word that is written there,
  and everything the task pushes afterwards, is in memory that belongs to something else.
\<close>

theorem fresh_task_starts_outside_its_stack:
  assumes init: "setup_initial_call M context_default kstack func = (M1, ctx)"
    and ctx: "context_at (mem (run (save_code label) m)) (regs (run (save_code label) m) RSI) = ctx"
    and stack: "mem (run (save_code label) m) (ctx_rsp ctx) = M1 (ctx_rsp ctx)"
    and func: "func \<noteq> label" and base: "unat kstack + 0x20000 < 2 ^ 64"
  shows "rip (switch_inner label m) = func \<and> bit (rflags (switch_inner label m)) 9 \<and>
    regs (switch_inner label m) RSP = kstack + 0x20000 \<and>
    unat kstack + unat KERNEL_STACK_SIZE \<le> unat (ctx_rsp ctx)"
proof -
  have c: "ctx_rsp ctx = kstack + 0x1FFF8" "ctx_rflags ctx = 0x202" "M1 (ctx_rsp ctx) = func"
    using init by (auto simp: setup_initial_call_def push_stack_def KERNEL_STACK_SIZE_def Let_def)
  note r = restore_effect [of "run (save_code label) m", unfolded ctx]
  have "rip (run restore_code (run (save_code label) m)) = func" using r(9) stack c(3) by simp
  then have "switch_inner label m = run restore_code (run (save_code label) m)"
    using func by (simp add: switch_inner_def run_append Let_def)
  moreover have "unat (kstack + 0x1FFF8) = unat kstack + 0x1FFF8" using base by (subst unat_add_no_wrap) simp_all
  ultimately show ?thesis using r(7-9) c stack by (simp add: bit_numeral_rec KERNEL_STACK_SIZE_def)
qed

theorem fresh_task_starts_outside_its_stack_witness:
  "\<exists>m label. rip (switch_inner label m) = 0x4000 \<and> regs (switch_inner label m) RSP = 0x10000 + 0x20000"
proof -
  define M1 where "M1 = ((\<lambda>_. 0) :: u64 \<Rightarrow> u64)(0x2FFF8 := 0x4000)"
  define m where "m = \<lparr>regs = (\<lambda>_. 0)(RDI := 0x1000, RSI := 0x2000, RSP := 0x8000), rflags = 0, rip = 0,
     mem = M1(0x2030 := 0x2FFF8, 0x2038 := 0x202)\<rparr>"
  have "rip (switch_inner 0x5555 m) = 0x4000 \<and> bit (rflags (switch_inner 0x5555 m)) 9 \<and>
    regs (switch_inner 0x5555 m) RSP = 0x10000 + 0x20000 \<and>
    unat (0x10000 :: u64) + unat KERNEL_STACK_SIZE \<le>
      unat (ctx_rsp (context_default\<lparr>ctx_rsp := 0x2FFF8, ctx_rflags := 0x202\<rparr>))"
    by (rule fresh_task_starts_outside_its_stack [of "\<lambda>_. 0" _ _ M1])
      (simp_all add: M1_def m_def save_code_def machine_simps context_at_def setup_initial_call_def push_stack_def
        KERNEL_STACK_SIZE_def context_default_def)
  then show ?thesis by blast
qed

end
