(* ===== verification/Task.thy ===== *)
theory Task
  imports Paging Spin Context_Switch
begin

text \<open>
  Tasks and the scheduler (\<open>kernel/src/task.rs\<close>).  A shared \<open>Arc<SpinLock<Task>>\<close> is an
  identifier into a store of locks, so that two handles to one task are equal identifiers.
  The state also holds the CPU's interrupt flag, which every lock and unlock changes, the
  page-table memory, and the 8-byte cells of the task stacks.  The memory of the \<open>Arc\<close>s and of
  the task vector is not drawn from the modelled heap.
\<close>

section \<open>State\<close>

datatype PId = PId (pid_u32: u32)

definition pid_add_assign :: "PId \<Rightarrow> usize \<Rightarrow> PId outcome" where
  "pid_add_assign p rhs = bind_out (add_chk (pid_u32 p) (word_of_int (uint rhs))) (\<lambda>v. Inr (PId v))"

datatype TaskState = Runnable | Stopped

record Task =
  task_pid :: PId
  task_state :: TaskState
  task_running :: bool
  task_context :: TaskContext
  task_page_table :: "usize option"
  task_kernel_stack :: "usize option"

type_synonym tid = nat

record kernel =
  k_tasks :: "tid list SpinLock"
  k_store :: "tid \<Rightarrow> Task SpinLock option"
  k_next_tid :: tid
  k_current :: "tid option SpinLock"
  k_ticks :: usize
  k_pid :: u32
  k_if :: bool
  k_mem :: kmem
  k_words :: "u64 \<Rightarrow> u64"

section \<open>Locking\<close>

definition tasks_lock :: "kernel \<Rightarrow> kernel outcome" where
  "tasks_lock k = bind_out (spin_lock (k_if k) (k_tasks k)) (\<lambda>(i, l). Inr (k\<lparr>k_if := i, k_tasks := l\<rparr>))"

definition tasks_unlock :: "kernel \<Rightarrow> kernel" where
  "tasks_unlock k = (let (i, l) = guard_drop (k_if k) (k_tasks k) in k\<lparr>k_if := i, k_tasks := l\<rparr>)"

definition current_lock :: "kernel \<Rightarrow> kernel outcome" where
  "current_lock k = bind_out (spin_lock (k_if k) (k_current k)) (\<lambda>(i, l). Inr (k\<lparr>k_if := i, k_current := l\<rparr>))"

definition current_unlock :: "kernel \<Rightarrow> kernel" where
  "current_unlock k = (let (i, l) = guard_drop (k_if k) (k_current k) in k\<lparr>k_if := i, k_current := l\<rparr>)"

definition task_lock :: "tid \<Rightarrow> kernel \<Rightarrow> kernel outcome" where
  "task_lock t k =
     (case k_store k t of None \<Rightarrow> Inl Bad_pointer
      | Some l \<Rightarrow> bind_out (spin_lock (k_if k) l) (\<lambda>(i, l1). Inr (k\<lparr>k_if := i, k_store := (k_store k)(t \<mapsto> l1)\<rparr>)))"

definition task_unlock :: "tid \<Rightarrow> kernel \<Rightarrow> kernel" where
  "task_unlock t k =
     (case k_store k t of None \<Rightarrow> k
      | Some l \<Rightarrow> let (i, l1) = guard_drop (k_if k) l in k\<lparr>k_if := i, k_store := (k_store k)(t \<mapsto> l1)\<rparr>)"

text \<open>Access through a guard.\<close>

definition task_read :: "tid \<Rightarrow> kernel \<Rightarrow> Task outcome" where
  "task_read t k = (case k_store k t of None \<Rightarrow> Inl Bad_pointer | Some l \<Rightarrow> Inr (guard_deref l))"

definition task_update :: "tid \<Rightarrow> (Task \<Rightarrow> Task) \<Rightarrow> kernel \<Rightarrow> kernel outcome" where
  "task_update t f k =
     (case k_store k t of None \<Rightarrow> Inl Bad_pointer
      | Some l \<Rightarrow> Inr (k\<lparr>k_store := (k_store k)(t \<mapsto> guard_deref_mut f l)\<rparr>))"

section \<open>Operations\<close>

text \<open>\<open>Task::new\<close>: the pid counter wraps around.\<close>

definition task_new :: "kernel \<Rightarrow> kernel \<times> Task" where
  "task_new k =
     (k\<lparr>k_pid := k_pid k + 1\<rparr>,
      \<lparr>task_pid = PId (k_pid k), task_state = Stopped, task_running = False, task_context = context_default,
       task_page_table = None, task_kernel_stack = None\<rparr>)"

definition arc_new :: "Task \<Rightarrow> kernel \<Rightarrow> kernel \<times> tid" where
  "arc_new t k =
     (k\<lparr>k_store := (k_store k)(k_next_tid k \<mapsto> spin_new t), k_next_tid := k_next_tid k + 1\<rparr>, k_next_tid k)"

definition kernel_boot :: "kmem \<Rightarrow> bool \<Rightarrow> kernel" where
  "kernel_boot m i =
     \<lparr>k_tasks = spin_new [], k_store = (\<lambda>_. None), k_next_tid = 0, k_current = spin_new None, k_ticks = 0,
      k_pid = 0, k_if = i, k_mem = m, k_words = (\<lambda>_. 0)\<rparr>"

definition current_task :: "kernel \<Rightarrow> (kernel \<times> tid) outcome" where
  "current_task k =
     bind_out (current_lock k) (\<lambda>k1.
     bind_out (unwrap_option (guard_deref (k_current k1))) (\<lambda>t.
     Inr (current_unlock k1, t)))"

definition tick :: "kernel \<Rightarrow> kernel" where
  "tick k = k\<lparr>k_ticks := k_ticks k + 1\<rparr>"

definition tasks_push :: "tid \<Rightarrow> kernel \<Rightarrow> kernel outcome" where
  "tasks_push t k =
     bind_out (tasks_lock k) (\<lambda>k1.
     Inr (tasks_unlock (k1\<lparr>k_tasks := guard_deref_mut (\<lambda>ts. ts @ [t]) (k_tasks k1)\<rparr>)))"

definition set_current :: "tid \<Rightarrow> kernel \<Rightarrow> kernel outcome" where
  "set_current t k =
     bind_out (current_lock k) (\<lambda>k1.
     Inr (current_unlock (k1\<lparr>k_current := guard_deref_mut (\<lambda>_. Some t) (k_current k1)\<rparr>)))"

definition init :: "usize \<Rightarrow> kernel \<Rightarrow> kernel outcome" where
  "init page_table k =
     (let (k1, task) = task_new k;
          task1 = task\<lparr>task_state := Runnable, task_running := True, task_page_table := Some page_table\<rparr>;
          (k2, t) = arc_new task1 k1
      in bind_out (tasks_push t k2) (\<lambda>k3. set_current t k3))"

text \<open>\<open>tasks.iter().position(...)\<close> and the index from which the search starts.\<close>

fun position :: "tid \<Rightarrow> tid list \<Rightarrow> nat option" where
  "position t [] = None"
| "position t (x # xs) = (if x = t then Some 0 else map_option Suc (position t xs))"

definition start_index :: "tid \<Rightarrow> tid list \<Rightarrow> nat" where
  "start_index t ts = (case position t ts of None \<Rightarrow> 0 | Some i \<Rightarrow> (i + 1) mod length ts)"

text \<open>The search loop: one turn looks at index \<open>i\<close>.\<close>

definition look_at :: "tid list \<Rightarrow> nat \<Rightarrow> kernel \<Rightarrow> (kernel \<times> tid option) outcome" where
  "look_at ts i k =
     (if i < length ts
      then bind_out (task_lock (ts ! i) k) (\<lambda>k1.
           bind_out (task_read (ts ! i) k1) (\<lambda>task.
           Inr (task_unlock (ts ! i) k1, if task_state task = Runnable then Some (ts ! i) else None)))
      else Inr (k, None))"

partial_function (option) pick :: "tid list \<Rightarrow> nat \<Rightarrow> nat \<Rightarrow> kernel \<Rightarrow> (kernel \<times> tid option) outcome option" where
  "pick ts start i k =
     (case look_at ts i k of
        Inl err \<Rightarrow> Some (Inl err)
      | Inr (k1, Some t) \<Rightarrow> Some (Inr (k1, Some t))
      | Inr (k1, None) \<Rightarrow>
          let i1 = (i + 1) mod length ts in
          if i1 = start then Some (Inr (k1, None)) else pick ts start i1 k1)"

text \<open>\<open>switch\<close> up to the call of \<open>switch_inner\<close>: the tasks whose contexts it passes, if any.\<close>

definition choose_next :: "kernel \<Rightarrow> (kernel \<times> (tid \<times> tid) option) outcome option" where
  "choose_next k =
     bind_run (Some (tasks_lock k)) (\<lambda>k1.
     bind_run (Some (current_task k1)) (\<lambda>(k2, current).
     let ts = guard_deref (k_tasks k2) in
     bind_run (if ts = [] then Some (Inr (k2, None))
               else pick ts (start_index current ts) (start_index current ts) k2) (\<lambda>(k3, next).
     Some (Inr (tasks_unlock k3, map_option (\<lambda>t. (current, t)) next)))))"

definition hand_over :: "tid \<Rightarrow> tid \<Rightarrow> kernel \<Rightarrow> kernel outcome" where
  "hand_over prev next k =
     bind_out (task_lock prev k) (\<lambda>k1.
     bind_out (task_lock next k1) (\<lambda>k2.
     bind_out (set_current next k2) (\<lambda>k3.
     bind_out (task_update prev (\<lambda>t. t\<lparr>task_running := False\<rparr>) k3) (\<lambda>k4.
     bind_out (task_update next (\<lambda>t. t\<lparr>task_running := True\<rparr>) k4) (\<lambda>k5.
     bind_out (task_read next k5) (\<lambda>task.
     bind_out (unwrap_option (task_page_table task)) (\<lambda>pt.
     bind_out (virt_to_phys (VirtAddr pt)) (\<lambda>phys.
     Inr (task_unlock next (task_unlock prev (k5\<lparr>k_mem := write_cr3 (k_mem k5) phys\<rparr>)))))))))))"

definition switch_prepare :: "kernel \<Rightarrow> (kernel \<times> (tid \<times> tid) option) outcome option" where
  "switch_prepare k =
     bind_run (choose_next (k\<lparr>k_if := False, k_ticks := 0\<rparr>)) (\<lambda>(k1, r).
     case r of None \<Rightarrow> Some (Inr (k1, None))
     | Some (prev, next) \<Rightarrow> bind_run (Some (hand_over prev next k1)) (\<lambda>k2. Some (Inr (k2, Some (prev, next)))))"

text \<open>
  The whole of \<open>switch\<close> as the task that calls it sees it, with the contexts for \<open>switch_inner\<close>
  as the second component.
\<close>

definition switch :: "kernel \<Rightarrow> (kernel \<times> (tid \<times> tid) option) outcome option" where
  "switch k = bind_run (switch_prepare k) (\<lambda>(k1, r). Some (Inr (k1\<lparr>k_if := True\<rparr>, r)))"

section \<open>spawn\<close>

definition stack_layout :: Layout where
  "stack_layout = \<lparr>layout_size = KERNEL_STACK_SIZE, layout_align = 4096\<rparr>"

definition box_zeroed_stack :: "kernel \<Rightarrow> (kernel \<times> usize) outcome" where
  "box_zeroed_stack k =
     bind_out (alloc (heap (k_mem k)) stack_layout) (\<lambda>(h, p).
     if p = 0 then Inl Alloc_error
     else Inr (k\<lparr>k_mem := (k_mem k)\<lparr>heap := h\<rparr>,
                 k_words := (\<lambda>a. if unat p \<le> unat a \<and> unat a < unat p + unat KERNEL_STACK_SIZE then 0
                                 else k_words k a)\<rparr>, p))"

definition spawn :: "u64 \<Rightarrow> kernel \<Rightarrow> kernel outcome" where
  "spawn func k =
     bind_out (box_zeroed_stack k) (\<lambda>(k1, kstack).
     bind_out (current_task k1) (\<lambda>(k2, current).
     bind_out (task_lock current k2) (\<lambda>k3.
     bind_out (task_read current k3) (\<lambda>cur.
     bind_out (unwrap_option (task_page_table cur)) (\<lambda>root.
     bind_out (duplicate_kernel (k_mem k3) root) (\<lambda>(m, page_table).
     let k4 = task_unlock current (k3\<lparr>k_mem := m\<rparr>);
         (k5, task) = task_new k4;
         (k6, t) = arc_new task k5
     in bind_out (tasks_push t k6) (\<lambda>k7.
        bind_out (task_lock t k7) (\<lambda>k8.
        bind_out (task_read t k8) (\<lambda>new.
        let (M, ctx) = setup_initial_call (k_words k8) (task_context new) kstack func in
        bind_out (task_update t (\<lambda>x. x\<lparr>task_context := ctx, task_kernel_stack := Some kstack,
                    task_state := Runnable, task_page_table := Some page_table\<rparr>) (k8\<lparr>k_words := M\<rparr>)) (\<lambda>k9.
        Inr (task_unlock t k9)))))))))))"

end
