(* ===== verification/Task_Correct.thy ===== *)
theory Task_Correct
  imports Task Address_Space
begin

text \<open>
  Correctness of the scheduler of \<open>kernel/src/task.rs\<close>: the invariant of the task tables, the
  choice of the next task as the first runnable one in cyclic order, what a switch changes,
  and where it goes wrong.
\<close>

section \<open>Invariant\<close>

definition the_task :: "kernel \<Rightarrow> tid \<Rightarrow> Task" where
  "the_task k t = sl_value (the (k_store k t))"

definition runnable :: "kernel \<Rightarrow> tid \<Rightarrow> bool" where
  "runnable k t \<longleftrightarrow> task_state (the_task k t) = Runnable"

abbreviation task_list :: "kernel \<Rightarrow> tid list" where
  "task_list k \<equiv> sl_value (k_tasks k)"

definition free_task :: "kernel \<Rightarrow> tid \<Rightarrow> bool" where
  "free_task k t \<longleftrightarrow> (\<exists>l. k_store k t = Some l \<and> \<not> sl_locked l)"

definition linear_root :: "usize \<Rightarrow> bool" where
  "linear_root pt \<longleftrightarrow> 0xFFFF888000000000 \<le> pt \<and> pt \<le> 0xFFFF890000000000"

text \<open>
  No lock is held; the list names distinct tasks of the store, each with a page table in the
  linear window; the current task is one of them, and it is the only one marked as running.
\<close>

definition sched_inv :: "kernel \<Rightarrow> bool" where
  "sched_inv k \<longleftrightarrow>
     \<not> sl_locked (k_tasks k) \<and> \<not> sl_locked (k_current k) \<and> distinct (task_list k) \<and>
     (\<forall>t \<in> set (task_list k). free_task k t \<and> t < k_next_tid k) \<and>
     (\<forall>t \<in> set (task_list k). \<exists>pt. task_page_table (the_task k t) = Some pt \<and> linear_root pt) \<and>
     (\<exists>c \<in> set (task_list k). sl_value (k_current k) = Some c \<and>
        (\<forall>t \<in> set (task_list k). task_running (the_task k t) \<longleftrightarrow> t = c))"

lemmas lock_defs = tasks_lock_def tasks_unlock_def current_lock_def current_unlock_def task_lock_def
  task_unlock_def task_read_def task_update_def spin_lock_def guard_drop_def guard_deref_def guard_deref_mut_def

section \<open>Reading the state of a task\<close>

lemma unlocked_id [simp]: "\<not> sl_locked l \<Longrightarrow> l\<lparr>sl_locked := False\<rparr> = l"
  by (cases l) simp

lemma look_at_ok:
  assumes "i < length ts" "free_task k (ts ! i)"
  shows "look_at ts i k = Inr (k\<lparr>k_if := True\<rparr>, if runnable k (ts ! i) then Some (ts ! i) else None)"
proof -
  obtain l where l: "k_store k (ts ! i) = Some l" "\<not> sl_locked l" using assms(2) by (auto simp: free_task_def)
  then have "(k_store k)(ts ! i \<mapsto> l) = k_store k" by (simp add: fun_upd_idem)
  then show ?thesis
    using assms(1) l by (cases k) (simp add: look_at_def lock_defs runnable_def the_task_def)
qed

lemma free_task_if [simp]: "free_task (k\<lparr>k_if := b\<rparr>) t = free_task k t" "runnable (k\<lparr>k_if := b\<rparr>) = runnable k"
  by (simp_all add: free_task_def runnable_def fun_eq_iff the_task_def)

lemma cyclic_next:
  fixes start j n :: nat
  assumes "start < n" "j < n"
  shows "((start + j) mod n + 1) mod n = (start + Suc j) mod n" "(start + Suc j) mod n = start \<longleftrightarrow> Suc j = n"
proof -
  show "((start + j) mod n + 1) mod n = (start + Suc j) mod n" by (simp add: mod_Suc_eq)
  show "(start + Suc j) mod n = start \<longleftrightarrow> Suc j = n"
  proof
    assume e: "(start + Suc j) mod n = start"
    show "Suc j = n"
    proof (rule ccontr)
      assume ne: "Suc j \<noteq> n"
      show False
      proof (cases "start + Suc j < n")
        case True
        then show False using e by simp
      next
        case False
        then have "(start + Suc j) mod n = start + Suc j - n" using assms by (simp add: le_mod_geq)
        then show False using e ne assms by simp
      qed
    qed
  next
    assume "Suc j = n"
    then have "(start + Suc j) mod n = start mod n" by simp
    then show "(start + Suc j) mod n = start" using assms by simp
  qed
qed

text \<open>The loop finds the first runnable task of the list rotated to the start index.\<close>

lemma pick_ok:
  assumes "start < length ts" "j < length ts" "\<forall>t \<in> set ts. free_task k t"
  shows "pick ts start ((start + j) mod length ts) k =
    Some (Inr (k\<lparr>k_if := True\<rparr>, find (runnable k) (drop j (rotate start ts))))"
  using assms
proof (induction "length ts - j" arbitrary: j k)
  case 0
  then show ?case by simp
next
  case (Suc d)
  let ?i = "(start + j) mod length ts"
  have i: "?i < length ts" using Suc.prems(1) by (intro mod_less_divisor) linarith
  have at: "rotate start ts ! j = ts ! ?i" using Suc.prems(2) by (simp add: nth_rotate)
  have look: "look_at ts ?i k = Inr (k\<lparr>k_if := True\<rparr>, if runnable k (ts ! ?i) then Some (ts ! ?i) else None)"
    using i Suc.prems(3) by (intro look_at_ok) simp_all
  have drop: "drop j (rotate start ts) = ts ! ?i # drop (Suc j) (rotate start ts)"
    using Suc.prems(2) by (subst Cons_nth_drop_Suc [symmetric]) (simp_all add: at)
  show ?case
  proof (cases "runnable k (ts ! ?i)")
    case True
    then show ?thesis by (subst pick.simps) (simp add: look drop)
  next
    case False
    note nxt = cyclic_next [OF Suc.prems(1,2)]
    have step: "pick ts start ?i k =
        (if Suc j = length ts then Some (Inr (k\<lparr>k_if := True\<rparr>, None))
         else pick ts start ((start + Suc j) mod length ts) (k\<lparr>k_if := True\<rparr>))"
      using False by (subst pick.simps) (simp only: look if_False sum.case prod.case option.case Let_def nxt)
    show ?thesis
    proof (cases "Suc j = length ts")
      case True
      then show ?thesis using step drop False by simp
    next
      case ne: False
      have "pick ts start ((start + Suc j) mod length ts) (k\<lparr>k_if := True\<rparr>) =
          Some (Inr (k\<lparr>k_if := True, k_if := True\<rparr>, find (runnable (k\<lparr>k_if := True\<rparr>)) (drop (Suc j) (rotate start ts))))"
        by (rule Suc.hyps(1)) (use Suc.hyps(2) Suc.prems ne in auto)
      then show ?thesis using step drop False ne by simp
    qed
  qed
qed

section \<open>What a switch does\<close>

definition current_of :: "kernel \<Rightarrow> tid" where
  "current_of k = the (sl_value (k_current k))"

text \<open>The first runnable task of the list in cyclic order, from the one after the current task.\<close>

definition next_task :: "kernel \<Rightarrow> tid option" where
  "next_task k = find (runnable k) (rotate (start_index (current_of k) (task_list k)) (task_list k))"

definition root_of :: "kernel \<Rightarrow> tid \<Rightarrow> usize" where
  "root_of k t = the (task_page_table (the_task k t))"

definition switched :: "kernel \<Rightarrow> tid \<Rightarrow> tid \<Rightarrow> kernel" where
  "switched k prev next =
     k\<lparr>k_if := True, k_ticks := 0, k_current := \<lparr>sl_locked = False, sl_value = Some next\<rparr>,
       k_store := (k_store k)(prev \<mapsto> spin_new ((the_task k prev)\<lparr>task_running := False\<rparr>),
                              next \<mapsto> spin_new ((the_task k next)\<lparr>task_running := True\<rparr>)),
       k_mem := write_cr3 (k_mem k) (PhysAddr (root_of k next - 0xFFFF888000000000))\<rparr>"

lemma position_Some: "t \<in> set ts \<Longrightarrow> \<exists>i. position t ts = Some i \<and> i < length ts \<and> ts ! i = t"
  by (induction ts) (auto simp: nth_Cons split: nat.split)

lemma position_None: "t \<notin> set ts \<Longrightarrow> position t ts = None"
  by (induction ts) auto

lemma start_index_less: "ts \<noteq> [] \<Longrightarrow> start_index t ts < length ts"
  by (simp add: start_index_def split: option.split)

lemma runnable_locks [simp]:
  "free_task (k\<lparr>k_tasks := a\<rparr>) t = free_task k t" "runnable (k\<lparr>k_tasks := a\<rparr>) = runnable k"
  "free_task (k\<lparr>k_ticks := c\<rparr>) t = free_task k t" "runnable (k\<lparr>k_ticks := c\<rparr>) = runnable k"
  by (simp_all add: free_task_def runnable_def fun_eq_iff the_task_def)

lemma sched_invD:
  assumes "sched_inv k"
  shows "\<not> sl_locked (k_tasks k)" "\<not> sl_locked (k_current k)" "distinct (task_list k)"
    "\<And>t. t \<in> set (task_list k) \<Longrightarrow> free_task k t \<and> t < k_next_tid k"
    "\<And>t. t \<in> set (task_list k) \<Longrightarrow> task_page_table (the_task k t) = Some (root_of k t) \<and> linear_root (root_of k t)"
    "sl_value (k_current k) = Some (current_of k)" "current_of k \<in> set (task_list k)"
    "\<And>t. t \<in> set (task_list k) \<Longrightarrow> task_running (the_task k t) \<longleftrightarrow> t = current_of k"
  using assms unfolding sched_inv_def current_of_def root_of_def by auto

lemma choose_next_ok:
  assumes "\<not> sl_locked (k_tasks k)" "\<not> sl_locked (k_current k)" "sl_value (k_current k) = Some c"
    "\<forall>t \<in> set (task_list k). free_task k t" "task_list k \<noteq> []"
  shows "choose_next k = Some (Inr (k\<lparr>k_if := True\<rparr>,
    map_option (Pair c) (find (runnable k) (rotate (start_index c (task_list k)) (task_list k)))))"
proof -
  let ?l = "(k_tasks k)\<lparr>sl_locked := True\<rparr>" and ?ts = "task_list k"
  let ?k = "k\<lparr>k_if := False, k_tasks := ?l\<rparr>" and ?s = "start_index c (task_list k)"
  have lock: "tasks_lock k = Inr ?k" using assms(1) by (simp add: lock_defs)
  have cur: "current_task ?k = Inr (?k\<lparr>k_if := True\<rparr>, c)"
    using assms(2,3) by (cases k) (simp add: current_task_def lock_defs unwrap_option_def)
  note s = start_index_less [OF assms(5), of c]
  have "pick ?ts ?s ((?s + 0) mod length ?ts) (?k\<lparr>k_if := True\<rparr>) =
      Some (Inr (?k\<lparr>k_if := True, k_if := True\<rparr>, find (runnable (?k\<lparr>k_if := True\<rparr>)) (drop 0 (rotate ?s ?ts))))"
    using s assms(4,5) by (intro pick_ok) simp_all
  moreover have "(?s + 0) mod length ?ts = ?s" using s by simp
  ultimately have pick: "pick ?ts ?s ?s (?k\<lparr>k_if := True\<rparr>) =
      Some (Inr (?k\<lparr>k_if := True\<rparr>, find (runnable k) (rotate ?s ?ts)))" by simp
  have "tasks_unlock (?k\<lparr>k_if := True\<rparr>) = k\<lparr>k_if := True\<rparr>"
    using assms(1) by (cases k) (simp add: lock_defs)
  then show ?thesis
    using assms(5) pick by (simp add: choose_next_def lock cur guard_deref_def Let_def)
qed

lemma hand_over_ok:
  assumes "free_task k prev" "free_task k next" "prev \<noteq> next" "\<not> sl_locked (k_current k)"
    "task_page_table (the_task k next) = Some (root_of k next)" "linear_root (root_of k next)"
  shows "hand_over prev next (k\<lparr>k_if := i, k_ticks := 0\<rparr>) = Inr (switched k prev next)"
proof -
  obtain p n where pn: "k_store k prev = Some p" "\<not> sl_locked p" "k_store k next = Some n" "\<not> sl_locked n"
    using assms(1,2) by (auto simp: free_task_def)
  obtain r where r: "root_of k next = r" by blast
  have "virt_to_phys (VirtAddr r) = Inr (PhysAddr (r - 0xFFFF888000000000))"
    using assms(6) r by (simp add: linear_root_def virt_to_phys_linear)
  moreover have "task_page_table (sl_value n) = Some r"
    using assms(5) pn(3) r by (simp add: the_task_def)
  moreover have eqs: "(k_current k)\<lparr>sl_value := x\<rparr> = \<lparr>sl_locked = False, sl_value = x\<rparr>"
      "p\<lparr>sl_value := y\<rparr> = \<lparr>sl_locked = False, sl_value = y\<rparr>"
      "n\<lparr>sl_value := y\<rparr> = \<lparr>sl_locked = False, sl_value = y\<rparr>" for x y
    using pn(2,4) assms(4) by (cases "k_current k", simp, cases p, simp, cases n, simp)
  ultimately show ?thesis
    using pn assms(3,4) r
    by (cases k) (simp add: hand_over_def set_current_def lock_defs unwrap_option_def switched_def spin_new_def
        the_task_def fun_upd_twist eqs)
qed

lemma hand_over_same:
  assumes "free_task k t"
  shows "hand_over t t k = Inl Deadlock"
  using assms by (auto simp: hand_over_def lock_defs free_task_def)

lemma switch_prepare_cases:
  assumes inv: "sched_inv k"
  shows "switch_prepare k =
    (case next_task k of
       None \<Rightarrow> Some (Inr (k\<lparr>k_if := True, k_ticks := 0\<rparr>, None))
     | Some n \<Rightarrow> if n = current_of k then Some (Inl Deadlock)
                 else Some (Inr (switched k (current_of k) n, Some (current_of k, n))))"
proof -
  note d = sched_invD [OF inv]
  let ?k = "k\<lparr>k_if := False, k_ticks := 0\<rparr>"
  have ne: "task_list k \<noteq> []" using d(7) by auto
  have free: "\<forall>t \<in> set (task_list k). free_task k t" using d(4) by blast
  have choose: "choose_next ?k =
      Some (Inr (k\<lparr>k_if := True, k_ticks := 0\<rparr>, map_option (Pair (current_of k)) (next_task k)))"
    using choose_next_ok [of ?k "current_of k"] d(1,2,6) ne free by (simp add: next_task_def)
  show ?thesis
  proof (cases "next_task k")
    case None
    then show ?thesis using choose by (simp add: switch_prepare_def)
  next
    case (Some n)
    then have n: "n \<in> set (task_list k)"
      unfolding next_task_def by (metis find_Some_iff nth_mem set_rotate)
    have same: "hand_over (current_of k) (current_of k) (k\<lparr>k_if := True, k_ticks := 0\<rparr>) = Inl Deadlock"
      using free d(7) by (intro hand_over_same) (simp add: free_task_def)
    have other: "n \<noteq> current_of k \<Longrightarrow> hand_over (current_of k) n (k\<lparr>k_if := True, k_ticks := 0\<rparr>) =
        Inr (switched k (current_of k) n)"
      using free n d(2,7) d(5) [OF n] by (intro hand_over_ok) auto
    show ?thesis
    proof (cases "n = current_of k")
      case True
      then show ?thesis using choose Some same by (simp add: switch_prepare_def)
    next
      case False
      then show ?thesis using choose Some other by (simp add: switch_prepare_def)
    qed
  qed
qed

lemma switch_cases:
  assumes inv: "sched_inv k"
  shows "switch k =
    (case next_task k of
       None \<Rightarrow> Some (Inr (k\<lparr>k_if := True, k_ticks := 0\<rparr>, None))
     | Some n \<Rightarrow> if n = current_of k then Some (Inl Deadlock)
                 else Some (Inr (switched k (current_of k) n, Some (current_of k, n))))"
  by (simp add: switch_def switch_prepare_cases [OF inv] split: option.split) (simp add: switched_def)

section \<open>The cyclic order\<close>

lemma position_nth: "distinct ts \<Longrightarrow> i < length ts \<Longrightarrow> position (ts ! i) ts = Some i"
proof (induction ts arbitrary: i)
  case (Cons t ts)
  then show ?case by (cases i) auto
qed simp

lemma rotate_start:
  assumes "distinct ts" "i < length ts" "d < length ts"
  shows "rotate (start_index (ts ! i) ts) ts ! d = ts ! ((i + Suc d) mod length ts)"
  using assms by (simp add: start_index_def position_nth nth_rotate mod_add_left_eq)

lemma next_task_Some:
  assumes "sched_inv k" "i < length (task_list k)" "task_list k ! i = current_of k" "0 < j" "j \<le> length (task_list k)"
    "runnable k (task_list k ! ((i + j) mod length (task_list k)))"
    "\<forall>d. 0 < d \<and> d < j \<longrightarrow> \<not> runnable k (task_list k ! ((i + d) mod length (task_list k)))"
  shows "next_task k = Some (task_list k ! ((i + j) mod length (task_list k)))"
proof -
  note d = sched_invD(3) [OF assms(1)]
  obtain j' where j: "j = Suc j'" using assms(4) by (cases j) auto
  have at: "rotate (start_index (current_of k) (task_list k)) (task_list k) ! e =
      task_list k ! ((i + Suc e) mod length (task_list k))" if "e \<le> j'" for e
    using rotate_start [OF d assms(2), of e] that assms(3,5) j by simp
  show ?thesis
    unfolding next_task_def find_Some_iff
    by (rule exI [of _ j']) (use at assms(5,6,7) j in auto)
qed

lemma next_task_None:
  assumes "\<forall>t \<in> set (task_list k). \<not> runnable k t"
  shows "next_task k = None"
  using assms by (simp add: next_task_def find_None_iff)

section \<open>switch keeps the invariant\<close>

lemma the_task_switched:
  "p \<noteq> n \<Longrightarrow> the_task (switched k p n) t =
    (if t = n then (the_task k n)\<lparr>task_running := True\<rparr>
     else if t = p then (the_task k p)\<lparr>task_running := False\<rparr> else the_task k t)"
  by (simp add: the_task_def switched_def spin_new_def)

lemma switched_fields [simp]:
  "task_list (switched k p n) = task_list k" "current_of (switched k p n) = n" "k_tasks (switched k p n) = k_tasks k"
  "k_next_tid (switched k p n) = k_next_tid k" "sl_value (k_current (switched k p n)) = Some n"
  "k_ticks (switched k p n) = 0" "k_if (switched k p n)" "nodes (k_mem (switched k p n)) = nodes (k_mem k)"
  "cr3 (k_mem (switched k p n)) = root_of k n - 0xFFFF888000000000" "heap (k_mem (switched k p n)) = heap (k_mem k)"
  by (simp_all add: switched_def current_of_def write_cr3_def)

lemma switched_root: "p \<noteq> n \<Longrightarrow> root_of (switched k p n) t = root_of k t"
  by (simp add: root_of_def the_task_switched)

lemma switched_runnable: "p \<noteq> n \<Longrightarrow> runnable (switched k p n) t = runnable k t"
  by (simp add: runnable_def the_task_switched)

lemma switched_inv:
  assumes inv: "sched_inv k" and n: "n \<in> set (task_list k)" "n \<noteq> current_of k"
  shows "sched_inv (switched k (current_of k) n)"
proof -
  note d = sched_invD [OF inv] and s = the_task_switched [OF n(2) [symmetric]]
  have "free_task (switched k (current_of k) n) t" if "t \<in> set (task_list k)" for t
    using d(4) [OF that] by (auto simp: free_task_def switched_def spin_new_def)
  moreover have "\<exists>pt. task_page_table (the_task (switched k (current_of k) n) t) = Some pt \<and> linear_root pt"
    if "t \<in> set (task_list k)" for t
    using d(5) [OF that] d(5) [OF n(1)] d(5) [OF d(7)] by (auto simp: s)
  moreover have "task_running (the_task (switched k (current_of k) n) t) \<longleftrightarrow> t = n" if "t \<in> set (task_list k)" for t
    using d(8) [OF that] by (auto simp: s)
  moreover have "\<not> sl_locked (k_current (switched k (current_of k) n))" by (simp add: switched_def)
  ultimately show ?thesis
    using d(1,3,4) n(1) by (simp add: sched_inv_def)
qed

lemma next_task_mem: "next_task k = Some n \<Longrightarrow> n \<in> set (task_list k) \<and> runnable k n"
  unfolding next_task_def by (metis find_Some_iff nth_mem set_rotate)

lemma sched_inv_ticks:
  assumes "sched_inv k"
  shows "sched_inv (k\<lparr>k_if := b, k_ticks := c\<rparr>)"
  using assms by (simp add: sched_inv_def free_task_def the_task_def)

lemma switch_cases_inv:
  assumes "sched_inv k" "switch k = Some (Inr (k', r))"
  shows "sched_inv k' \<and> task_list k' = task_list k \<and> nodes (k_mem k') = nodes (k_mem k) \<and> heap (k_mem k') = heap (k_mem k) \<and>
    (\<forall>t. root_of k' t = root_of k t) \<and> (\<forall>t. runnable k' t = runnable k t)"
proof (cases "next_task k")
  case None
  then have "k' = k\<lparr>k_if := True, k_ticks := 0\<rparr>" using assms switch_cases [OF assms(1)] by simp
  then show ?thesis using sched_inv_ticks [OF assms(1)] by (simp add: root_of_def runnable_def the_task_def)
next
  case (Some n)
  then have "n \<noteq> current_of k" "k' = switched k (current_of k) n"
    using assms switch_cases [OF assms(1)] by (auto split: if_splits)
  then show ?thesis
    using switched_inv [OF assms(1)] next_task_mem [OF Some] by (auto simp: switched_root switched_runnable)
qed

section \<open>Repeated switches\<close>

fun switches :: "nat \<Rightarrow> kernel \<Rightarrow> kernel outcome option" where
  "switches 0 k = Some (Inr k)"
| "switches (Suc n) k = bind_run (switch k) (\<lambda>(k1, _). switches n k1)"

lemma cyclic_distinct:
  assumes "distinct ts" "i < length ts" "0 < j" "j < length ts"
  shows "ts ! ((i + j) mod length ts) \<noteq> ts ! i"
proof -
  have "(i + j) mod length ts \<noteq> i"
    using cyclic_next(2) [OF assms(2), of "j - 1"] assms(3,4) by simp
  moreover have "(i + j) mod length ts < length ts" using assms(2) by (intro mod_less_divisor) linarith
  ultimately show ?thesis using nth_eq_iff_index_eq [OF assms(1) _ assms(2)] by blast
qed

text \<open>The switch to a task \<open>j\<close> places on, with only tasks that are not runnable in between.\<close>

lemma switch_step:
  assumes inv: "sched_inv k" and i: "i < length (task_list k)" "task_list k ! i = current_of k"
    and j: "0 < j" "j < length (task_list k)" "runnable k (task_list k ! ((i + j) mod length (task_list k)))"
      "\<forall>d. 0 < d \<and> d < j \<longrightarrow> \<not> runnable k (task_list k ! ((i + d) mod length (task_list k)))"
  defines "n \<equiv> task_list k ! ((i + j) mod length (task_list k))"
  shows "n \<noteq> current_of k" "n \<in> set (task_list k)"
    "switch k = Some (Inr (switched k (current_of k) n, Some (current_of k, n)))"
    "sched_inv (switched k (current_of k) n)"
proof -
  have nt: "next_task k = Some n"
    using next_task_Some [OF inv i j(1) less_imp_le [OF j(2)] j(3,4)] by (simp add: n_def)
  show ne: "n \<noteq> current_of k"
    using cyclic_distinct [OF sched_invD(3) [OF inv] i(1) j(1,2)] i(2) by (simp add: n_def)
  show mem: "n \<in> set (task_list k)" using next_task_mem [OF nt] by blast
  show "switch k = Some (Inr (switched k (current_of k) n, Some (current_of k, n)))"
    using switch_cases [OF inv] nt ne by simp
  show "sched_inv (switched k (current_of k) n)" by (rule switched_inv [OF inv mem ne])
qed

lemma switches_reach:
  assumes "sched_inv k" "i < length (task_list k)" "task_list k ! i = current_of k" "0 < e" "e < length (task_list k)"
    "runnable k (task_list k ! ((i + e) mod length (task_list k)))"
  shows "\<exists>m k'. 0 < m \<and> m \<le> e \<and> switches m k = Some (Inr k') \<and> sched_inv k' \<and>
    current_of k' = task_list k ! ((i + e) mod length (task_list k))"
  using assms
proof (induction e arbitrary: k i rule: less_induct)
  case (less e)
  let ?ts = "task_list k"
  let ?P = "\<lambda>d. 0 < d \<and> runnable k (?ts ! ((i + d) mod length ?ts))"
  define j where "j = (LEAST d. ?P d)"
  have "?P e" using less.prems(4,6) by blast
  then have j: "?P j" "j \<le> e" unfolding j_def by (rule LeastI [of ?P], rule Least_le [of ?P])
  have least: "\<forall>d. 0 < d \<and> d < j \<longrightarrow> \<not> runnable k (?ts ! ((i + d) mod length ?ts))"
    using not_less_Least [of _ ?P] unfolding j_def by blast
  have jn: "j < length ?ts" using j(2) less.prems(5) by simp
  let ?n = "?ts ! ((i + j) mod length ?ts)"
  note st = switch_step [OF less.prems(1-3) conjunct1 [OF j(1)] jn conjunct2 [OF j(1)] least]
  let ?k = "switched k (current_of k) ?n"
  show ?case
  proof (cases "j = e")
    case True
    then have "switches 1 k = Some (Inr ?k)" using st(3) by simp
    then show ?thesis using True st(4) less.prems(4) by (intro exI [of _ 1] exI [of _ ?k]) simp
  next
    case False
    then have e: "e - j < e" "0 < e - j" "e - j < length (task_list ?k)" using j less.prems(4,5) by auto
    let ?i = "(i + j) mod length ?ts"
    have same: "(?i + (e - j)) mod length (task_list ?k) = (i + e) mod length ?ts"
    proof -
      have "(?i + (e - j)) mod length (task_list ?k) = (i + j + (e - j)) mod length ?ts"
        by (simp only: switched_fields mod_add_left_eq)
      moreover have "i + j + (e - j) = i + e" using j(2) by linarith
      ultimately show ?thesis by (simp only:)
    qed
    have "0 < length ?ts" using less.prems(2) by linarith
    then have il: "?i < length (task_list ?k)" by simp
    have "\<exists>m k'. 0 < m \<and> m \<le> e - j \<and> switches m ?k = Some (Inr k') \<and> sched_inv k' \<and>
        current_of k' = task_list ?k ! ((?i + (e - j)) mod length (task_list ?k))"
      by (rule less.IH [OF e(1) st(4) il _ e(2,3)])
        (simp_all only: same [unfolded switched_fields] switched_fields less.prems(6) switched_runnable [OF st(1) [symmetric]])
    then obtain m k' where m: "m \<le> e - j" "switches m ?k = Some (Inr k')" "sched_inv k'"
        "current_of k' = ?ts ! ((i + e) mod length ?ts)"
      unfolding switched_fields same [unfolded switched_fields] by blast
    have "switches (Suc m) k = Some (Inr k')" using st(3) m(2) by simp
    moreover have "Suc m \<le> e" using m(1) j False by linarith
    ultimately show ?thesis using m(3,4) by blast
  qed
qed

section \<open>Properties of switch\<close>

text \<open>Two tasks with one page table, the first of them current.\<close>

definition example_task :: "nat \<Rightarrow> TaskState \<Rightarrow> Task" where
  "example_task i st =
     \<lparr>task_pid = PId (of_nat i), task_state = st, task_running = (i = 0), task_context = context_default,
      task_page_table = Some 0xFFFF888001000000, task_kernel_stack = None\<rparr>"

definition example_kernel :: "TaskState \<Rightarrow> TaskState \<Rightarrow> kernel" where
  "example_kernel s0 s1 =
     \<lparr>k_tasks = spin_new [0, 1], k_store = [0 \<mapsto> spin_new (example_task 0 s0), 1 \<mapsto> spin_new (example_task 1 s1)],
      k_next_tid = 2, k_current = spin_new (Some 0), k_ticks = 5, k_pid = 2, k_if = True, k_mem = example_mem,
      k_words = (\<lambda>_. 0)\<rparr>"

lemma example_kernel_simps [simp]:
  "task_list (example_kernel s0 s1) = [0, 1]" "current_of (example_kernel s0 s1) = 0"
  "the_task (example_kernel s0 s1) 0 = example_task 0 s0" "the_task (example_kernel s0 s1) (Suc 0) = example_task 1 s1"
  "k_mem (example_kernel s0 s1) = example_mem"
  by (simp_all add: example_kernel_def current_of_def spin_new_def the_task_def)

lemma example_kernel_inv: "sched_inv (example_kernel s0 s1)"
  by (simp add: sched_inv_def free_task_def)
    (simp add: example_kernel_def spin_new_def example_task_def linear_root_def)

text \<open>
  C10: Let the current task be at index \<open>i\<close> of the task list and let the task \<open>j\<close> places after it,
  counting cyclically, be the first runnable one.  Then \<open>switch\<close> returns, it hands over from the
  current task to exactly that task, the new task is the current one and \<open>CR3\<close> holds the
  physical address of its page table, the tick count is reset, only the two \<open>running\<close> flags of
  the tasks have changed, and the invariant of the task tables holds again.
\<close>

theorem switch_picks_next_runnable:
  assumes "sched_inv k" "i < length (task_list k)" "task_list k ! i = current_of k"
    "0 < j" "j < length (task_list k)" "runnable k (task_list k ! ((i + j) mod length (task_list k)))"
    "\<forall>d. 0 < d \<and> d < j \<longrightarrow> \<not> runnable k (task_list k ! ((i + d) mod length (task_list k)))"
  defines "n \<equiv> task_list k ! ((i + j) mod length (task_list k))"
  shows "\<exists>k'. switch k = Some (Inr (k', Some (current_of k, n))) \<and> sched_inv k' \<and>
    sl_value (k_current k') = Some n \<and> cr3 (k_mem k') = root_of k n - 0xFFFF888000000000 \<and> k_ticks k' = 0 \<and>
    task_list k' = task_list k \<and>
    (\<forall>t \<in> set (task_list k). the_task k' t = (the_task k t)\<lparr>task_running := (t = n)\<rparr>)"
proof -
  note st = switch_step [OF assms(1-7), folded n_def]
  let ?k = "switched k (current_of k) n"
  have "the_task ?k t = (the_task k t)\<lparr>task_running := (t = n)\<rparr>" if "t \<in> set (task_list k)" for t
    using sched_invD(8) [OF assms(1) that] by (cases "the_task k t") (auto simp: the_task_switched [OF st(1) [symmetric]])
  then show ?thesis using st by auto
qed

theorem switch_picks_next_runnable_witness:
  "\<exists>k'. switch (example_kernel Runnable Runnable) = Some (Inr (k', Some (0, 1))) \<and>
     sl_value (k_current k') = Some 1 \<and> cr3 (k_mem k') = 0x1000000"
proof -
  let ?k = "example_kernel Runnable Runnable"
  have "root_of ?k (Suc 0) = 0xFFFF888001000000" by (simp add: root_of_def example_task_def)
  then show ?thesis
    using switch_picks_next_runnable [of ?k 0 1] example_kernel_inv by (auto simp: runnable_def example_task_def)
qed

text \<open>
  C38: When the current task is the only runnable one, \<open>switch\<close> does not return: the search comes
  back to the current task, and locking the same task as previous and as next task spins on a
  lock that this CPU already holds.
\<close>

theorem switch_deadlocks_alone:
  assumes "sched_inv k" "runnable k (current_of k)"
    "\<forall>t \<in> set (task_list k). t \<noteq> current_of k \<longrightarrow> \<not> runnable k t"
  shows "switch k = Some (Inl Deadlock)"
proof -
  let ?n = "length (task_list k)"
  obtain i where i: "i < ?n" "task_list k ! i = current_of k"
    using sched_invD(7) [OF assms(1)] by (meson in_set_conv_nth)
  have "\<not> runnable k (task_list k ! ((i + d) mod ?n))" if "0 < d" "d < ?n" for d
  proof -
    have "(i + d) mod ?n < ?n" using i(1) by (intro mod_less_divisor) linarith
    then show ?thesis
      using assms(3) cyclic_distinct [OF sched_invD(3) [OF assms(1)] i(1) that] i(2) by simp
  qed
  moreover have "0 < ?n" using i(1) by linarith
  ultimately have "next_task k = Some (current_of k)"
    using next_task_Some [OF assms(1) i, of ?n] i assms(2) by auto
  then show ?thesis using switch_cases [OF assms(1)] by simp
qed

theorem switch_deadlocks_alone_witness: "switch (example_kernel Runnable Stopped) = Some (Inl Deadlock)"
  by (rule switch_deadlocks_alone [OF example_kernel_inv]) (simp_all add: runnable_def example_task_def)

text \<open>
  \<open>switch\<close> disables interrupts first, but when it reaches \<open>switch_inner\<close> they are enabled
  again, because every guard that it dropped on the way enabled them: the context switch
  itself, with \<open>CR3\<close> and the current task already changed, can be interrupted.
\<close>

lemma switch_inner_reached_with_interrupts_enabled:
  assumes "sched_inv k" "switch_prepare k = Some (Inr (k', Some (prev, next)))"
  shows "k_if k' \<and> sl_value (k_current k') = Some next \<and> prev = current_of k \<and> next \<noteq> prev"
  using assms(2) unfolding switch_prepare_cases [OF assms(1)] by (auto split: option.splits if_splits)

end
