(* ===== verification/Task_Spawn.thy ===== *)
theory Task_Spawn
  imports Task_Correct Kernel_Space
begin

text \<open>
  Creation of tasks (\<open>init\<close> and \<open>spawn\<close> of \<open>kernel/src/task.rs\<close>) and the runs of the kernel
  that are made of ticks, spawns and switches: in all of them the task tables and the page
  tables of all tasks stay well-formed.
\<close>

section \<open>Invariant\<close>

definition kernel_inv :: "kernel \<Rightarrow> bool" where
  "kernel_inv k \<longleftrightarrow> sched_inv k \<and> kmem_inv (k_mem k) \<and>
     (\<forall>t \<in> set (task_list k). tree_inv kptr (nodes (k_mem k)) (root_of k t))"

lemma node_linear_root: "kmem_inv m \<Longrightarrow> a \<in> dom (nodes m) \<Longrightarrow> linear_root a"
  using node_addr_window [of m a] by (simp add: linear_root_def word_le_nat_alt)

section \<open>The stack of a new task\<close>

lemma small_stack_layout: "small_layout 4096 stack_layout"
  by (simp add: small_layout_def valid_layout_def stack_layout_def is_power_of_two_def KERNEL_STACK_SIZE_def)

definition zero_stack :: "usize \<Rightarrow> (u64 \<Rightarrow> u64) \<Rightarrow> u64 \<Rightarrow> u64" where
  "zero_stack p w = (\<lambda>a. if unat p \<le> unat a \<and> unat a < unat p + unat KERNEL_STACK_SIZE then 0 else w a)"

lemma box_zeroed_stack_ok:
  assumes inv: "kmem_inv (k_mem k)" and fit: "fits (heap (k_mem k)) stack_layout"
  obtains h p where
    "box_zeroed_stack k = Inr (k\<lparr>k_mem := (k_mem k)\<lparr>heap := h\<rparr>, k_words := zero_stack p (k_words k)\<rparr>, p)"
    "kmem_inv ((k_mem k)\<lparr>heap := h\<rparr>)" "4096 dvd unat p" "la_next (heap (k_mem k)) \<le> p"
    "unat p + 0x4000 = unat (la_next h)" "la_end h = la_end (heap (k_mem k))"
    "unat p = align_up_nat 4096 (unat (la_next (heap (k_mem k))))"
proof -
  let ?h = "heap (k_mem k)"
  have ready: "heap_ready 4096 ?h" using inv by (simp add: kmem_inv_def)
  obtain h p where h: "alloc ?h stack_layout = Inr (h, p)" "unat p = block_start ?h stack_layout"
      "unat (la_next h) = unat p + unat (layout_size stack_layout)" "la_start h = la_start ?h"
      "la_end h = la_end ?h" "heap_ready 4096 h" "0 < unat p"
    using alloc_block [OF ready _ _ fit] small_stack_layout unfolding small_layout_def by blast
  have pn: "unat p = align_up_nat 4096 (unat (la_next ?h))" "unat (la_next h) = unat p + 0x4000"
    using h(2,3) by (simp_all add: block_start_def stack_layout_def KERNEL_STACK_SIZE_def)
  have ge: "unat (la_next ?h) \<le> unat p" unfolding pn(1) by (rule align_up_nat_ge) simp
  have "4096 dvd unat p" unfolding pn(1) by (rule align_up_nat_dvd)
  moreover have "kmem_inv ((k_mem k)\<lparr>heap := h\<rparr>)"
    using inv h(4-6) pn(2) ge by (force simp: kmem_inv_def)
  moreover have "p \<noteq> 0" using h(7) by auto
  then have "box_zeroed_stack k = Inr (k\<lparr>k_mem := (k_mem k)\<lparr>heap := h\<rparr>, k_words := zero_stack p (k_words k)\<rparr>, p)"
    using h(1) by (simp add: box_zeroed_stack_def zero_stack_def)
  moreover have "la_next ?h \<le> p" "unat p + 0x4000 = unat (la_next h)" using ge pn(2) by (simp_all add: word_le_nat_alt)
  ultimately show ?thesis using h(5) pn(1) that by blast
qed

lemma box_zeroed_stack_full:
  assumes "kmem_inv (k_mem k)" "\<not> fits (heap (k_mem k)) stack_layout"
  shows "box_zeroed_stack k = Inl Alloc_error"
  using alloc_null [OF _ _ _ assms(2), of 4096] assms(1) small_stack_layout
  by (simp add: box_zeroed_stack_def kmem_inv_def small_layout_def)

lemma box_zeroed_node_full:
  assumes "kmem_inv m" "\<not> room m 1"
  shows "box_zeroed_node m = Inl Alloc_error"
proof -
  have "\<not> fits (heap m) node_layout"
    using assms(2) by (simp add: fits_def block_start_def room_def node_layout_def)
  then show ?thesis
    using alloc_null [of 4096 "heap m" node_layout] assms(1) small_node_layout
    by (simp add: box_zeroed_node_def kmem_inv_def small_layout_def)
qed

section \<open>spawn\<close>

text \<open>The state after a spawn: \<open>m\<close> the memory, \<open>w\<close> the stack words, \<open>root\<close> the new page table.\<close>

definition spawned_task :: "kernel \<Rightarrow> usize \<Rightarrow> usize \<Rightarrow> Task" where
  "spawned_task k kstack root =
     \<lparr>task_pid = PId (k_pid k), task_state = Runnable, task_running = False,
      task_context = context_default\<lparr>ctx_rsp := kstack + 0x1FFF8, ctx_rflags := 0x202\<rparr>,
      task_page_table = Some root, task_kernel_stack = Some kstack\<rparr>"

definition spawned :: "kernel \<Rightarrow> kmem \<Rightarrow> (u64 \<Rightarrow> u64) \<Rightarrow> Task \<Rightarrow> kernel" where
  "spawned k m w task =
     k\<lparr>k_if := True, k_mem := m, k_words := w, k_pid := k_pid k + 1, k_next_tid := k_next_tid k + 1,
       k_tasks := \<lparr>sl_locked = False, sl_value = task_list k @ [k_next_tid k]\<rparr>,
       k_store := (k_store k)(k_next_tid k \<mapsto> spin_new task)\<rparr>"

lemma spawned_simps [simp]:
  "task_list (spawned k m w task) = task_list k @ [k_next_tid k]" "k_mem (spawned k m w task) = m"
  "k_next_tid (spawned k m w task) = k_next_tid k + 1" "k_current (spawned k m w task) = k_current k"
  "current_of (spawned k m w task) = current_of k" "k_words (spawned k m w task) = w" "k_if (spawned k m w task)"
  "sl_locked (k_tasks (spawned k m w task)) = False" "k_ticks (spawned k m w task) = k_ticks k"
  "the_task (spawned k m w task) t = (if t = k_next_tid k then task else the_task k t)"
  by (simp_all add: spawned_def current_of_def the_task_def spin_new_def)

lemma current_task_ok:
  assumes "sched_inv k"
  shows "current_task (k\<lparr>k_mem := m, k_words := w\<rparr>) = Inr (k\<lparr>k_mem := m, k_words := w, k_if := True\<rparr>, current_of k)"
  using sched_invD(2,6) [OF assms] by (cases k) (simp add: current_task_def lock_defs unwrap_option_def)

lemma current_lock_cell:
  assumes "sched_inv k"
  obtains l where "k_store k (current_of k) = Some l" "\<not> sl_locked l" "current_of k \<noteq> k_next_tid k"
    "task_page_table (sl_value l) = Some (root_of k (current_of k))" "(k_store k)(current_of k \<mapsto> l) = k_store k"
proof -
  note d = sched_invD [OF assms]
  obtain l where l: "k_store k (current_of k) = Some l" "\<not> sl_locked l" using d(4,7) by (auto simp: free_task_def)
  then show ?thesis
    using d(4) [OF d(7)] d(5) [OF d(7)] by (intro that [of l]) (auto simp: the_task_def)
qed

lemma spawn_run:
  assumes inv: "sched_inv k"
    and stack: "box_zeroed_stack k = Inr (k\<lparr>k_mem := m1, k_words := w\<rparr>, kstack)"
    and dup: "duplicate_kernel m1 (root_of k (current_of k)) = Inr (m2, root)"
  shows "spawn func k = Inr (spawned k m2 (w(kstack + 0x1FFF8 := func)) (spawned_task k kstack root))"
proof -
  note d = sched_invD [OF inv]
  let ?c = "current_of k" and ?t = "k_next_tid k"
  obtain l where l: "k_store k ?c = Some l" "\<not> sl_locked l" "?c \<noteq> ?t"
      "task_page_table (sl_value l) = Some (root_of k ?c)" "(k_store k)(?c \<mapsto> l) = k_store k"
    using current_lock_cell [OF inv] by blast
  have sc: "setup_initial_call W context_default kstack func =
      (W(kstack + 0x1FFF8 := func), context_default\<lparr>ctx_rsp := kstack + 0x1FFF8, ctx_rflags := 0x202\<rparr>)" for W
    by (simp add: setup_initial_call_def push_stack_def KERNEL_STACK_SIZE_def Let_def add.commute)
  obtain r where r: "root_of k ?c = r" by blast
  have tl: "(k_tasks k)\<lparr>sl_value := v\<rparr> = \<lparr>sl_locked = False, sl_value = v\<rparr>" for v
    using d(1) by (cases "k_tasks k") simp
  show ?thesis
    using l(1-4) dup d(1) unfolding r
    by (simp add: spawn_def stack current_task_ok [OF inv] lock_defs unwrap_option_def task_new_def arc_new_def tasks_push_def Let_def
        sc spawned_def spawned_task_def spin_new_def l(5) tl)
qed

lemma spawned_inv:
  assumes inv: "kernel_inv k" and m: "kmem_inv m" "nodes m = (nodes (k_mem k))(root \<mapsto> c)" "root \<notin> dom (nodes (k_mem k))"
    "length (entries c) = 512" "tree_inv kptr (nodes m) root"
  shows "kernel_inv (spawned k m w (spawned_task k kstack root))" (is "kernel_inv ?k")
    "\<And>t. t \<in> set (task_list k) \<Longrightarrow> root_of (spawned k m w (spawned_task k kstack root)) t = root_of k t"
    "\<And>t. t \<in> set (task_list k) \<Longrightarrow> aspace m (root_of k t) = aspace (k_mem k) (root_of k t)"
proof -
  have si: "sched_inv k" and trees: "\<And>t. t \<in> set (task_list k) \<Longrightarrow> tree_inv kptr (nodes (k_mem k)) (root_of k t)"
    using inv by (auto simp: kernel_inv_def)
  note d = sched_invD [OF si]
  note ext = tree_inv_extend [OF trees m(3,4), folded m(2)]
  have fresh: "t \<noteq> k_next_tid k" if "t \<in> set (task_list k)" for t using d(4) [OF that] by simp
  then have old: "the_task ?k t = the_task k t" if "t \<in> set (task_list k)" for t using that by simp
  then show root: "root_of ?k t = root_of k t" if "t \<in> set (task_list k)" for t using that by (simp add: root_of_def)
  show "aspace m (root_of k t) = aspace (k_mem k) (root_of k t)" if "t \<in> set (task_list k)" for t
    using ext(3) [OF that] by (simp add: space_def fun_eq_iff)
  have free: "free_task ?k t" if "t = k_next_tid k \<or> t \<in> set (task_list k)" for t
    using that d(4) [of t] by (auto simp: free_task_def spawned_def spin_new_def)
  have new: "the_task ?k (k_next_tid k) = spawned_task k kstack root" by simp
  have "linear_root root" using m(1,2) by (intro node_linear_root) auto
  then have roots: "\<exists>pt. task_page_table (the_task ?k t) = Some pt \<and> linear_root pt"
    if "t = k_next_tid k \<or> t \<in> set (task_list k)" for t
    using that d(5) [of t] old new by (auto simp: spawned_task_def)
  have running: "task_running (the_task ?k t) \<longleftrightarrow> t = current_of k"
    if "t = k_next_tid k \<or> t \<in> set (task_list k)" for t
    using that d(8) [of t] old new fresh [OF d(7)] by (auto simp: spawned_task_def)
  have "sched_inv ?k"
    unfolding sched_inv_def using d(1,2,3,4,6,7) free roots running fresh by (auto simp del: spawned_simps(10) simp: less_SucI)
  moreover have "tree_inv kptr (nodes m) (root_of ?k t)" if "t = k_next_tid k \<or> t \<in> set (task_list k)" for t
    using that root [of t] ext(1) m(5) new by (auto simp: root_of_def spawned_task_def)
  ultimately show "kernel_inv ?k" using m(1) by (auto simp: kernel_inv_def)
qed

lemma stack_room:
  assumes "4096 dvd unat p" "unat p + 0x4000 = unat (la_next h)"
    "unat p = align_up_nat 4096 (unat (la_next (heap m)))" "la_end h = la_end (heap m)"
  shows "room (m\<lparr>heap := h\<rparr>) j \<longleftrightarrow> room m (4 + j)"
proof -
  have "4096 dvd unat (la_next h)" unfolding assms(2) [symmetric] using assms(1) by simp
  then have "align_up_nat 4096 (unat (la_next h)) = unat p + 0x4000" using assms(2) by (simp add: align_up_nat_id)
  then show ?thesis using assms(3,4) by (simp add: room_def algebra_simps)
qed

lemma spawn_ok:
  assumes inv: "kernel_inv k" and r: "room (k_mem k) (5 + j)"
  obtains m root kstack where
    "spawn func k = Inr (spawned k m ((zero_stack kstack (k_words k))(kstack + 0x1FFF8 := func)) (spawned_task k kstack root))"
    "kernel_inv (spawned k m ((zero_stack kstack (k_words k))(kstack + 0x1FFF8 := func)) (spawned_task k kstack root))"
    "aspace m root = aspace (k_mem k) (root_of k (current_of k))" "root \<notin> dom (nodes (k_mem k))"
    "\<forall>t \<in> set (task_list k). aspace m (root_of k t) = aspace (k_mem k) (root_of k t)"
    "4096 dvd unat kstack" "la_next (heap (k_mem k)) \<le> kstack" "room m j"
proof -
  have si: "sched_inv k" and mi: "kmem_inv (k_mem k)"
    and tree: "tree_inv kptr (nodes (k_mem k)) (root_of k (current_of k))"
    using inv sched_invD(7) [of k] by (auto simp: kernel_inv_def)
  have "fits (heap (k_mem k)) stack_layout"
    using r by (simp add: fits_def block_start_def room_def stack_layout_def KERNEL_STACK_SIZE_def)
  then obtain h p where b:
    "box_zeroed_stack k = Inr (k\<lparr>k_mem := (k_mem k)\<lparr>heap := h\<rparr>, k_words := zero_stack p (k_words k)\<rparr>, p)"
    "kmem_inv ((k_mem k)\<lparr>heap := h\<rparr>)" "4096 dvd unat p" "la_next (heap (k_mem k)) \<le> p"
    "unat p + 0x4000 = unat (la_next h)" "la_end h = la_end (heap (k_mem k))"
    "unat p = align_up_nat 4096 (unat (la_next (heap (k_mem k))))"
    using box_zeroed_stack_ok [OF mi] by blast
  let ?m = "(k_mem k)\<lparr>heap := h\<rparr>" and ?r = "root_of k (current_of k)"
  have room: "room ?m (Suc j)" using stack_room [OF b(3,5,7,6), of "Suc j"] r by simp
  have tree1: "tree_inv kptr (nodes ?m) ?r" and same: "aspace ?m ?r = aspace (k_mem k) ?r" "nodes ?m = nodes (k_mem k)"
    using tree by (simp_all add: space_def)
  obtain m root c where dup: "duplicate_kernel ?m ?r = Inr (m, root)" "root \<notin> dom (nodes ?m)"
    "nodes m = (nodes ?m)(root \<mapsto> c)" "length (entries c) = 512" "kmem_inv m" "tree_inv kptr (nodes m) root"
    "aspace m root = aspace ?m ?r" "room m j"
    by (rule duplicate_kernel_ok [OF b(2) tree1 room])
  note dup = dup [unfolded same]
  show ?thesis
    by (rule that [of m p root])
      (use spawn_run [OF si b(1) dup(1)] spawned_inv(1,3) [OF inv dup(5,3,2,4,6)] dup(2,7,8) b(3,4) in simp_all)
qed

lemma spawn_full:
  assumes inv: "kernel_inv k" and r: "\<not> room (k_mem k) 5"
  shows "spawn func k = Inl Alloc_error"
proof (cases "fits (heap (k_mem k)) stack_layout")
  case False
  then show ?thesis using box_zeroed_stack_full [of k] inv by (simp add: spawn_def kernel_inv_def)
next
  case True
  have si: "sched_inv k" and mi: "kmem_inv (k_mem k)" using inv by (auto simp: kernel_inv_def)
  obtain h p where b:
    "box_zeroed_stack k = Inr (k\<lparr>k_mem := (k_mem k)\<lparr>heap := h\<rparr>, k_words := zero_stack p (k_words k)\<rparr>, p)"
    "kmem_inv ((k_mem k)\<lparr>heap := h\<rparr>)" "4096 dvd unat p" "la_next (heap (k_mem k)) \<le> p"
    "unat p + 0x4000 = unat (la_next h)" "la_end h = la_end (heap (k_mem k))"
    "unat p = align_up_nat 4096 (unat (la_next (heap (k_mem k))))"
    using box_zeroed_stack_ok [OF mi True] by blast
  have "\<not> room ((k_mem k)\<lparr>heap := h\<rparr>) 1" using stack_room [OF b(3,5,7,6), of 1] r by simp
  then have dup: "duplicate_kernel ((k_mem k)\<lparr>heap := h\<rparr>) s = Inl Alloc_error" for s
    using box_zeroed_node_full [OF b(2)] by (simp add: duplicate_kernel_def)
  obtain l where "k_store k (current_of k) = Some l" "\<not> sl_locked l"
      "task_page_table (sl_value l) = Some (root_of k (current_of k))"
    using current_lock_cell [OF si] by blast
  then show ?thesis
    using dup by (simp add: spawn_def b(1) current_task_ok [OF si] lock_defs unwrap_option_def)
qed

section \<open>Runs of the kernel\<close>

lemma init_ok:
  assumes "kmem_inv m" "tree_inv kptr (nodes m) root"
  obtains k where "init root (kernel_boot m b) = Inr k" "kernel_inv k" "task_list k = [0]" "current_of k = 0"
    "k_mem k = m" "root_of k 0 = root" "runnable k 0"
proof -
  define task where "task = \<lparr>task_pid = PId 0, task_state = Runnable, task_running = True,
      task_context = context_default, task_page_table = Some root, task_kernel_stack = None\<rparr>"
  define k where "k = (kernel_boot m b)\<lparr>k_pid := 1, k_if := True, k_next_tid := 1, k_store := [0 \<mapsto> spin_new task],
      k_tasks := \<lparr>sl_locked = False, sl_value = [0]\<rparr>, k_current := \<lparr>sl_locked = False, sl_value = Some 0\<rparr>\<rparr>"
  have i: "init root (kernel_boot m b) = Inr k"
    by (simp add: init_def task_new_def arc_new_def tasks_push_def set_current_def lock_defs kernel_boot_def spin_new_def
        k_def task_def Let_def)
  have f: "task_list k = [0]" "current_of k = 0" "k_mem k = m" "the_task k 0 = task"
    by (simp_all add: k_def current_of_def kernel_boot_def the_task_def spin_new_def)
  moreover have r: "root_of k 0 = root" "runnable k 0" using f(4) by (simp_all add: root_of_def runnable_def task_def)
  moreover have "linear_root root" using node_linear_root [OF assms(1)] tree_invD(2) [OF assms(2)] by blast
  then have "sched_inv k"
    using f(1,4) by (simp add: sched_inv_def free_task_def) (simp add: k_def task_def spin_new_def)
  then have "kernel_inv k" using assms f(1,3) r(1) by (simp add: kernel_inv_def)
  ultimately show ?thesis using i that by blast
qed

inductive kernel_step :: "kernel \<Rightarrow> kernel \<Rightarrow> bool" where
  step_tick: "kernel_step k (tick k)"
| step_switch: "switch k = Some (Inr (k', r)) \<Longrightarrow> kernel_step k k'"
| step_spawn: "spawn func k = Inr k' \<Longrightarrow> kernel_step k k'"

inductive_cases kernel_stepE: "kernel_step k k'"

inductive kernel_run :: "usize \<Rightarrow> kmem \<Rightarrow> kernel \<Rightarrow> bool" for root m where
  run_init: "init root (kernel_boot m b) = Inr k \<Longrightarrow> kernel_run root m k"
| run_step: "kernel_run root m k \<Longrightarrow> kernel_step k k' \<Longrightarrow> kernel_run root m k'"

lemma tick_inv: "kernel_inv k \<Longrightarrow> kernel_inv (tick k)"
  by (simp add: kernel_inv_def sched_inv_def tick_def free_task_def the_task_def root_of_def)

lemma switch_inv: "kernel_inv k \<Longrightarrow> switch k = Some (Inr (k', r)) \<Longrightarrow> kernel_inv k'"
  using switch_cases_inv [of k k' r] by (simp add: kernel_inv_def kmem_inv_def)

lemma spawn_inv:
  assumes "kernel_inv k" "spawn func k = Inr k'"
  shows "kernel_inv k'"
proof (cases "room (k_mem k) 5")
  case True
  show ?thesis by (rule spawn_ok [OF assms(1), of 0 func]) (use True in \<open>simp_all add: assms(2)\<close>)
next
  case False
  then show ?thesis using spawn_full [OF assms(1), of func] assms(2) by simp
qed

lemma step_inv: "kernel_inv k \<Longrightarrow> kernel_step k k' \<Longrightarrow> kernel_inv k'"
  by (erule kernel_stepE) (blast intro: tick_inv switch_inv spawn_inv)+

text \<open>
  C11: In every state that the kernel reaches from \<open>task::init\<close> on a well-formed page table by any
  sequence of ticks, spawns and switches, no lock is left held, the task list has distinct
  tasks, exactly the current task is marked as running, every task has a well-formed page table
  in the linear window, and the heap invariant holds.
\<close>

theorem kernel_run_invariant:
  assumes "kernel_run root m k" "kmem_inv m" "tree_inv kptr (nodes m) root"
  shows "kernel_inv k"
  using assms
proof (induction rule: kernel_run.induct)
  case (run_init b k)
  show ?case by (rule init_ok [OF run_init(2,3), of b]) (simp add: run_init(1))
next
  case (run_step k k')
  then show ?case using step_inv by blast
qed

lemma example_spawn_room: "k_mem k = example_mem \<Longrightarrow> room (k_mem k) (5 + 0)"
  by (simp add: example_mem_ok(5))

theorem kernel_run_invariant_witness:
  "\<exists>k. kernel_run 0xFFFF888001000000 example_mem k \<and> length (task_list k) = 2 \<and> kernel_inv k"
proof -
  obtain k where k: "init 0xFFFF888001000000 (kernel_boot example_mem True) = Inr k" "kernel_inv k"
      "task_list k = [0]" "k_mem k = example_mem"
    using init_ok [OF example_mem_ok(1,2), of True] by blast
  note run = run_init [OF k(1)]
  obtain m w t where s: "spawn 0x1000 k = Inr (spawned k m w t)"
    by (rule spawn_ok [OF k(2) example_spawn_room [OF k(4)], of "0x1000"]) (rule that)
  have run2: "kernel_run 0xFFFF888001000000 example_mem (spawned k m w t)"
    by (rule run_step [OF run step_spawn [OF s]])
  have "length (task_list (spawned k m w t)) = 2" using k(3) by simp
  then show ?thesis using run2 kernel_run_invariant [OF run2 example_mem_ok(1,2)] by blast
qed



text \<open>
  Without room for the stack and the root table \<open>spawn\<close> ends in the allocation-error handler,
  whichever of the two allocations fails.
\<close>

lemma spawn_out_of_memory:
  assumes "kernel_inv k"
    "\<not> align_up_nat 4096 (unat (la_next (heap (k_mem k)))) + 0x5000 \<le> unat (la_end (heap (k_mem k)))"
  shows "spawn func k = Inl Alloc_error"
  using assms by (intro spawn_full) (simp_all add: room_def)

end
