(* ===== verification/Timer.thy ===== *)
theory Timer
  imports Spin
begin

text \<open>
  The local APIC timer (\<open>kernel/src/timer.rs\<close>).  A volatile write to a device register is an
  entry in a trace of address and value, oldest first; the interrupt flag that the lock around
  the timer changes is passed along.
\<close>

type_synonym mmio = "(usize \<times> u32) list"

record LocalApicTimer =
  lt_base :: usize
  lt_count :: u32

definition APIC_BASE :: usize where "APIC_BASE = 0xFEE00000"
definition TIMER :: usize where "TIMER = 0x320"
definition TIMER_DIV :: usize where "TIMER_DIV = 0x3E0"
definition TIMER_INIT_COUNT :: usize where "TIMER_INIT_COUNT = 0x380"
definition END_OF_INTERRUPT :: usize where "END_OF_INTERRUPT = 0xB0"

lemmas timer_offsets = APIC_BASE_def TIMER_def TIMER_DIV_def TIMER_INIT_COUNT_def END_OF_INTERRUPT_def

definition timer_new :: LocalApicTimer where
  "timer_new = \<lparr>lt_base = APIC_BASE, lt_count = 0\<rparr>"

definition register :: "LocalApicTimer \<Rightarrow> usize \<Rightarrow> usize outcome" where
  "register t offset = add_chk (lt_base t) offset"

definition write_volatile :: "usize \<Rightarrow> u32 \<Rightarrow> mmio \<Rightarrow> mmio" where
  "write_volatile a v io = io @ [(a, v)]"

definition write_register :: "LocalApicTimer \<Rightarrow> usize \<Rightarrow> u32 \<Rightarrow> mmio \<Rightarrow> mmio outcome" where
  "write_register t offset v io = bind_out (register t offset) (\<lambda>a. Inr (write_volatile a v io))"

definition timer_init :: "LocalApicTimer \<Rightarrow> mmio \<Rightarrow> mmio outcome" where
  "timer_init t io =
     bind_out (write_register t TIMER_DIV 0b100 io) (\<lambda>io1.
     bind_out (write_register t TIMER_INIT_COUNT 0x1000000 io1) (\<lambda>io2.
     write_register t TIMER (push_bit 16 0b010 OR 0x2a) io2))"

definition timer_increment :: "LocalApicTimer \<Rightarrow> LocalApicTimer outcome" where
  "timer_increment t =
     bind_out (add_chk (lt_count t) 1) (\<lambda>c.
     if c = 0 then Inr (t\<lparr>lt_count := 1\<rparr>) else Inr (t\<lparr>lt_count := c\<rparr>))"

definition timer_notify :: "LocalApicTimer \<Rightarrow> mmio \<Rightarrow> mmio outcome" where
  "timer_notify t io = write_register t END_OF_INTERRUPT 0 io"

text \<open>The functions on the global timer, which take its lock: interrupt flag, lock and trace.\<close>

definition init_timer :: "bool \<Rightarrow> LocalApicTimer SpinLock \<Rightarrow> mmio \<Rightarrow> (bool \<times> LocalApicTimer SpinLock \<times> mmio) outcome" where
  "init_timer i l io = with_lock (\<lambda>t. bind_out (timer_init t io) (\<lambda>io1. Inr (t, io1))) i l"

definition get_count :: "bool \<Rightarrow> LocalApicTimer SpinLock \<Rightarrow> (bool \<times> LocalApicTimer SpinLock \<times> u32) outcome" where
  "get_count i l = with_lock (\<lambda>t. Inr (t, lt_count t)) i l"

definition increment_count :: "bool \<Rightarrow> LocalApicTimer SpinLock \<Rightarrow> (bool \<times> LocalApicTimer SpinLock \<times> unit) outcome" where
  "increment_count i l = with_lock (\<lambda>t. bind_out (timer_increment t) (\<lambda>t1. Inr (t1, ()))) i l"

definition notify_end_of_interrupt :: "bool \<Rightarrow> LocalApicTimer SpinLock \<Rightarrow> mmio \<Rightarrow> (bool \<times> LocalApicTimer SpinLock \<times> mmio) outcome" where
  "notify_end_of_interrupt i l io = with_lock (\<lambda>t. bind_out (timer_notify t io) (\<lambda>io1. Inr (t, io1))) i l"

section \<open>Behaviour\<close>

text \<open>The timer at its own address, not locked.\<close>

definition timer_ok :: "LocalApicTimer SpinLock \<Rightarrow> bool" where
  "timer_ok l \<longleftrightarrow> \<not> sl_locked l \<and> lt_base (sl_value l) = APIC_BASE"

lemma timer_new_ok: "timer_ok (spin_new timer_new)"
  by (simp add: timer_ok_def spin_new_def timer_new_def)

lemma write_register_ok:
  "lt_base t = APIC_BASE \<Longrightarrow> unat off < 0x1000 \<Longrightarrow> write_register t off v io = Inr (io @ [(0xFEE00000 + off, v)])"
  by (simp add: write_register_def register_def APIC_BASE_def add_chk_def write_volatile_def)

lemma init_timer_ok:
  assumes "timer_ok l"
  shows "init_timer i l io =
    Inr (True, l, io @ [(0xFEE003E0, 4), (0xFEE00380, 0x1000000), (0xFEE00320, 0x2002A)])"
proof -
  have "timer_init (sl_value l) io = Inr (io @ [(0xFEE003E0, 4), (0xFEE00380, 0x1000000), (0xFEE00320, 0x2002A)])"
    using assms by (simp add: timer_init_def write_register_ok timer_ok_def timer_offsets)
  then show ?thesis
    using assms by (cases l) (simp add: init_timer_def timer_ok_def with_lock_free)
qed

lemma increment_count_ok:
  assumes "timer_ok l" "unat (lt_count (sl_value l)) + 1 < 2 ^ 32"
  shows "increment_count i l = Inr (True, l\<lparr>sl_value := (sl_value l)\<lparr>lt_count := lt_count (sl_value l) + 1\<rparr>\<rparr>, ())"
    "timer_ok (l\<lparr>sl_value := (sl_value l)\<lparr>lt_count := lt_count (sl_value l) + 1\<rparr>\<rparr>)"
proof -
  have "unat (lt_count (sl_value l) + 1) = unat (lt_count (sl_value l)) + 1"
    using assms(2) by (subst unat_add_no_wrap) simp_all
  then have "lt_count (sl_value l) + 1 \<noteq> 0" by auto
  then have "timer_increment (sl_value l) = Inr ((sl_value l)\<lparr>lt_count := lt_count (sl_value l) + 1\<rparr>)"
    using assms(2) by (simp add: timer_increment_def add_chk_def)
  then show "increment_count i l = Inr (True, l\<lparr>sl_value := (sl_value l)\<lparr>lt_count := lt_count (sl_value l) + 1\<rparr>\<rparr>, ())"
    using assms(1) by (cases l) (simp add: increment_count_def timer_ok_def with_lock_free)
qed (use assms(1) in \<open>simp add: timer_ok_def\<close>)

text \<open>The wrap-around that \<open>increment_count\<close> handles is never reached: the addition panics before it.\<close>

lemma increment_count_overflow:
  assumes "timer_ok l" "lt_count (sl_value l) = 0xFFFFFFFF"
  shows "increment_count i l = Inl Arith_overflow"
  using assms by (simp add: increment_count_def with_lock_def spin_lock_def timer_ok_def guard_deref_def
      timer_increment_def add_chk_def)

lemma notify_end_of_interrupt_ok:
  assumes "timer_ok l"
  shows "notify_end_of_interrupt i l io = Inr (True, l, io @ [(0xFEE000B0, 0)])"
proof -
  have "timer_notify (sl_value l) io = Inr (io @ [(0xFEE000B0, 0)])"
    using assms by (simp add: timer_notify_def write_register_ok timer_ok_def timer_offsets)
  then show ?thesis
    using assms by (cases l) (simp add: notify_end_of_interrupt_def timer_ok_def with_lock_free)
qed

end
