(* ===== verification/Interrupt_Dispatch.thy ===== *)
theory Interrupt_Dispatch
  imports Interrupt Timer Task_Correct
begin

text \<open>
  The Rust side of interrupts (\<open>interrupt_handler\<close> and \<open>check_and_schedule\<close> of
  \<open>kernel/src/idt.rs\<close>) over the tasks and the timer, and preemption: timer interrupts make the
  scheduler switch every third tick.  The text of a diagnostic is represented by the format
  call that prints it and its arguments.
\<close>

section \<open>Dispatch\<close>

datatype diagnostic =
    Breakpoint_exception
  | Invalid_opcode_exception
  | General_protection_fault
  | Rip u64
  | Page_fault
  | Rip_error_code u64 u64
  | Unhandled_interrupt u64

record system =
  sy_kernel :: kernel
  sy_timer :: "LocalApicTimer SpinLock"
  sy_mmio :: mmio
  sy_log :: "diagnostic list"

definition report :: "diagnostic \<Rightarrow> system \<Rightarrow> system" where
  "report d s = s\<lparr>sy_log := sy_log s @ [d]\<rparr>"

text \<open>A handler returns to the entry code or stays in the loop of \<open>hlt\<close>.\<close>

datatype handled = Returned system | Halted system

definition timer_tick :: "system \<Rightarrow> system outcome" where
  "timer_tick s =
     bind_out (increment_count (k_if (sy_kernel s)) (sy_timer s)) (\<lambda>(i1, l1, _).
     bind_out (notify_end_of_interrupt i1 l1 (sy_mmio s)) (\<lambda>(i2, l2, io).
     Inr (s\<lparr>sy_kernel := tick ((sy_kernel s)\<lparr>k_if := i2\<rparr>), sy_timer := l2, sy_mmio := io\<rparr>)))"

definition interrupt_handler :: "InterruptStackFrame \<Rightarrow> system \<Rightarrow> handled outcome" where
  "interrupt_handler f s =
     (if vector f = 3 then Inr (Returned (report Breakpoint_exception s))
      else if vector f = 6 then Inr (Halted (report Invalid_opcode_exception s))
      else if vector f = 13 then
        Inr (Halted (report (Rip (ic_rip (int_context f))) (report General_protection_fault s)))
      else if vector f = 14 then
        Inr (Halted (report (Rip_error_code (ic_rip (int_context f)) (error_code f)) (report Page_fault s)))
      else if vector f = 42 then bind_out (timer_tick s) (\<lambda>s1. Inr (Returned s1))
      else Inr (Halted (report (Unhandled_interrupt (vector f)) s)))"

definition check_and_schedule :: "system \<Rightarrow> system outcome option" where
  "check_and_schedule s =
     (if 3 \<le> k_ticks (sy_kernel s)
      then bind_run (switch (sy_kernel s)) (\<lambda>(k, _). Some (Inr (s\<lparr>sy_kernel := k\<rparr>)))
      else Some (Inr s))"

text \<open>The two calls of \<open>interrupt_handler_common\<close>.\<close>

definition service :: "InterruptStackFrame \<Rightarrow> system \<Rightarrow> handled outcome option" where
  "service f s =
     bind_run (Some (interrupt_handler f s)) (\<lambda>h.
     case h of Halted s1 \<Rightarrow> Some (Inr (Halted s1))
     | Returned s1 \<Rightarrow> bind_run (check_and_schedule s1) (\<lambda>s2. Some (Inr (Returned s2))))"

text \<open>A sequence of interrupts; after a halt nothing runs any more.\<close>

fun interrupts :: "InterruptStackFrame list \<Rightarrow> system \<Rightarrow> handled outcome option" where
  "interrupts [] s = Some (Inr (Returned s))"
| "interrupts (f # fs) s =
     bind_run (service f s) (\<lambda>h. case h of Halted s1 \<Rightarrow> Some (Inr (Halted s1)) | Returned s1 \<Rightarrow> interrupts fs s1)"

section \<open>One timer interrupt\<close>

definition ticked :: "system \<Rightarrow> nat \<Rightarrow> kernel \<Rightarrow> system" where
  "ticked s n k =
     s\<lparr>sy_kernel := k,
       sy_timer := (sy_timer s)\<lparr>sl_value := (sl_value (sy_timer s))\<lparr>lt_count := lt_count (sl_value (sy_timer s)) + of_nat n\<rparr>\<rparr>,
       sy_mmio := sy_mmio s @ replicate n (0xFEE000B0, 0)\<rparr>"

definition timer_room :: "system \<Rightarrow> nat \<Rightarrow> bool" where
  "timer_room s n \<longleftrightarrow> timer_ok (sy_timer s) \<and> unat (lt_count (sl_value (sy_timer s))) + n < 2 ^ 32"

lemma ticked_simps [simp]:
  "sy_kernel (ticked s n k) = k" "sy_log (ticked s n k) = sy_log s"
  "sy_mmio (ticked s n k) = sy_mmio s @ replicate n (0xFEE000B0, 0)"
  "(ticked s n k)\<lparr>sy_kernel := k'\<rparr> = ticked s n k'"
  by (simp_all add: ticked_def)

lemma ticked_ticked: "ticked (ticked s m k) n k' = ticked s (m + n) k'"
  by (simp add: ticked_def replicate_add ac_simps)

lemma ticked_0: "ticked s 0 (sy_kernel s) = s"
  by (simp add: ticked_def)

lemma timer_room_ticked: "timer_room s (m + n) \<Longrightarrow> timer_room (ticked s m k) n"
proof -
  assume r: "timer_room s (m + n)"
  let ?c = "lt_count (sl_value (sy_timer s))"
  have "unat (?c + of_nat m) = unat ?c + m"
    using r by (subst unat_add_no_wrap) (simp_all add: timer_room_def unat_of_nat take_bit_nat_eq_self)
  then show ?thesis using r by (simp add: timer_room_def ticked_def timer_ok_def)
qed

lemma timer_tick_ok:
  assumes "timer_room s 1"
  shows "timer_tick s = Inr (ticked s 1 ((sy_kernel s)\<lparr>k_if := True, k_ticks := k_ticks (sy_kernel s) + 1\<rparr>))"
  using assms by (simp add: timer_tick_def timer_room_def increment_count_ok notify_end_of_interrupt_ok ticked_def tick_def)

lemma switch_ticks: "switch (k\<lparr>k_if := b, k_ticks := c\<rparr>) = switch k"
  by (simp add: switch_def switch_prepare_def)

lemma service_timer:
  assumes "vector f = 42" "timer_room s 1"
  shows "service f s =
    (if 3 \<le> k_ticks (sy_kernel s) + 1
     then bind_run (switch (sy_kernel s)) (\<lambda>(k, _). Some (Inr (Returned (ticked s 1 k))))
     else Some (Inr (Returned (ticked s 1 ((sy_kernel s)\<lparr>k_if := True, k_ticks := k_ticks (sy_kernel s) + 1\<rparr>)))))"
proof -
  let ?k = "(sy_kernel s)\<lparr>k_if := True, k_ticks := k_ticks (sy_kernel s) + 1\<rparr>"
  have h: "interrupt_handler f s = Inr (Returned (ticked s 1 ?k))"
    using timer_tick_ok [OF assms(2)] assms(1) by (simp add: interrupt_handler_def)
  show ?thesis
    by (simp only: service_def h) (simp add: check_and_schedule_def switch_ticks bind_run_def split: option.split sum.split prod.split)
qed

section \<open>Preemption\<close>

lemma interrupts_append:
  "interrupts (fs @ gs) s =
    bind_run (interrupts fs s) (\<lambda>h. case h of Halted s1 \<Rightarrow> Some (Inr (Halted s1)) | Returned s1 \<Rightarrow> interrupts gs s1)"
proof (induction fs arbitrary: s)
  case (Cons f fs)
  then show ?case by (simp add: bind_run_def split: option.split sum.split handled.split)
qed simp

lemma slice_compare: "\<not> (3 :: u64) \<le> 1" "\<not> (3 :: u64) \<le> 2"
  by (simp_all add: word_le_nat_alt)

lemma interrupts_before_slice:
  assumes "\<forall>f \<in> set fs. vector f = 42" "timer_room s (length fs)" "k_ticks (sy_kernel s) = 0" "length fs < 3"
  shows "\<exists>b. interrupts fs s =
    Some (Inr (Returned (ticked s (length fs) ((sy_kernel s)\<lparr>k_if := b, k_ticks := of_nat (length fs)\<rparr>))))"
proof -
  consider "fs = []" | f where "fs = [f]" | f g where "fs = [f, g]"
    using assms(4) by (cases fs; cases "tl fs"; cases "tl (tl fs)") auto
  then show ?thesis
  proof cases
    case 1
    then show ?thesis using assms(3) by (intro exI [of _ "k_if (sy_kernel s)"]) (simp add: ticked_def)
  next
    case 2
    then show ?thesis using assms by (simp add: service_timer slice_compare) blast
  next
    case (3 f g)
    have r: "timer_room s 1" "timer_room (ticked s 1 k) 1" for k
      using assms(2) 3 timer_room_ticked [of s 1 1] by (simp_all add: timer_room_def)
    show ?thesis using assms(1,3) 3 r by (simp add: service_timer ticked_ticked slice_compare) blast
  qed
qed

lemma timer_interrupts_switch:
  assumes "length fs = 3" "\<forall>f \<in> set fs. vector f = 42" "timer_room s 3" "k_ticks (sy_kernel s) = 0"
    "switch (sy_kernel s) = Some (Inr (k, r))"
  shows "interrupts fs s = Some (Inr (Returned (ticked s 3 k)))"
proof -
  obtain f g h where fs: "fs = [f, g] @ [h]"
    using assms(1) by (auto simp: numeral_3_eq_3 length_Suc_conv)
  have r: "timer_room s (length [f, g])" "timer_room (ticked s 2 k') 1" for k'
    using assms(3) timer_room_ticked [of s 2 1] by (simp_all add: timer_room_def)
  obtain b where two: "interrupts [f, g] s = Some (Inr (Returned (ticked s 2 ((sy_kernel s)\<lparr>k_if := b, k_ticks := 2\<rparr>))))"
    using interrupts_before_slice [of "[f, g]" s] assms(2,4) r(1) fs by (auto simp: numeral_2_eq_2)
  show ?thesis
    unfolding fs interrupts_append two
    using assms(2,5) fs r(2) by (simp add: service_timer switch_ticks ticked_ticked)
qed

lemma switch_resets_ticks: "sched_inv k \<Longrightarrow> switch k = Some (Inr (k', r)) \<Longrightarrow> k_ticks k' = 0"
  by (auto simp: switch_cases split: option.splits if_splits)

lemma timer_interrupts_switches:
  assumes "switches m (sy_kernel s) = Some (Inr k)" "length fs = 3 * m" "\<forall>f \<in> set fs. vector f = 42"
    "timer_room s (3 * m)" "k_ticks (sy_kernel s) = 0" "sched_inv (sy_kernel s)"
  shows "interrupts fs s = Some (Inr (Returned (ticked s (3 * m) k)))"
  using assms
proof (induction m arbitrary: s fs)
  case 0
  then show ?case using ticked_0 [of s] by simp
next
  case (Suc m)
  obtain k1 r where k1: "switch (sy_kernel s) = Some (Inr (k1, r))" "switches m k1 = Some (Inr k)"
    using Suc.prems(1) by (auto simp: bind_run_def split: option.splits sum.splits)
  let ?a = "take 3 fs" and ?b = "drop 3 fs"
  have sets: "\<forall>f \<in> set ?a. vector f = 42" "\<forall>f \<in> set ?b. vector f = 42"
    using Suc.prems(3) in_set_takeD in_set_dropD by fast+
  have room: "timer_room s 3" "timer_room (ticked s 3 k1) (3 * m)"
    using Suc.prems(4) timer_room_ticked [of s 3 "3 * m"] by (simp_all add: timer_room_def)
  have one: "interrupts ?a s = Some (Inr (Returned (ticked s 3 k1)))"
    using timer_interrupts_switch [OF _ sets(1) room(1) Suc.prems(5) k1(1)] Suc.prems(2) by simp
  have "interrupts ?b (ticked s 3 k1) = Some (Inr (Returned (ticked (ticked s 3 k1) (3 * m) k)))"
    using Suc.IH [of "ticked s 3 k1" ?b] k1 sets(2) room(2) Suc.prems(2,6)
      switch_resets_ticks switch_cases_inv [OF Suc.prems(6) k1(1)] by simp
  then show ?case
    using one interrupts_append [of ?a ?b s] by (simp add: ticked_ticked)
qed

lemma timer_reaches:
  assumes "sched_inv (sy_kernel s)" "k_ticks (sy_kernel s) = 0" "timer_room s (3 * e)"
    "i < length (task_list (sy_kernel s))" "task_list (sy_kernel s) ! i = current_of (sy_kernel s)"
    "0 < e" "e < length (task_list (sy_kernel s))"
    "runnable (sy_kernel s) (task_list (sy_kernel s) ! ((i + e) mod length (task_list (sy_kernel s))))"
    "vector f = 42"
  shows "\<exists>m s'. 0 < m \<and> m \<le> e \<and> interrupts (replicate (3 * m) f) s = Some (Inr (Returned s')) \<and>
    sl_value (k_current (sy_kernel s')) =
      Some (task_list (sy_kernel s) ! ((i + e) mod length (task_list (sy_kernel s)))) \<and>
    sy_mmio s' = sy_mmio s @ replicate (3 * m) (0xFEE000B0, 0)"
proof -
  obtain m k where m: "0 < m" "m \<le> e" "switches m (sy_kernel s) = Some (Inr k)" "sched_inv k"
      "current_of k = task_list (sy_kernel s) ! ((i + e) mod length (task_list (sy_kernel s)))"
    using switches_reach [OF assms(1,4-8)] by blast
  have "timer_room s (3 * m)" using assms(3) m(2) by (simp add: timer_room_def)
  then have "interrupts (replicate (3 * m) f) s = Some (Inr (Returned (ticked s (3 * m) k)))"
    using timer_interrupts_switches [OF m(3) _ _ _ assms(2,1)] assms(9) by simp
  then show ?thesis
    using m sched_invD(6) [OF m(4)] by (intro exI [of _ m] exI [of _ "ticked s (3 * m) k"]) simp
qed

text \<open>
  C12: Preemptive round robin with a slice of three ticks.  From a state with no tick pending, the
  first two timer interrupts leave the current task running, and a runnable task \<open>e\<close> places
  after the current one in cyclic order is the current task after \<open>3 * m\<close> timer interrupts for
  some \<open>m\<close> between 1 and \<open>e\<close>; every one of the interrupts is acknowledged to the APIC, and none
  of them halts the machine.
\<close>

theorem timer_preempts_fairly:
  assumes "sched_inv (sy_kernel s)" "k_ticks (sy_kernel s) = 0" "timer_room s (3 * e)"
    "i < length (task_list (sy_kernel s))" "task_list (sy_kernel s) ! i = current_of (sy_kernel s)"
    "0 < e" "e < length (task_list (sy_kernel s))"
    "runnable (sy_kernel s) (task_list (sy_kernel s) ! ((i + e) mod length (task_list (sy_kernel s))))"
    "vector f = 42"
  shows "(\<exists>m s'. 0 < m \<and> m \<le> e \<and> interrupts (replicate (3 * m) f) s = Some (Inr (Returned s')) \<and>
      sl_value (k_current (sy_kernel s')) =
        Some (task_list (sy_kernel s) ! ((i + e) mod length (task_list (sy_kernel s)))) \<and>
      sy_mmio s' = sy_mmio s @ replicate (3 * m) (0xFEE000B0, 0)) \<and>
    (\<forall>n < 3. \<exists>s'. interrupts (replicate n f) s = Some (Inr (Returned s')) \<and>
      sl_value (k_current (sy_kernel s')) = sl_value (k_current (sy_kernel s)) \<and>
      sy_mmio s' = sy_mmio s @ replicate n (0xFEE000B0, 0))" (is "?switch \<and> ?keep")
proof
  show ?switch by (rule timer_reaches [OF assms])
  have "\<exists>b. interrupts (replicate n f) s =
      Some (Inr (Returned (ticked s n ((sy_kernel s)\<lparr>k_if := b, k_ticks := of_nat n\<rparr>))))" if "n < 3" for n
    using interrupts_before_slice [of "replicate n f" s] assms(2,3,6,9) that by (simp add: timer_room_def)
  then show ?keep by fastforce
qed

definition example_system :: system where
  "example_system =
     \<lparr>sy_kernel = (example_kernel Runnable Runnable)\<lparr>k_ticks := 0\<rparr>, sy_timer = spin_new timer_new, sy_mmio = [], sy_log = []\<rparr>"

definition example_frame :: "u64 \<Rightarrow> InterruptStackFrame" where
  "example_frame v = (frame_at (\<lambda>_. 0) 0)\<lparr>vector := v\<rparr>"

theorem timer_preempts_fairly_witness:
  "\<exists>s'. interrupts (replicate 3 (example_frame 42)) example_system = Some (Inr (Returned s')) \<and>
    sl_value (k_current (sy_kernel s')) = Some 1"
proof -
  let ?k = "(example_kernel Runnable Runnable)\<lparr>k_ticks := 0\<rparr>"
  have "?k = (example_kernel Runnable Runnable)\<lparr>k_if := True, k_ticks := 0\<rparr>" by (simp add: example_kernel_def)
  then have inv: "sched_inv ?k" using sched_inv_ticks [OF example_kernel_inv] by metis
  have t: "task_list ?k = [0, 1]" "current_of ?k = 0" "runnable ?k = runnable (example_kernel Runnable Runnable)"
    by (simp_all add: current_of_def) (simp add: example_kernel_def spin_new_def)
  have "\<exists>m s'. 0 < m \<and> m \<le> 1 \<and> interrupts (replicate (3 * m) (example_frame 42)) example_system = Some (Inr (Returned s')) \<and>
      sl_value (k_current (sy_kernel s')) = Some 1"
  proof -
    have sk: "sy_kernel example_system = ?k" "vector (example_frame 42) = 42" "k_ticks ?k = 0"
      by (simp_all add: example_system_def example_frame_def)
    have room: "timer_room example_system (3 * 1)"
      by (simp add: timer_room_def example_system_def timer_new_ok) (simp add: spin_new_def timer_new_def)
    have run: "runnable ?k 1" by (simp add: t(3)) (simp add: runnable_def example_task_def)
    show ?thesis
      using timer_preempts_fairly [of example_system 1 0 "example_frame 42"] inv room run
      unfolding sk(1) t(1,2) by (simp add: sk(2,3)) blast
  qed
  then obtain m where m: "0 < m" "m \<le> 1" "\<exists>s'. interrupts (replicate (3 * m) (example_frame 42)) example_system =
      Some (Inr (Returned s')) \<and> sl_value (k_current (sy_kernel s')) = Some 1" by blast
  then have "m = 1" by linarith
  then show ?thesis using m(3) by simp
qed

text \<open>
  Every interrupt other than a breakpoint and the timer stops the machine for good: the
  handler reports it and never returns, so no later interrupt is served and no task runs again,
  but tasks, timer and devices are as the interrupted code left them.
\<close>

definition exception_report :: "InterruptStackFrame \<Rightarrow> diagnostic list" where
  "exception_report f =
     (if vector f = 6 then [Invalid_opcode_exception]
      else if vector f = 13 then [General_protection_fault, Rip (ic_rip (int_context f))]
      else if vector f = 14 then [Page_fault, Rip_error_code (ic_rip (int_context f)) (error_code f)]
      else [Unhandled_interrupt (vector f)])"

lemma exceptions_halt:
  assumes "vector f \<noteq> 3" "vector f \<noteq> 42"
  shows "interrupts (f # fs) s = Some (Inr (Halted (s\<lparr>sy_log := sy_log s @ exception_report f\<rparr>)))"
  using assms by (simp add: service_def interrupt_handler_def report_def exception_report_def)

text \<open>
  A breakpoint is only reported, and the timer interrupt that would make the count wrap around
  panics in the middle of the handler.
\<close>

lemma breakpoint_returns:
  assumes "vector f = 3" "\<not> 3 \<le> k_ticks (sy_kernel s)"
  shows "service f s = Some (Inr (Returned (s\<lparr>sy_log := sy_log s @ [Breakpoint_exception]\<rparr>)))"
  using assms by (simp add: service_def interrupt_handler_def report_def check_and_schedule_def)

lemma timer_count_panics:
  assumes "vector f = 42" "timer_ok (sy_timer s)" "lt_count (sl_value (sy_timer s)) = 0xFFFFFFFF"
  shows "service f s = Some (Inl Arith_overflow)"
  using assms increment_count_overflow [OF assms(2,3)]
  by (simp add: service_def interrupt_handler_def timer_tick_def)

end
