(* ===== verification/Console.thy ===== *)
theory Console
  imports Noctis_Prelude
begin

text \<open>
  The serial console: port input and output (\<open>kernel/src/x86.rs\<close>), the UART
  (\<open>kernel/src/uart.rs\<close>), the logging macros (\<open>kernel/src/log.rs\<close>) and the exit device of QEMU
  (\<open>kernel/src/qemu.rs\<close>).  Port writes are a trace, oldest first.  What a device answers is a
  parameter: \<open>dev n p\<close> is the value of port \<open>p\<close> at the \<open>n\<close>-th port read.
\<close>

section \<open>Ports\<close>

record ports =
  io_out :: "(u16 \<times> u8) list"
  io_reads :: nat

type_synonym device = "nat \<Rightarrow> u16 \<Rightarrow> u8"

definition write_io :: "u16 \<Rightarrow> u8 \<Rightarrow> ports \<Rightarrow> ports" where
  "write_io port value io = io\<lparr>io_out := io_out io @ [(port, value)]\<rparr>"

definition read_io :: "device \<Rightarrow> u16 \<Rightarrow> ports \<Rightarrow> ports \<times> u8" where
  "read_io dev port io = (io\<lparr>io_reads := Suc (io_reads io)\<rparr>, dev (io_reads io) port)"

section \<open>UART\<close>

definition IO_ADDR_COM1 :: u16 where "IO_ADDR_COM1 = 0x3F8"
definition IO_BAUD_DIVISOR :: u16 where "IO_BAUD_DIVISOR = 0x01"

record Uart =
  uart_base :: u16

definition uart_new :: "u16 \<Rightarrow> Uart" where
  "uart_new base = \<lparr>uart_base = base\<rparr>"

definition uart_default :: Uart where
  "uart_default = uart_new IO_ADDR_COM1"

text \<open>\<open>write_io(self.base + off, v)\<close>.\<close>

definition uart_out :: "Uart \<Rightarrow> u16 \<Rightarrow> u8 \<Rightarrow> ports \<Rightarrow> ports outcome" where
  "uart_out u off v io = bind_out (add_chk (uart_base u) off) (\<lambda>p. Inr (write_io p v io))"

definition uart_init :: "Uart \<Rightarrow> ports \<Rightarrow> ports outcome" where
  "uart_init u io =
     bind_out (uart_out u 1 0x00 io) (\<lambda>io.
     bind_out (uart_out u 3 0x80 io) (\<lambda>io.
     bind_out (uart_out u 0 (ucast (IO_BAUD_DIVISOR AND 0xFF)) io) (\<lambda>io.
     bind_out (uart_out u 1 (ucast (drop_bit 8 IO_BAUD_DIVISOR)) io) (\<lambda>io.
     bind_out (uart_out u 3 0x03 io) (\<lambda>io.
     bind_out (uart_out u 2 0xC7 io) (\<lambda>io.
     uart_out u 4 0x0B io))))))"

text \<open>The loop that waits for the transmitter.\<close>

partial_function (option) uart_wait :: "device \<Rightarrow> Uart \<Rightarrow> ports \<Rightarrow> ports outcome option" where
  "uart_wait dev u io =
     (case add_chk (uart_base u) 5 of
        Inl e \<Rightarrow> Some (Inl e)
      | Inr p \<Rightarrow> let (io1, v) = read_io dev p io in
               if v AND 0x20 = 0 then uart_wait dev u io1 else Some (Inr io1))"

text \<open>A \<open>char\<close> is its code point.\<close>

definition uart_write :: "device \<Rightarrow> Uart \<Rightarrow> u32 \<Rightarrow> ports \<Rightarrow> ports outcome option" where
  "uart_write dev u byte io =
     bind_run (uart_wait dev u io) (\<lambda>io1. Some (Inr (write_io (uart_base u) (ucast byte) io1)))"

fun uart_write_str :: "device \<Rightarrow> Uart \<Rightarrow> u8 list \<Rightarrow> ports \<Rightarrow> ports outcome option" where
  "uart_write_str dev u [] io = Some (Inr io)"
| "uart_write_str dev u (b # bs) io = bind_run (uart_write dev u (ucast b) io) (\<lambda>io1. uart_write_str dev u bs io1)"

text \<open>The implementation of \<open>core::fmt::Write\<close> opens the default port.\<close>

definition fmt_write_str :: "device \<Rightarrow> Uart \<Rightarrow> u8 list \<Rightarrow> ports \<Rightarrow> ports outcome option" where
  "fmt_write_str dev self s io = uart_write_str dev uart_default s io"

section \<open>Logging\<close>

definition COLOR_RESET :: string where "COLOR_RESET = CHR 0x1B # ''[0m''"
definition COLOR_CYAN :: string where "COLOR_CYAN = CHR 0x1B # ''[36m''"
definition COLOR_YELLOW :: string where "COLOR_YELLOW = CHR 0x1B # ''[33m''"
definition COLOR_RED :: string where "COLOR_RED = CHR 0x1B # ''[31m''"

text \<open>\<open>print\<close> hands the pieces of the formatted text to \<open>write_str\<close>, one after the other.\<close>

fun print :: "device \<Rightarrow> string list \<Rightarrow> ports \<Rightarrow> ports outcome option" where
  "print dev [] io = Some (Inr io)"
| "print dev (s # ss) io = bind_run (fmt_write_str dev uart_default (map of_char s) io) (\<lambda>io1. print dev ss io1)"

definition println :: "device \<Rightarrow> string list \<Rightarrow> ports \<Rightarrow> ports outcome option" where
  "println dev args io = print dev (args @ [[CHR 0x0A]]) io"

text \<open>Decimal digits, and \<open>{:<3}\<close>: padded with blanks on the right to three columns.\<close>

fun decimal :: "nat \<Rightarrow> string" where
  "decimal n = (if n < 10 then [char_of (48 + n)] else decimal (n div 10) @ [char_of (48 + n mod 10)])"

declare decimal.simps [simp del]

definition left_3 :: "string \<Rightarrow> string" where
  "left_3 s = s @ replicate (3 - length s) (CHR '' '')"

text \<open>The pieces of one log line of the macros, with \<open>file!()\<close> and \<open>line!()\<close> of the place of the call.\<close>

definition log_line :: "string \<Rightarrow> string \<Rightarrow> string \<Rightarrow> nat \<Rightarrow> string list \<Rightarrow> string list" where
  "log_line color tag file line args =
     [color, tag, COLOR_RESET, '' '', file, '':'', left_3 (decimal line), '': ''] @ args @ [[CHR 0x0A]]"

definition warn :: "device \<Rightarrow> string \<Rightarrow> nat \<Rightarrow> string list \<Rightarrow> ports \<Rightarrow> ports outcome option" where
  "warn dev file line args io = print dev (log_line COLOR_YELLOW ''[WARN]'' file line args) io"

definition log_error :: "device \<Rightarrow> string \<Rightarrow> nat \<Rightarrow> string list \<Rightarrow> ports \<Rightarrow> ports outcome option" where
  "log_error dev file line args io = print dev (log_line COLOR_RED ''[ERROR]'' file line args) io"

definition info :: "device \<Rightarrow> string \<Rightarrow> nat \<Rightarrow> string list \<Rightarrow> ports \<Rightarrow> ports outcome option" where
  "info dev file line args io = print dev (log_line COLOR_CYAN ''[INFO]'' file line args) io"

section \<open>Leaving QEMU\<close>

datatype QemuExitCode = Sucess | Fail

fun exit_code_u8 :: "QemuExitCode \<Rightarrow> u8" where
  "exit_code_u8 Sucess = 1"
| "exit_code_u8 Fail = 2"

text \<open>The state in which \<open>exit_qemu\<close> halts the CPU.\<close>

definition exit_qemu :: "QemuExitCode \<Rightarrow> ports \<Rightarrow> ports" where
  "exit_qemu exit_code io = write_io 0xf4 (exit_code_u8 exit_code) io"

section \<open>Output\<close>

lemma uart_wait_ready:
  assumes "uart_base u = 0x3F8" "dev (io_reads io + n) 0x3FD AND 0x20 \<noteq> 0"
    "\<forall>m < n. dev (io_reads io + m) 0x3FD AND 0x20 = 0"
  shows "uart_wait dev u io = Some (Inr (io\<lparr>io_reads := io_reads io + Suc n\<rparr>))"
  using assms
proof (induction n arbitrary: io)
  case 0
  then show ?case by (subst uart_wait.simps) (simp add: add_chk_def read_io_def)
next
  case (Suc n)
  let ?io = "io\<lparr>io_reads := Suc (io_reads io)\<rparr>"
  have "uart_wait dev u ?io = Some (Inr (?io\<lparr>io_reads := io_reads ?io + Suc n\<rparr>))"
    by (rule Suc.IH [OF Suc.prems(1)]) (use Suc.prems(2,3) in auto)
  moreover have "dev (io_reads io) 0x3FD AND 0x20 = 0" using Suc.prems(3) by (metis add.right_neutral zero_less_Suc)
  ultimately show ?case
    using Suc.prems(1) by (subst uart_wait.simps) (simp add: add_chk_def read_io_def)
qed

text \<open>The transmitter of the first serial port becomes empty again and again.\<close>

definition transmits :: "device \<Rightarrow> bool" where
  "transmits dev \<longleftrightarrow> (\<forall>n. \<exists>m \<ge> n. dev m 0x3FD AND 0x20 \<noteq> 0)"

lemma uart_wait_transmits:
  assumes "transmits dev" "uart_base u = 0x3F8"
  obtains n where "uart_wait dev u io = Some (Inr (io\<lparr>io_reads := io_reads io + Suc n\<rparr>))"
    "dev (io_reads io + n) 0x3FD AND 0x20 \<noteq> 0"
proof -
  obtain m where "m \<ge> io_reads io" "dev m 0x3FD AND 0x20 \<noteq> 0" using assms(1) unfolding transmits_def by blast
  then have ex: "\<exists>n. dev (io_reads io + n) 0x3FD AND 0x20 \<noteq> 0" by (metis le_add_diff_inverse)
  define n where "n = (LEAST n. dev (io_reads io + n) 0x3FD AND 0x20 \<noteq> 0)"
  have "dev (io_reads io + n) 0x3FD AND 0x20 \<noteq> 0" unfolding n_def using ex by (rule LeastI_ex)
  moreover have "\<forall>m < n. dev (io_reads io + m) 0x3FD AND 0x20 = 0" unfolding n_def using not_less_Least by blast
  ultimately show ?thesis using uart_wait_ready [OF assms(2)] that by blast
qed

lemma ucast_u8: "(ucast (ucast b :: u32) :: u8) = b"
  by (rule bit_word_eqI) (simp add: bit_simps)

lemma write_str_ok:
  assumes "transmits dev"
  shows "\<exists>n. uart_write_str dev uart_default bs io =
    Some (Inr \<lparr>io_out = io_out io @ map (Pair 0x3F8) bs, io_reads = n\<rparr>)"
proof (induction bs arbitrary: io)
  case Nil
  then show ?case by (cases io) simp
next
  case (Cons b bs)
  have base: "uart_base uart_default = 0x3F8" by (simp add: uart_default_def uart_new_def IO_ADDR_COM1_def)
  obtain n where n: "uart_wait dev uart_default io = Some (Inr (io\<lparr>io_reads := io_reads io + Suc n\<rparr>))"
    using uart_wait_transmits [OF assms base] by metis
  let ?io = "write_io 0x3F8 b (io\<lparr>io_reads := io_reads io + Suc n\<rparr>)"
  have "uart_write dev uart_default (ucast b) io = Some (Inr ?io)"
    by (simp add: uart_write_def n base ucast_u8)
  then show ?case using Cons.IH [of ?io] by (auto simp: write_io_def)
qed

lemma print_ok:
  assumes "transmits dev"
  shows "\<exists>n. print dev ss io =
    Some (Inr \<lparr>io_out = io_out io @ map (\<lambda>c. (0x3F8, of_char c)) (concat ss), io_reads = n\<rparr>)"
proof (induction ss arbitrary: io)
  case Nil
  then show ?case by (cases io) simp
next
  case (Cons s ss)
  obtain n where n: "uart_write_str dev uart_default (map of_char s) io =
      Some (Inr \<lparr>io_out = io_out io @ map (Pair 0x3F8) (map of_char s), io_reads = n\<rparr>)"
    using write_str_ok [OF assms] by blast
  show ?case
    using Cons.IH [of "\<lparr>io_out = io_out io @ map (Pair 0x3F8) (map of_char s), io_reads = n\<rparr>"]
    by (auto simp: fmt_write_str_def n comp_def)
qed

text \<open>The bytes of a text on the port, and the ports after it has been printed.\<close>

abbreviation sent :: "string list \<Rightarrow> (u16 \<times> u8) list" where
  "sent ss \<equiv> map (\<lambda>c. (0x3F8, of_char c)) (concat ss)"

definition printed :: "device \<Rightarrow> string list \<Rightarrow> ports \<Rightarrow> ports" where
  "printed dev ss io = projr (the (print dev ss io))"

lemma print_printed:
  assumes "transmits dev"
  shows "print dev ss io = Some (Inr (printed dev ss io))" "io_out (printed dev ss io) = io_out io @ sent ss"
  using print_ok [OF assms, of ss io] by (auto simp: printed_def)

lemma always_ready: "transmits (\<lambda>_ _. 0x20)"
  by (auto simp: transmits_def)

text \<open>A transmitter that stays busy blocks the caller forever.\<close>

lemma uart_wait_result:
  assumes "uart_wait dev u io = Some r" "uart_base u = 0x3F8"
  shows "\<exists>n \<ge> io_reads io. dev n 0x3FD AND 0x20 \<noteq> 0"
proof -
  have "uart_base u = 0x3F8 \<longrightarrow> (\<exists>n \<ge> io_reads io. dev n 0x3FD AND 0x20 \<noteq> 0)"
  proof (rule uart_wait.raw_induct [where P = "\<lambda>dev u io r. uart_base u = 0x3F8 \<longrightarrow>
        (\<exists>n \<ge> io_reads io. dev n 0x3FD AND 0x20 \<noteq> 0)", OF _ assms(1)], intro impI)
    fix f :: "device \<Rightarrow> Uart \<Rightarrow> ports \<Rightarrow> ports outcome option" and dev u io y
    assume IH: "\<And>dev u io y. f dev u io = Some y \<Longrightarrow> uart_base u = 0x3F8 \<longrightarrow> (\<exists>n \<ge> io_reads io. dev n 0x3FD AND 0x20 \<noteq> 0)"
      and r: "(case add_chk (uart_base u) 5 of Inl e \<Rightarrow> Some (Inl e)
        | Inr p \<Rightarrow> let (io1, v) = read_io dev p io in if v AND 0x20 = 0 then f dev u io1 else Some (Inr io1)) = Some y"
      and base: "uart_base u = 0x3F8"
    show "\<exists>n \<ge> io_reads io. dev n 0x3FD AND 0x20 \<noteq> 0"
    proof (cases "dev (io_reads io) 0x3FD AND 0x20 = 0")
      case True
      then have "f dev u (io\<lparr>io_reads := Suc (io_reads io)\<rparr>) = Some y"
        using r base by (simp add: add_chk_def read_io_def)
      from IH [OF this] base show ?thesis by (auto intro: Suc_leD)
    qed blast
  qed
  then show ?thesis using assms(2) by blast
qed

lemma print_blocks:
  assumes "\<forall>n \<ge> io_reads io. dev n 0x3FD AND 0x20 = 0" "s \<noteq> []"
  shows "print dev (s # ss) io = None"
proof -
  have "uart_wait dev uart_default io = None"
    using uart_wait_result [of dev uart_default io] assms(1)
    by (cases "uart_wait dev uart_default io") (auto simp: uart_default_def uart_new_def IO_ADDR_COM1_def)
  then show ?thesis using assms(2) by (cases s) (simp_all add: fmt_write_str_def uart_write_def)
qed

text \<open>
  C24: A log line reaches the serial port.  When the transmitter of the first port becomes empty
  again and again, \<open>info!\<close> returns, and exactly the bytes of the coloured tag, of the place of the
  call with the line number padded to three columns, of the message and of the line feed have
  been written to the port, in this order and after all earlier output.
\<close>

theorem info_reaches_port:
  assumes "transmits dev"
  shows "\<exists>n. info dev file line args io = Some (Inr \<lparr>io_out = io_out io @ map (\<lambda>c. (0x3F8, of_char c))
    ((CHR 0x1B # ''[36m[INFO]'') @ (CHR 0x1B # ''[0m '') @ file @ '':'' @ decimal line @
     replicate (3 - length (decimal line)) (CHR '' '') @ '': '' @ concat args @ [CHR 0x0A]), io_reads = n\<rparr>)"
  using print_ok [OF assms, of "log_line COLOR_CYAN ''[INFO]'' file line args" io]
  by (simp add: info_def log_line_def left_3_def COLOR_CYAN_def COLOR_RESET_def)

theorem info_reaches_port_witness:
  "\<exists>n. info (\<lambda>n p. if even n then 0x20 else 0) ''a.rs'' 7 [''ok''] \<lparr>io_out = [], io_reads = 1\<rparr> =
    Some (Inr \<lparr>io_out = map (\<lambda>c. (0x3F8, of_char c))
      ((CHR 0x1B # ''[36m[INFO]'') @ (CHR 0x1B # ''[0m '') @ ''a.rs:7  : ok'' @ [CHR 0x0A]), io_reads = n\<rparr>)"
proof -
  have "transmits (\<lambda>n p. if even n then 0x20 else 0)"
    unfolding transmits_def by (intro allI, rule_tac x = "2 * n" in exI) simp
  moreover have "decimal 7 = ''7''" by code_simp
  ultimately show ?thesis
    using info_reaches_port [of "\<lambda>n p. if even n then 0x20 else 0" "''a.rs''" 7 "[''ok'']" "\<lparr>io_out = [], io_reads = 1\<rparr>"]
    by (simp add: numeral_2_eq_2)
qed

end
