(* ===== verification/Format.thy ===== *)
theory Format
  imports Console Paging_Entry
begin

text \<open>
  The formatting that the program uses: numbers as the macros of the language's core library
  print them, page table entries (\<open>format\<close> in \<open>kernel/src/paging.rs\<close> and \<open>loader/src/paging.rs\<close>)
  and the addresses of the loader.  The lemmas say that the text determines the number.
\<close>

section \<open>Numbers\<close>

definition digit_char :: "nat \<Rightarrow> char" where
  "digit_char d = char_of (if d < 10 then 48 + d else 87 + d)"

definition digit_value :: "char \<Rightarrow> nat" where
  "digit_value c = (if of_char c < (58 :: nat) then of_char c - 48 else of_char c - 87)"

fun radix :: "nat \<Rightarrow> nat \<Rightarrow> string" where
  "radix b n = (if b < 2 \<or> n < b then [digit_char n] else radix b (n div b) @ [digit_char (n mod b)])"

declare radix.simps [simp del]

definition radix_value :: "nat \<Rightarrow> string \<Rightarrow> nat" where
  "radix_value b s = foldl (\<lambda>v c. b * v + digit_value c) 0 s"

text \<open>\<open>{:#x}\<close>, \<open>{:#b}\<close>, and \<open>{:#0wx}\<close>, whose width counts the prefix.\<close>

definition hex_alt :: "nat \<Rightarrow> string" where
  "hex_alt n = ''0x'' @ radix 16 n"

definition bin_alt :: "nat \<Rightarrow> string" where
  "bin_alt n = ''0b'' @ radix 2 n"

definition hex_pad :: "nat \<Rightarrow> nat \<Rightarrow> string" where
  "hex_pad w n = ''0x'' @ replicate (w - 2 - length (radix 16 n)) (CHR ''0'') @ radix 16 n"

fun show_bool :: "bool \<Rightarrow> string" where
  "show_bool True = ''true''"
| "show_bool False = ''false''"

lemma digit_value_char: "d < 36 \<Longrightarrow> digit_value (digit_char d) = d"
  by (simp add: digit_value_def digit_char_def)

lemma radix_value_snoc: "radix_value b (s @ [c]) = b * radix_value b s + digit_value c"
  by (simp add: radix_value_def)

lemma radix_value_radix: "2 \<le> b \<Longrightarrow> b \<le> 36 \<Longrightarrow> radix_value b (radix b n) = n"
proof (induction b n rule: radix.induct)
  case (1 b n)
  show ?case
  proof (cases "n < b")
    case True
    then show ?thesis using 1(2,3) by (simp add: radix.simps [of b n] radix_value_def digit_value_char)
  next
    case False
    have "n mod b < 36" using 1(2,3) mod_less_divisor [of b n] by linarith
    then show ?thesis
      using 1 False by (simp add: radix.simps [of b n] radix_value_snoc digit_value_char)
  qed
qed

lemma radix_value_zeros: "radix_value b (replicate k (CHR ''0'') @ s) = radix_value b s"
proof (induction k)
  case (Suc k)
  have "digit_value (CHR ''0'') = 0" by (simp add: digit_value_def)
  with Suc show ?case by (simp add: radix_value_def)
qed simp

lemma radix_length: "2 \<le> b \<Longrightarrow> n < b ^ Suc k \<Longrightarrow> length (radix b n) \<le> Suc k"
proof (induction k arbitrary: n)
  case 0
  then show ?case by (simp add: radix.simps [of b n])
next
  case (Suc k)
  have "n div b < b ^ Suc k" using Suc.prems by (simp add: less_mult_imp_div_less mult.commute)
  with Suc.IH Suc.prems(1) show ?case by (subst radix.simps) simp
qed

lemma hex_pad_value: "radix_value 16 (drop 2 (hex_pad w n)) = n"
  by (simp add: hex_pad_def radix_value_zeros radix_value_radix)

lemma hex_pad_length: "length (hex_pad 18 (unat w)) = 18" for w :: u64
proof -
  have "unat w < 2 ^ 64" using unsigned_less [of w] by simp
  then have "unat w < 16 ^ Suc 15" by simp
  from radix_length [OF _ this] show ?thesis by (simp add: hex_pad_def)
qed

lemma hex_pad_inj:
  assumes "hex_pad w m = hex_pad w n"
  shows "m = n"
  using arg_cong [OF assms, of "\<lambda>s. radix_value 16 (drop 2 s)"] by (simp only: hex_pad_value)

lemma radix_inj:
  assumes "radix b m = radix b n" "2 \<le> b" "b \<le> 36"
  shows "m = n"
  using arg_cong [OF assms(1), of "radix_value b"] by (simp only: radix_value_radix [OF assms(2,3)])

lemma bin_alt_inj: "bin_alt m = bin_alt n \<Longrightarrow> m = n"
  by (rule radix_inj [of 2]) (simp_all add: bin_alt_def)

lemma decimal_radix: "decimal n = radix 10 n"
proof (induction n rule: less_induct)
  case (less n)
  have d: "digit_char k = char_of (48 + k)" if "k < 10" for k using that by (simp add: digit_char_def)
  show ?case
  proof (cases "n < 10")
    case True
    then show ?thesis by (simp add: decimal.simps [of n] radix.simps [of 10 n] d)
  next
    case False
    then show ?thesis using less.IH [of "n div 10"] by (simp add: decimal.simps [of n] radix.simps [of 10 n] d)
  qed
qed

lemma decimal_inj: "decimal m = decimal n \<Longrightarrow> m = n"
  by (rule radix_inj [of 10]) (simp_all add: decimal_radix)

text \<open>The digits are letters and figures.\<close>

lemma digit_char_plain:
  assumes "d < 36"
  shows "digit_char d \<noteq> CHR '',''"
proof
  assume "digit_char d = CHR '',''"
  then have "(of_char (digit_char d) :: nat) = 44" by simp
  with assms show False by (simp add: digit_char_def split: if_splits)
qed

lemma radix_plain: "2 \<le> b \<Longrightarrow> b \<le> 36 \<Longrightarrow> CHR '','' \<notin> set (radix b n)"
proof (induction b n rule: radix.induct)
  case (1 b n)
  have "n mod b < 36" using 1(2,3) mod_less_divisor [of b n] by linarith
  with 1 digit_char_plain [of "n mod b"] digit_char_plain [of n] show ?case
    by (subst radix.simps) (auto simp: eq_commute [of "CHR '',''"])
qed

section \<open>Page table entries and addresses\<close>

definition pte_format :: "PageTableEntry \<Rightarrow> string outcome" where
  "pte_format e =
     bind_out (is_present e) (\<lambda>p.
     bind_out (is_writable e) (\<lambda>w.
     bind_out (is_user_accessible e) (\<lambda>u.
     bind_out (is_executable e) (\<lambda>x.
     bind_out (is_huge e) (\<lambda>h.
     Inr (''PageEntry(value: '' @ hex_alt (unat (pte_value e)) @ '', present: '' @ show_bool p @
          '', writable: '' @ show_bool w @ '', user_accessible: '' @ show_bool u @
          '', executable: '' @ show_bool x @ '', huge '' @ show_bool h @ '')''))))))"

text \<open>The loader's version does not print the page-size bit.\<close>

definition loader_pte_format :: "PageTableEntry \<Rightarrow> string outcome" where
  "loader_pte_format e =
     bind_out (is_present e) (\<lambda>p.
     bind_out (is_writable e) (\<lambda>w.
     bind_out (is_user_accessible e) (\<lambda>u.
     bind_out (is_executable e) (\<lambda>x.
     Inr (''PageEntry(value: '' @ hex_alt (unat (pte_value e)) @ '', present: '' @ show_bool p @
          '', writable: '' @ show_bool w @ '', user_accessible: '' @ show_bool u @
          '', executable: '' @ show_bool x @ '')'')))))"

definition phys_debug :: "PhysAddr \<Rightarrow> string" where
  "phys_debug p = ''PhysAddr('' @ hex_alt (unat (phys_usize p)) @ '')''"

definition virt_debug :: "VirtAddr \<Rightarrow> string" where
  "virt_debug v = ''VirtAddr('' @ hex_alt (unat (virt_usize v)) @ '')''"

text \<open>The number in front of the first comma of the text is the entry.\<close>

lemma until_comma:
  assumes "2 \<le> b" "b \<le> 36" "CHR '','' \<notin> set pre"
  shows "takeWhile (\<lambda>c. c \<noteq> CHR '','') (pre @ radix b n @ CHR '','' # rest) = pre @ radix b n"
proof -
  have "\<forall>c \<in> set (pre @ radix b n). c \<noteq> CHR '',''" using radix_plain [OF assms(1,2), of n] assms(3) by auto
  then show ?thesis
    using takeWhile_append2 [of "pre @ radix b n" "\<lambda>c. c \<noteq> CHR '',''" "CHR '','' # rest"] by auto
qed

lemma pte_format_value:
  "\<exists>s. pte_format e = Inr s \<and>
    radix_value 16 (drop 2 (takeWhile (\<lambda>c. c \<noteq> CHR '','') (drop 17 s))) = unat (pte_value e)"
  "\<exists>s. loader_pte_format e = Inr s \<and>
    radix_value 16 (drop 2 (takeWhile (\<lambda>c. c \<noteq> CHR '','') (drop 17 s))) = unat (pte_value e)"
  using until_comma [of 16 "''0x''" "unat (pte_value e)"]
  by (simp_all add: pte_format_def loader_pte_format_def hex_alt_def radix_value_radix)

end
