(* ===== verification/Boot_Output.thy ===== *)
theory Boot_Output
  imports Kernel_Init Task_Spawn Format
begin

text \<open>
  The operations of \<open>kernel/src/paging.rs\<close> and \<open>kernel/src/task.rs\<close> that print while they work, with their
  output: \<open>create_mapping\<close>, \<open>init_paging\<close> and \<open>spawn\<close>.  \<open>Paging\<close> and \<open>Task\<close> define what they do to
  memory and tasks; here the calls of \<open>println!\<close> and \<open>info!\<close> stand between these effects, in the order of
  the code.  A port that stays busy blocks them (\<open>None\<close>).  When the transmitter becomes empty again
  and again they have the same result as without output, and print the text given here.
  \<open>file\<close> is \<open>file!()\<close> of the source file.
\<close>

section \<open>Paging\<close>

text \<open>\<open>{:x?}\<close> of a physical address: the derived \<open>Debug\<close> with the number in hexadecimal, without prefix.\<close>

definition phys_hex :: "PhysAddr \<Rightarrow> string" where
  "phys_hex p = ''PhysAddr('' @ radix 16 (unat (phys_usize p)) @ '')''"

definition create_mapping_io :: "device \<Rightarrow> kmem \<Rightarrow> usize \<Rightarrow> VirtAddr \<Rightarrow> PhysAddr \<Rightarrow> MSize \<Rightarrow> PageTableAttr \<Rightarrow> ports \<Rightarrow>
    (kmem \<times> unit rust_result \<times> ports) outcome option" where
  "create_mapping_io dev m self virt_start phys_start sz attr io =
     bind_run (println dev [phys_hex phys_start] io) (\<lambda>io1.
     bind_run (Some (create_mapping m self virt_start phys_start sz attr)) (\<lambda>(m1, r).
     Some (Inr (m1, r, io1))))"

definition map_section_io :: "device \<Rightarrow> kmem \<Rightarrow> usize \<Rightarrow> VirtAddr \<Rightarrow> VirtAddr \<Rightarrow> PageTableAttr \<Rightarrow> ports \<Rightarrow>
    (kmem \<times> ports) outcome option" where
  "map_section_io dev m root sec_start sec_end attr io =
     bind_run (Some (virt_to_phys sec_start)) (\<lambda>phys.
     bind_run (Some (from_address virt_usize sec_start sec_end)) (\<lambda>sz.
     bind_run (create_mapping_io dev m root sec_start phys sz attr io) (\<lambda>(m1, r, io1).
     bind_run (Some (unwrap_result r)) (\<lambda>_. Some (Inr (m1, io1))))))"

definition init_paging_io :: "device \<Rightarrow> string \<Rightarrow> kmem \<Rightarrow> symbols \<Rightarrow> ports \<Rightarrow> (kmem \<times> usize \<times> ports) outcome option" where
  "init_paging_io dev file m s io =
     bind_run (Some (box_zeroed_node m)) (\<lambda>(m0, root).
     bind_run (info dev file 239 [''Paging initialized with PML4 at '', hex_alt (unat root)] io) (\<lambda>io0.
     bind_run (create_mapping_io dev m0 root LINER_MAPPING_BASE_VADDR (PhysAddr 0) LINER_MAPPING_SIZE
                 ReadWriteKernel1GiB io0) (\<lambda>(m1, r1, io1).
     bind_run (Some (unwrap_result r1)) (\<lambda>_.
     bind_run (map_section_io dev m1 root (sym_text s) (sym_text_end s) ReadExecuteKernel io1) (\<lambda>(m2, io2).
     bind_run (map_section_io dev m2 root (sym_rodata s) (sym_rodata_end s) ReadKernel io2) (\<lambda>(m3, io3).
     bind_run (map_section_io dev m3 root (sym_data s) (sym_bss_end s) ReadWriteKernel io3) (\<lambda>(m4, io4).
     bind_run (create_mapping_io dev m4 root (VirtAddr APIC_IO_START_ADDR) (PhysAddr APIC_IO_START_ADDR)
                 APIC_IO_SIZE ReadWriteKernelIO io4) (\<lambda>(m5, r5, io5).
     bind_run (Some (unwrap_result r5)) (\<lambda>_.
     bind_run (Some (virt_to_phys (VirtAddr root))) (\<lambda>phys.
     Some (Inr (write_cr3 m5 phys, root, io5))))))))))))"

section \<open>Tasks\<close>

text \<open>The message of \<open>spawn\<close>.\<close>

definition spawn_message :: "Task \<Rightarrow> string" where
  "spawn_message t =
     ''taskid: '' @ decimal (unat (pid_u32 (task_pid t))) @ '', rsp: '' @ hex_alt (unat (ctx_rsp (task_context t)))"

text \<open>The message is the last action of \<open>spawn\<close>; it shows the new task, which has the next identity.\<close>

definition spawn_io :: "device \<Rightarrow> string \<Rightarrow> u64 \<Rightarrow> kernel \<Rightarrow> ports \<Rightarrow> (kernel \<times> ports) outcome option" where
  "spawn_io dev file func k io =
     bind_run (Some (spawn func k)) (\<lambda>k1.
     bind_run (Some (task_read (k_next_tid k) k1)) (\<lambda>task.
     bind_run (info dev file 281 [spawn_message task] io) (\<lambda>io1.
     Some (Inr (k1, io1)))))"

section \<open>The same results, and the text\<close>

lemma create_mapping_io_run:
  assumes "transmits dev" "create_mapping m root v p sz attr = Inr (m1, r)"
  shows "create_mapping_io dev m root v p sz attr io = Some (Inr (m1, r, printed dev [phys_hex p, [CHR 0x0A]] io))"
  using assms by (simp add: create_mapping_io_def println_def print_printed(1) del: print.simps)

lemma map_section_io_run:
  assumes "transmits dev" "map_section m root a b attr = Inr m1" "virt_to_phys a = Inr p"
  shows "map_section_io dev m root a b attr io = Some (Inr (m1, printed dev [phys_hex p, [CHR 0x0A]] io))"
  using assms by (auto simp: map_section_def map_section_io_def outcome_simps create_mapping_io_run)

text \<open>The lines that \<open>init_paging\<close> prints.\<close>

definition paging_log :: "string \<Rightarrow> symbols \<Rightarrow> usize \<Rightarrow> string list" where
  "paging_log file s root =
     log_line COLOR_CYAN ''[INFO]'' file 239 [''Paging initialized with PML4 at '', hex_alt (unat root)] @
     concat (map (\<lambda>p. [phys_hex (PhysAddr p), [CHR 0x0A]])
       [0, virt_usize (sym_text s) - 0xFFFFFFFF80000000, virt_usize (sym_rodata s) - 0xFFFFFFFF80000000,
        virt_usize (sym_data s) - 0xFFFFFFFF80000000, 0xFEE00000])"

lemma init_paging_io_run:
  assumes tr: "transmits dev" and link: "linked s" and run: "init_paging m s = Inr (m', root)"
  shows "\<exists>io'. init_paging_io dev file m s io = Some (Inr (m', root, io')) \<and>
    io_out io' = io_out io @ sent (paging_log file s root)"
proof -
  have sec: "virt_to_phys (sym_text s) = Inr (PhysAddr (virt_usize (sym_text s) - 0xFFFFFFFF80000000))"
    "virt_to_phys (sym_rodata s) = Inr (PhysAddr (virt_usize (sym_rodata s) - 0xFFFFFFFF80000000))"
    "virt_to_phys (sym_data s) = Inr (PhysAddr (virt_usize (sym_data s) - 0xFFFFFFFF80000000))"
    using link by (simp_all add: linked_def section_bounds_def virt_to_phys_kernel word_le_nat_alt)
  from run obtain m0 m1 r1 m2 m3 m4 m5 r5 p where
    "box_zeroed_node m = Inr (m0, root)"
    "create_mapping m0 root LINER_MAPPING_BASE_VADDR (PhysAddr 0) LINER_MAPPING_SIZE ReadWriteKernel1GiB = Inr (m1, r1)"
    "unwrap_result r1 = Inr ()" "map_section m1 root (sym_text s) (sym_text_end s) ReadExecuteKernel = Inr m2"
    "map_section m2 root (sym_rodata s) (sym_rodata_end s) ReadKernel = Inr m3"
    "map_section m3 root (sym_data s) (sym_bss_end s) ReadWriteKernel = Inr m4"
    "create_mapping m4 root (VirtAddr APIC_IO_START_ADDR) (PhysAddr APIC_IO_START_ADDR) APIC_IO_SIZE ReadWriteKernelIO = Inr (m5, r5)"
    "unwrap_result r5 = Inr ()" "virt_to_phys (VirtAddr root) = Inr p" "m' = write_cr3 m5 p"
    by (auto simp: init_paging_def outcome_simps)
  then show ?thesis
    by (simp add: init_paging_io_def info_def print_printed [OF tr] create_mapping_io_run [OF tr]
        map_section_io_run [OF tr] sec paging_log_def layout_defs)
qed

lemma spawn_io_run:
  assumes "transmits dev" "spawn func k = Inr k1" "k_store k1 (k_next_tid k) \<noteq> None"
  shows "\<exists>io'. spawn_io dev file func k io = Some (Inr (k1, io')) \<and>
    io_out io' = io_out io @ sent (log_line COLOR_CYAN ''[INFO]'' file 281 [spawn_message (the_task k1 (k_next_tid k))])"
  using assms by (auto simp: spawn_io_def task_read_def the_task_def guard_deref_def info_def print_printed)

end
