(* ===== verification/Bitfield.thy ===== *)
theory Bitfield
  imports Noctis_Prelude
begin

text \<open>
  The structures that \<open>kernel/src/gdt.rs\<close> and \<open>kernel/src/idt.rs\<close> declare with the macro
  \<open>bitfield\<close> of the crate \<open>bitfield_struct\<close>.  The setters that the macro generates are a
  parameter of the model: \<open>with_bits off n v x\<close> stands for the \<open>with_<field>\<close> of the field of
  \<open>n\<close> bits at bit \<open>off\<close>, where fields are laid out from the least significant bit on in the
  order of their declaration.  \<open>bitfield_setter\<close> is what the documentation of the crate says of
  such a setter for a value that fits the field.
\<close>

definition bitfield_setter :: "(nat \<Rightarrow> nat \<Rightarrow> 'a::len word \<Rightarrow> 'a word \<Rightarrow> 'a word) \<Rightarrow> bool" where
  "bitfield_setter with_bits \<longleftrightarrow>
     (\<forall>off n v x i. off + n \<le> LENGTH('a) \<longrightarrow> take_bit n v = v \<longrightarrow> i < LENGTH('a) \<longrightarrow>
        bit (with_bits off n v x) i = (if off \<le> i \<and> i < off + n then bit v (i - off) else bit x i))"

definition deposit :: "nat \<Rightarrow> nat \<Rightarrow> 'a::len word \<Rightarrow> 'a word \<Rightarrow> 'a word" where
  "deposit off n v x = (x AND NOT (push_bit off (mask n))) OR push_bit off (take_bit n v)"

definition get_field :: "nat \<Rightarrow> nat \<Rightarrow> 'a::len word \<Rightarrow> 'a word" where
  "get_field off n x = take_bit n (drop_bit off x)"

lemma bit_get_field: "bit (get_field off n x) i \<longleftrightarrow> i < n \<and> bit x (off + i)"
  by (simp add: get_field_def bit_simps)

lemma bit_deposit:
  "i < LENGTH('a) \<Longrightarrow> bit (deposit off n v x :: 'a::len word) i =
    (if off \<le> i \<and> i < off + n then bit v (i - off) else bit x i)"
  by (auto simp: deposit_def bit_simps)

lemma deposit_setter: "bitfield_setter deposit"
  by (simp add: bitfield_setter_def bit_deposit)

lemma get_field_same:
  assumes "bitfield_setter wb" "off + n \<le> LENGTH('a)" "take_bit n v = v"
  shows "get_field off n (wb off n v x) = (v :: 'a::len word)"
proof (rule bit_word_eqI)
  fix i assume "i < LENGTH('a)"
  have "bit v i \<longleftrightarrow> i < n \<and> bit v i" using arg_cong [OF assms(3), of "\<lambda>w. bit w i"] by (auto simp: bit_simps)
  moreover have "i < n \<Longrightarrow> bit (wb off n v x) (off + i) = bit v i"
    using assms unfolding bitfield_setter_def by auto
  ultimately show "bit (get_field off n (wb off n v x)) i \<longleftrightarrow> bit v i"
    by (auto simp: bit_get_field)
qed

lemma get_field_other:
  assumes "bitfield_setter wb" "off + n \<le> LENGTH('a)" "take_bit n v = v" "off' + n' \<le> off \<or> off + n \<le> off'"
  shows "get_field off' n' (wb off n v x :: 'a::len word) = get_field off' n' x"
proof (rule bit_word_eqI)
  fix i assume "i < LENGTH('a)"
  have "bit (wb off n v x) (off' + i) = bit x (off' + i)" if "i < n'"
  proof (cases "off' + i < LENGTH('a)")
    case True
    then show ?thesis using assms that unfolding bitfield_setter_def by auto
  next
    case False
    then have "\<not> bit (wb off n v x) (off' + i)" "\<not> bit x (off' + i)" by (auto dest: bit_imp_le_length)
    then show ?thesis by blast
  qed
  then show "bit (get_field off' n' (wb off n v x)) i \<longleftrightarrow> bit (get_field off' n' x) i"
    by (auto simp: bit_get_field)
qed

lemma get_field_zero [simp]: "get_field off n 0 = 0"
  by (simp add: get_field_def)

section \<open>Chains of setters\<close>

text \<open>\<open>Self::default().with_a(...).with_b(...)\<close>: the fields with their values in the order of the calls.\<close>

definition with_fields ::
    "(nat \<Rightarrow> nat \<Rightarrow> 'a::len word \<Rightarrow> 'a word \<Rightarrow> 'a word) \<Rightarrow> (nat \<times> nat \<times> 'a word) list \<Rightarrow> 'a word" where
  "with_fields with_bits fs = fold (\<lambda>(off, n, v). with_bits off n v) fs 0"

text \<open>Ascending disjoint fields whose values fit.\<close>

fun fields_ok :: "nat \<Rightarrow> (nat \<times> nat \<times> 'a::len word) list \<Rightarrow> bool" where
  "fields_ok k [] \<longleftrightarrow> k \<le> LENGTH('a)"
| "fields_ok k ((off, n, v :: 'a word) # fs) \<longleftrightarrow> k \<le> off \<and> take_bit n v = v \<and> fields_ok (off + n) fs"

lemma fields_ok_le: "fields_ok k (fs :: (nat \<times> nat \<times> 'a::len word) list) \<Longrightarrow> k \<le> LENGTH('a)"
  by (induction k fs rule: fields_ok.induct) auto

lemma fold_fields_below:
  assumes "bitfield_setter wb" "fields_ok k fs" "off + n \<le> k"
  shows "get_field off n (fold (\<lambda>(off, n, v). wb off n v) fs x) = get_field off n x"
  using assms(2,3)
proof (induction k fs arbitrary: x rule: fields_ok.induct)
  case (2 k off' n' v fs)
  then have "off' + n' \<le> LENGTH('a)" using fields_ok_le by auto
  then have "get_field off n (wb off' n' v x) = get_field off n x"
    using 2 by (intro get_field_other [OF assms(1)]) auto
  then show ?case using 2 by simp
qed simp

lemma get_with_fields:
  assumes "bitfield_setter wb" "fields_ok k fs" "(off, n, v) \<in> set fs"
  shows "get_field off n (fold (\<lambda>(off, n, v). wb off n v) fs x) = v"
  using assms(2,3)
proof (induction k fs arbitrary: x rule: fields_ok.induct)
  case (2 k off' n' v' fs)
  show ?case
  proof (cases "(off, n, v) = (off', n', v')")
    case True
    have "off' + n' \<le> LENGTH('a)" using 2 fields_ok_le by auto
    then have "get_field off' n' (wb off' n' v' x) = v'" using 2 by (intro get_field_same [OF assms(1)]) auto
    then show ?thesis using True 2 fold_fields_below [OF assms(1), of "off' + n'" fs off' n'] by auto
  next
    case False
    then show ?thesis using 2 by auto
  qed
qed simp

lemma get_unset_field:
  assumes "bitfield_setter wb" "fields_ok k fs" "\<forall>(off', n', v) \<in> set fs. off + n \<le> off' \<or> off' + n' \<le> off"
  shows "get_field off n (fold (\<lambda>(off, n, v). wb off n v) fs x) = get_field off n x"
  using assms(2,3)
proof (induction k fs arbitrary: x rule: fields_ok.induct)
  case (2 k off' n' v fs)
  then have "off' + n' \<le> LENGTH('a)" using fields_ok_le by auto
  then have "get_field off n (wb off' n' v x) = get_field off n x"
    using 2 by (intro get_field_other [OF assms(1)]) auto
  then show ?case using 2 by simp
qed simp

end
