(* ===== verification/Gdt.thy ===== *)
theory Gdt
  imports Bitfield Allocator
begin

text \<open>
  Segment descriptors, the task state segment and the descriptor table of
  \<open>kernel/src/gdt.rs\<close>, and how a processor reads the descriptors.
\<close>

section \<open>Segment descriptors\<close>

definition segment_null :: u64 where
  "segment_null = 0"

definition segment_create ::
    "(nat \<Rightarrow> nat \<Rightarrow> u64 \<Rightarrow> u64 \<Rightarrow> u64) \<Rightarrow> bool \<Rightarrow> bool \<Rightarrow> bool \<Rightarrow> u32 \<Rightarrow> u32 \<Rightarrow> u8 \<Rightarrow> u8 \<Rightarrow> u64" where
  "segment_create with_bits rw dc executable base limit dpl granularity =
     with_fields with_bits
       [(0, 16, ucast (limit AND 0xffff)),
        (16, 24, ucast (base AND 0xffffff)),
        (40, 1, of_bool False),
        (41, 1, of_bool rw),
        (42, 1, of_bool dc),
        (43, 1, of_bool executable),
        (44, 1, 0b01),
        (45, 2, ucast (dpl AND 0b11)),
        (47, 1, of_bool True),
        (48, 4, ucast (drop_bit 16 limit AND 0xff)),
        (52, 1, 1),
        (53, 1, of_bool executable),
        (54, 1, of_bool (\<not> executable)),
        (55, 1, ucast (granularity AND 0b1)),
        (56, 8, ucast (drop_bit 24 base))]"

section \<open>Task state segment\<close>

record Tss64Inner =
  tss_reserved0 :: u32
  tss_rsp :: "u64 list"
  tss_reserved1 :: u64
  tss_ist :: "u64 list"
  tss_reserved2 :: u64
  tss_io_map_base :: u16
  tss_reserved3 :: u16

definition TSS_STACK_SIZE :: usize where
  "TSS_STACK_SIZE = 64 * 1024"

text \<open>\<open>Box::new\<close> of a value with alignment 1.\<close>

definition box_bytes :: "usize \<Rightarrow> LinerAllocator \<Rightarrow> (LinerAllocator \<times> usize) outcome" where
  "box_bytes sz h =
     bind_out (alloc h \<lparr>layout_size = sz, layout_align = 1\<rparr>) (\<lambda>(h1, p).
     if p = 0 then Inl Alloc_error else Inr (h1, p))"

definition allocate_tss_memory :: "LinerAllocator \<Rightarrow> (LinerAllocator \<times> u64) outcome" where
  "allocate_tss_memory h = bind_out (box_bytes TSS_STACK_SIZE h) (\<lambda>(h1, stack). Inr (h1, stack + TSS_STACK_SIZE))"

text \<open>The loop over the interrupt stack table.\<close>

fun tss_stacks :: "nat \<Rightarrow> LinerAllocator \<Rightarrow> (LinerAllocator \<times> u64 list) outcome" where
  "tss_stacks 0 h = Inr (h, [])"
| "tss_stacks (Suc n) h =
     bind_out (allocate_tss_memory h) (\<lambda>(h1, rsp).
     bind_out (tss_stacks n h1) (\<lambda>(h2, rest). Inr (h2, rsp # rest)))"

text \<open>\<open>size_of::<Tss64Inner>()\<close>, as the source asserts.\<close>

definition TSS_SIZE :: usize where
  "TSS_SIZE = 104"

definition tss_new :: "LinerAllocator \<Rightarrow> (LinerAllocator \<times> Tss64Inner \<times> usize) outcome" where
  "tss_new h =
     bind_out (allocate_tss_memory h) (\<lambda>(h1, rsp0).
     bind_out (tss_stacks 7 h1) (\<lambda>(h2, ist).
     let tss64 = \<lparr>tss_reserved0 = 0, tss_rsp = [rsp0, 0, 0], tss_reserved1 = 0, tss_ist = ist,
                  tss_reserved2 = 0, tss_io_map_base = 0, tss_reserved3 = 0\<rparr> in
     bind_out (box_bytes TSS_SIZE h2) (\<lambda>(h3, p). Inr (h3, tss64, p))))"

definition tss_create :: "(nat \<Rightarrow> nat \<Rightarrow> 128 word \<Rightarrow> 128 word \<Rightarrow> 128 word) \<Rightarrow> u64 \<Rightarrow> 128 word" where
  "tss_create with_bits base =
     with_fields with_bits
       [(0, 16, ucast (TSS_SIZE AND 0xffff)),
        (16, 24, ucast (base AND 0xffffff)),
        (40, 4, 0b1001),
        (44, 1, 0b00),
        (45, 2, 0b00),
        (47, 1, of_bool True),
        (48, 4, ucast (drop_bit 16 TSS_SIZE AND 0xff)),
        (52, 1, 0),
        (53, 1, of_bool True),
        (54, 1, 0),
        (55, 1, 0b01),
        (56, 40, ucast (drop_bit 24 base))]"

section \<open>Descriptor table\<close>

definition KERNEL_CODE_SEGMENT :: u16 where "KERNEL_CODE_SEGMENT = push_bit 3 1"
definition KERNEL_DATA_SEGMENT :: u16 where "KERNEL_DATA_SEGMENT = push_bit 3 2"
definition TSS64_SEGMENT_SELECTOR :: u16 where "TSS64_SEGMENT_SELECTOR = push_bit 3 3"

lemmas selector_defs = KERNEL_CODE_SEGMENT_def KERNEL_DATA_SEGMENT_def TSS64_SEGMENT_SELECTOR_def

record Gdt =
  null_segment :: u64
  kernel_code_segment :: u64
  kernel_data_segment :: u64
  tss_segment :: "128 word"

record GdtWrapper =
  gdt_inner :: Gdt
  gdt_addr :: usize
  gdt_tss64 :: Tss64Inner
  gdt_tss_addr :: usize

definition GDT_SIZE :: usize where
  "GDT_SIZE = 40"

definition gdt_default ::
    "(nat \<Rightarrow> nat \<Rightarrow> u64 \<Rightarrow> u64 \<Rightarrow> u64) \<Rightarrow> (nat \<Rightarrow> nat \<Rightarrow> 128 word \<Rightarrow> 128 word \<Rightarrow> 128 word) \<Rightarrow> LinerAllocator \<Rightarrow>
     (LinerAllocator \<times> GdtWrapper) outcome" where
  "gdt_default with_bits with_bits128 h =
     bind_out (tss_new h) (\<lambda>(h1, tss64, tss_addr).
     let gdt = \<lparr>null_segment = segment_null,
                kernel_code_segment = segment_create with_bits True False True 0 0xfffff 0 0b1,
                kernel_data_segment = segment_create with_bits True False False 0 0xfffff 0 0b1,
                tss_segment = tss_create with_bits128 tss_addr\<rparr> in
     bind_out (box_bytes GDT_SIZE h1) (\<lambda>(h2, p).
     Inr (h2, \<lparr>gdt_inner = gdt, gdt_addr = p, gdt_tss64 = tss64, gdt_tss_addr = tss_addr\<rparr>)))"

text \<open>The registers that hold descriptor tables and selectors.\<close>

record cpu_tables =
  gdtr_limit :: u16
  gdtr_base :: usize
  idtr_limit :: u16
  idtr_base :: usize
  reg_tr :: u16
  reg_cs :: u16
  reg_ds :: u16
  reg_es :: u16
  reg_fs :: u16
  reg_gs :: u16
  reg_ss :: u16

definition gdt_load :: "GdtWrapper \<Rightarrow> cpu_tables \<Rightarrow> cpu_tables" where
  "gdt_load g c =
     c\<lparr>gdtr_limit := ucast (GDT_SIZE - 1), gdtr_base := gdt_addr g, reg_tr := TSS64_SEGMENT_SELECTOR\<rparr>"

definition load_kernel_data_segment :: "cpu_tables \<Rightarrow> cpu_tables" where
  "load_kernel_data_segment c =
     c\<lparr>reg_ds := KERNEL_DATA_SEGMENT, reg_es := KERNEL_DATA_SEGMENT, reg_fs := KERNEL_DATA_SEGMENT,
       reg_gs := KERNEL_DATA_SEGMENT, reg_ss := KERNEL_DATA_SEGMENT\<rparr>"

text \<open>A far jump to the next instruction.\<close>

definition load_kernel_code_segment :: "cpu_tables \<Rightarrow> cpu_tables" where
  "load_kernel_code_segment c = c\<lparr>reg_cs := KERNEL_CODE_SEGMENT\<rparr>"

definition init_gdt ::
    "(nat \<Rightarrow> nat \<Rightarrow> u64 \<Rightarrow> u64 \<Rightarrow> u64) \<Rightarrow> (nat \<Rightarrow> nat \<Rightarrow> 128 word \<Rightarrow> 128 word \<Rightarrow> 128 word) \<Rightarrow> LinerAllocator \<Rightarrow> cpu_tables \<Rightarrow>
     (LinerAllocator \<times> cpu_tables \<times> GdtWrapper) outcome" where
  "init_gdt with_bits with_bits128 h c =
     bind_out (gdt_default with_bits with_bits128 h) (\<lambda>(h1, gdt).
     Inr (h1, load_kernel_code_segment (load_kernel_data_segment (gdt_load gdt c)), gdt))"

section \<open>How the processor reads a descriptor\<close>

definition seg_base :: "u64 \<Rightarrow> u64" where
  "seg_base d = get_field 16 24 d OR push_bit 24 (get_field 56 8 d)"

definition seg_limit :: "u64 \<Rightarrow> u64" where
  "seg_limit d = get_field 0 16 d OR push_bit 16 (get_field 48 4 d)"

definition sys_base :: "128 word \<Rightarrow> 128 word" where
  "sys_base d = get_field 16 24 d OR push_bit 24 (get_field 56 40 d)"

text \<open>A segment over the whole address space, present, of ring 0: 64-bit code, or writable data.\<close>

definition ring0_code :: "u64 \<Rightarrow> bool" where
  "ring0_code d \<longleftrightarrow> seg_base d = 0 \<and> seg_limit d = 0xfffff \<and> get_field 44 1 d = 1 \<and> get_field 43 1 d = 1 \<and>
     get_field 47 1 d = 1 \<and> get_field 53 1 d = 1 \<and> get_field 54 1 d = 0 \<and> get_field 45 2 d = 0"

definition ring0_data :: "u64 \<Rightarrow> bool" where
  "ring0_data d \<longleftrightarrow> seg_base d = 0 \<and> seg_limit d = 0xfffff \<and> get_field 44 1 d = 1 \<and> get_field 43 1 d = 0 \<and>
     get_field 41 1 d = 1 \<and> get_field 47 1 d = 1 \<and> get_field 45 2 d = 0"

text \<open>An available 64-bit TSS at address \<open>a\<close>.\<close>

definition tss_at :: "u64 \<Rightarrow> 128 word \<Rightarrow> bool" where
  "tss_at a d \<longleftrightarrow> sys_base d = ucast a \<and> get_field 40 4 d = 9 \<and> get_field 44 1 d = 0 \<and> get_field 47 1 d = 1"

lemma take_ucast_and:
  fixes x :: "'a::len word"
  assumes "m = mask n"
  shows "take_bit n (ucast (x AND m) :: 'b::len word) = ucast (x AND m)"
  using assms by (intro bit_word_eqI) (auto simp: bit_simps)

lemma masks: "(0xffff :: 'a::len word) = mask 16" "(0xffffff :: 'a word) = mask 24" "(3 :: 'a word) = mask 2"
  "(0xff :: 'a word) = mask 8" "(1 :: 'a word) = mask 1"
  by (simp_all add: mask_eq_decr_exp)

lemma take_of_bool: "take_bit 1 (of_bool b :: 'a::len word) = of_bool b"
  by (cases b) auto

lemma take_high_limit:
  fixes limit :: u32
  assumes "take_bit 20 limit = limit"
  shows "take_bit 4 (ucast (drop_bit 16 limit AND 0xff) :: u64) = ucast (drop_bit 16 limit AND 0xff)"
proof (rule bit_word_eqI)
  have "\<not> bit limit j" if "20 \<le> j" for j using that assms by (metis bit_take_bit_iff linorder_not_less)
  then have "i < 4" if "bit limit (16 + i)" for i using that by (rule_tac ccontr) (simp add: not_less)
  then show "bit (take_bit 4 (ucast (drop_bit 16 limit AND 0xff) :: u64)) i \<longleftrightarrow>
      bit (ucast (drop_bit 16 limit AND 0xff) :: u64) i" for i
    by (auto simp: bit_simps)
qed

lemma take_drop_32: "take_bit 8 (ucast (drop_bit 24 (base :: u32)) :: u64) = ucast (drop_bit 24 base)"
  by (rule bit_word_eqI) (auto simp: bit_simps dest: bit_imp_le_length)

lemma take_drop_64: "take_bit 40 (ucast (drop_bit 24 (base :: u64)) :: 128 word) = ucast (drop_bit 24 base)"
  by (rule bit_word_eqI) (auto simp: bit_simps dest: bit_imp_le_length)

lemmas field_fits = take_ucast_and [OF masks(1)] take_ucast_and [OF masks(2)] take_ucast_and [OF masks(3)]
  take_ucast_and [OF masks(5)] take_of_bool take_drop_32 take_drop_64

lemma segment_field:
  assumes "bitfield_setter wb" "take_bit 20 limit = limit"
    "(off, n, v) \<in> set [(0, 16, ucast (limit AND 0xffff)), (16, 24, ucast (base AND 0xffffff)), (40, 1, of_bool False),
        (41, 1, of_bool rw), (42, 1, of_bool dc), (43, 1, of_bool executable), (44, 1, 0b01), (45, 2, ucast (dpl AND 0b11)),
        (47, 1, of_bool True), (48, 4, ucast (drop_bit 16 limit AND 0xff)), (52, 1, 1), (53, 1, of_bool executable),
        (54, 1, of_bool (\<not> executable)), (55, 1, ucast (gran AND 0b1)), (56, 8, ucast (drop_bit 24 base))]"
  shows "get_field off n (segment_create wb rw dc executable base limit dpl gran) = v"
  unfolding segment_create_def with_fields_def
  by (rule get_with_fields [OF assms(1) _ assms(3), of 0])
    (simp only: fields_ok.simps field_fits take_high_limit [OF assms(2)] simp_thms, simp)

lemma split_24: "ucast (b AND 0xffffff) OR push_bit 24 (ucast (drop_bit 24 b)) = (ucast b :: 'b::len word)"
  if "32 \<le> LENGTH('b)" for b :: "'a::len word"
proof (rule bit_word_eqI)
  show "bit (ucast (b AND 0xffffff) OR push_bit 24 (ucast (drop_bit 24 b)) :: 'b word) i \<longleftrightarrow> bit (ucast b :: 'b word) i" for i
    unfolding masks(2) by (cases "i < 24") (auto simp: bit_simps dest: bit_imp_le_length)
qed

lemma segment_base_limit:
  assumes "bitfield_setter wb" "take_bit 20 limit = limit"
  shows "seg_base (segment_create wb rw dc ex base limit dpl gran) = ucast base"
    "seg_limit (segment_create wb rw dc ex base limit dpl gran) = ucast limit"
proof -
  let ?d = "segment_create wb rw dc ex base limit dpl gran"
  have "get_field 16 24 ?d = ucast (base AND 0xffffff)" "get_field 56 8 ?d = ucast (drop_bit 24 base)"
    by (rule segment_field [OF assms]; simp)+
  then show "seg_base ?d = ucast base" by (simp add: seg_base_def split_24)
  have f: "get_field 0 16 ?d = ucast (limit AND mask 16)" "get_field 48 4 ?d = ucast (drop_bit 16 limit AND mask 8)"
    unfolding masks [symmetric] by (rule segment_field [OF assms]; simp)+
  have "bit limit i \<Longrightarrow> i < 20" for i using assms(2) by (metis bit_take_bit_iff)
  then have "bit limit i \<Longrightarrow> i - 16 < 8" for i by fastforce
  then show "seg_limit ?d = ucast limit"
    unfolding seg_limit_def f by (intro bit_word_eqI) (auto simp: bit_simps not_less dest: bit_imp_le_length)
qed

lemma tss_field:
  assumes "bitfield_setter wb"
    "(off, n, v) \<in> set [(0, 16, ucast (TSS_SIZE AND 0xffff)), (16, 24, ucast (base AND 0xffffff)), (40, 4, 0b1001), (44, 1, 0b00),
        (45, 2, 0b00), (47, 1, of_bool True), (48, 4, ucast (drop_bit 16 TSS_SIZE AND 0xff)), (52, 1, 0), (53, 1, of_bool True),
        (54, 1, 0), (55, 1, 0b01), (56, 40, ucast (drop_bit 24 base))]"
  shows "get_field off n (tss_create wb base) = v"
  unfolding tss_create_def with_fields_def
  by (rule get_with_fields [OF assms(1) _ assms(2), of 0])
    (simp only: fields_ok.simps field_fits simp_thms, simp add: TSS_SIZE_def)

lemma tss_base: "bitfield_setter wb \<Longrightarrow> sys_base (tss_create wb base) = ucast base"
proof -
  assume wb: "bitfield_setter wb"
  have "get_field 16 24 (tss_create wb base) = ucast (base AND 0xffffff)"
    "get_field 56 40 (tss_create wb base) = ucast (drop_bit 24 base)"
    by (rule tss_field [OF wb]; simp)+
  then show ?thesis by (simp add: sys_base_def split_24)
qed

section \<open>The tables that init\_gdt sets up\<close>

lemma alloc_align_1:
  assumes "heap_ready 4096 h" "unat (la_next h) + unat sz \<le> unat (la_end h)" "unat sz < 2 ^ 62"
  shows "alloc h \<lparr>layout_size = sz, layout_align = 1\<rparr> = Inr (h\<lparr>la_next := la_next h + sz\<rparr>, la_next h)"
    "heap_ready 4096 (h\<lparr>la_next := la_next h + sz\<rparr>)" "unat (la_next h + sz) = unat (la_next h) + unat sz" "la_next h \<noteq> 0"
proof -
  let ?l = "\<lparr>layout_size = sz, layout_align = 1\<rparr>"
  have v: "valid_layout ?l" using assms(3) by (simp add: valid_layout_def is_power_of_two_def)
  have nw: "unat (la_next h) + unat (layout_align ?l) < 2 ^ 64" using heap_ready_next [OF assms(1), of ?l] by simp
  have "block_start h ?l = unat (la_next h)" by (simp add: block_start_def align_up_nat_id)
  then show "alloc h ?l = Inr (h\<lparr>la_next := la_next h + sz\<rparr>, la_next h)"
    using alloc_unfold(2) [OF v nw] assms(2) by simp
  show un: "unat (la_next h + sz) = unat (la_next h) + unat sz"
    using assms(1,2) by (intro unat_add_no_wrap) (simp add: heap_ready_def)
  show "heap_ready 4096 (h\<lparr>la_next := la_next h + sz\<rparr>)"
    using assms(1,2) un by (simp add: heap_ready_def heap_inv_def word_le_nat_alt)
  show "la_next h \<noteq> 0" using assms(1) by (auto simp: heap_ready_def heap_inv_def)
qed

lemma box_bytes_ok:
  assumes "heap_ready 4096 h" "unat (la_next h) + unat sz \<le> unat (la_end h)" "unat sz < 2 ^ 62"
  shows "box_bytes sz h = Inr (h\<lparr>la_next := la_next h + sz\<rparr>, la_next h)"
  using alloc_align_1 [OF assms] by (simp add: box_bytes_def)

lemma tss_stacks_ok:
  assumes "heap_ready 4096 h" "unat (la_next h) + n * 0x10000 \<le> unat (la_end h)"
  shows "tss_stacks n h = Inr (h\<lparr>la_next := la_next h + of_nat n * 0x10000\<rparr>,
      map (\<lambda>j. la_next h + of_nat (Suc j) * 0x10000) [0..<n]) \<and>
    heap_ready 4096 (h\<lparr>la_next := la_next h + of_nat n * 0x10000\<rparr>) \<and>
    unat (la_next h + of_nat n * 0x10000) = unat (la_next h) + n * 0x10000"
  using assms
proof (induction n arbitrary: h)
  case 0
  then show ?case by simp
next
  case (Suc n)
  let ?h = "h\<lparr>la_next := la_next h + 0x10000\<rparr>"
  note one = alloc_align_1 [OF Suc.prems(1), of "0x10000"]
  have fit: "unat (la_next h) + unat (0x10000 :: usize) \<le> unat (la_end h)" using Suc.prems(2) by simp
  note one = one [OF fit, simplified]
  have "unat (la_next ?h) + n * 0x10000 \<le> unat (la_end ?h)" using one(3) Suc.prems(2) by simp
  note rest = Suc.IH [OF one(2) this]
  have eq: "la_next h + 0x10000 + of_nat m * 0x10000 = la_next h + of_nat (Suc m) * 0x10000" for m
    by (simp add: algebra_simps)
  have m: "map (\<lambda>j. la_next h + of_nat (Suc j) * 0x10000) [0..<Suc n] =
      (la_next h + 0x10000) # map (\<lambda>j. la_next ?h + of_nat (Suc j) * 0x10000) [0..<n]"
    by (rule nth_equalityI) (auto simp: nth_Cons eq [symmetric] algebra_simps split: nat.split simp del: upt_Suc)
  have "allocate_tss_memory h = Inr (?h, la_next h + 0x10000)"
    using one(1,4) by (simp add: allocate_tss_memory_def TSS_STACK_SIZE_def box_bytes_def)
  then show ?case
    using rest one(3) unfolding m by (simp add: eq [symmetric] add.assoc)
qed

text \<open>The heap that \<open>init_gdt\<close> uses up: eight stacks, the TSS and the table itself.\<close>

definition gdt_heap :: nat where
  "gdt_heap = 8 * 0x10000 + 104 + 40"

lemma tss_new_ok:
  assumes h: "heap_ready 4096 h" "unat (la_next h) + gdt_heap \<le> unat (la_end h)"
  defines "stacks \<equiv> map (\<lambda>j. la_next h + of_nat (Suc j) * 0x10000) [0..<8]"
  obtains tss where "tss_new h = Inr (h\<lparr>la_next := la_next h + 0x80068\<rparr>, tss, la_next h + 0x80000)"
    "hd (tss_rsp tss) # tss_ist tss = stacks" "heap_ready 4096 (h\<lparr>la_next := la_next h + 0x80068\<rparr>)"
    "unat (la_next h + 0x80068) = unat (la_next h) + 0x80068"
proof -
  have "unat (la_next h) + 8 * 0x10000 \<le> unat (la_end h)" using h(2) by (simp add: gdt_heap_def)
  note st = tss_stacks_ok [OF h(1) this, folded stacks_def]
  have eight: "tss_stacks 8 h = bind_out (allocate_tss_memory h) (\<lambda>(h1, rsp0).
      bind_out (tss_stacks 7 h1) (\<lambda>(h2, ist). Inr (h2, rsp0 # ist)))"
    using tss_stacks.simps(2) [of 7 h, unfolded Suc_numeral] by (simp only: semiring_norm)
  then obtain h1 rsp0 h2 ist where a: "allocate_tss_memory h = Inr (h1, rsp0)" "tss_stacks 7 h1 = Inr (h2, ist)"
      "h2 = h\<lparr>la_next := la_next h + 0x80000\<rparr>" "rsp0 # ist = stacks"
    using st by (auto simp: bind_out_def split: sum.splits prod.splits)
  have h2: "heap_ready 4096 h2" "unat (la_next h2) = unat (la_next h) + 0x80000" "la_next h2 = la_next h + 0x80000"
    "la_end h2 = la_end h" using st a(3) by simp_all
  have sz: "unat TSS_SIZE = 104" "unat TSS_SIZE < 2 ^ 62" by (simp_all add: TSS_SIZE_def)
  have "unat (la_next h2) + unat TSS_SIZE \<le> unat (la_end h2)" using h(2) h2(2,4) sz(1) by (simp add: gdt_heap_def)
  note b = alloc_align_1 [OF h2(1) this sz(2)] box_bytes_ok [OF h2(1) this sz(2)]
  have ne: "la_next h2 + TSS_SIZE = la_next h + 0x80068" by (simp add: h2(3) TSS_SIZE_def)
  define tss where "tss = \<lparr>tss_reserved0 = 0, tss_rsp = [rsp0, 0, 0], tss_reserved1 = 0, tss_ist = ist,
      tss_reserved2 = 0, tss_io_map_base = 0, tss_reserved3 = 0\<rparr>"
  have "tss_new h = Inr (h2\<lparr>la_next := la_next h2 + TSS_SIZE\<rparr>, tss, la_next h2)"
    using b(5) by (simp add: tss_new_def a(1,2) tss_def Let_def)
  moreover have "h2\<lparr>la_next := la_next h2 + TSS_SIZE\<rparr> = h\<lparr>la_next := la_next h + 0x80068\<rparr>" unfolding ne by (simp add: a(3))
  moreover have "unat (la_next h + 0x80068) = unat (la_next h) + 0x80068" using b(3) h2(2) sz(1) unfolding ne by simp
  moreover have "hd (tss_rsp tss) # tss_ist tss = stacks" using a(4) by (simp add: tss_def)
  ultimately show ?thesis using that [of tss] b(2) h2(3) by metis
qed

lemma gdt_default_ok:
  assumes h: "heap_ready 4096 h" "unat (la_next h) + gdt_heap \<le> unat (la_end h)"
  obtains g where "gdt_default wb wb128 h = Inr (h\<lparr>la_next := la_next h + 0x80090\<rparr>, g)"
    "heap_ready 4096 (h\<lparr>la_next := la_next h + 0x80090\<rparr>)" "unat (la_next h + 0x80090) = unat (la_next h) + gdt_heap"
    "gdt_inner g = \<lparr>null_segment = segment_null, kernel_code_segment = segment_create wb True False True 0 0xfffff 0 1,
       kernel_data_segment = segment_create wb True False False 0 0xfffff 0 1,
       tss_segment = tss_create wb128 (gdt_tss_addr g)\<rparr>"
    "gdt_addr g = la_next h + 0x80068" "gdt_tss_addr g = la_next h + 0x80000"
    "hd (tss_rsp (gdt_tss64 g)) # tss_ist (gdt_tss64 g) = map (\<lambda>j. la_next h + of_nat (Suc j) * 0x10000) [0..<8]"
proof -
  let ?h = "h\<lparr>la_next := la_next h + 0x80068\<rparr>"
  obtain tss where t: "tss_new h = Inr (?h, tss, la_next h + 0x80000)"
    "hd (tss_rsp tss) # tss_ist tss = map (\<lambda>j. la_next h + of_nat (Suc j) * 0x10000) [0..<8]"
    "heap_ready 4096 ?h" "unat (la_next h + 0x80068) = unat (la_next h) + 0x80068"
    using tss_new_ok [OF h] by blast
  have sz: "unat GDT_SIZE = 40" "unat GDT_SIZE < 2 ^ 62" by (simp_all add: GDT_SIZE_def)
  have "unat (la_next ?h) + unat GDT_SIZE \<le> unat (la_end ?h)" using h(2) t(4) sz(1) by (simp add: gdt_heap_def)
  note b = alloc_align_1 [OF t(3) this sz(2)] box_bytes_ok [OF t(3) this sz(2)]
  have ne: "la_next ?h + GDT_SIZE = la_next h + 0x80090" by (simp add: GDT_SIZE_def)
  have "unat (la_next h + 0x80090) = unat (la_next h) + gdt_heap"
    using b(3) t(4) sz(1) unfolding ne by (simp add: gdt_heap_def)
  moreover have "heap_ready 4096 (h\<lparr>la_next := la_next h + 0x80090\<rparr>)" using b(2) unfolding ne by simp
  moreover have "box_bytes GDT_SIZE ?h = Inr (h\<lparr>la_next := la_next h + 0x80090\<rparr>, la_next h + 0x80068)"
    using b(5) unfolding ne by simp
  ultimately show ?thesis
    using t(1,2)
    by (intro that [of "\<lparr>gdt_inner = \<lparr>null_segment = segment_null,
        kernel_code_segment = segment_create wb True False True 0 0xfffff 0 1,
        kernel_data_segment = segment_create wb True False False 0 0xfffff 0 1,
        tss_segment = tss_create wb128 (la_next h + 0x80000)\<rparr>, gdt_addr = la_next h + 0x80068, gdt_tss64 = tss,
        gdt_tss_addr = la_next h + 0x80000\<rparr>"])
      (simp_all add: gdt_default_def Let_def)
qed

lemma segment_flag:
  fixes ex :: bool
  assumes "bitfield_setter wb"
  defines "d \<equiv> segment_create wb True False ex 0 0xfffff 0 1"
  shows "seg_base d = 0" "seg_limit d = 0xfffff" "get_field 41 1 d = 1" "get_field 43 1 d = of_bool ex" "get_field 44 1 d = 1"
    "get_field 45 2 d = 0" "get_field 47 1 d = 1" "get_field 53 1 d = of_bool ex" "get_field 54 1 d = of_bool (\<not> ex)"
    "get_field 55 1 d = 1"
proof -
  have lim: "take_bit 20 (0xfffff :: u32) = 0xfffff" by simp
  show "seg_base d = 0" "seg_limit d = 0xfffff" using segment_base_limit [OF assms(1) lim] by (simp_all add: d_def)
qed (unfold d_def, (rule segment_field [OF assms(1)]; simp)+)

text \<open>
  C22: \<open>init_gdt\<close> sets up what the processor needs.  With room in the heap it succeeds; read as the
  processor reads them, the code segment is a present, executable 64-bit segment of ring 0 and
  the data segment a present, writable one, both from address 0 with the largest limit; the TSS
  descriptor is present, of the type of an available 64-bit TSS, and has the address of the TSS;
  the table register, the task register and all segment registers refer to this table; and the
  stack of ring 0 and the seven interrupt stacks each have 64 KiB of the heap of their own.
\<close>

theorem init_gdt_tables:
  assumes wb: "bitfield_setter wb" "bitfield_setter wb128" and h: "heap_ready 4096 h"
    "unat (la_next h) + gdt_heap \<le> unat (la_end h)"
  shows "\<exists>h' c' g. init_gdt wb wb128 h c = Inr (h', c', g) \<and> heap_ready 4096 h' \<and>
    unat (la_next h') = unat (la_next h) + gdt_heap \<and>
    ring0_code (kernel_code_segment (gdt_inner g)) \<and> ring0_data (kernel_data_segment (gdt_inner g)) \<and>
    tss_at (gdt_tss_addr g) (tss_segment (gdt_inner g)) \<and>
    gdtr_base c' = gdt_addr g \<and> gdtr_limit c' = 39 \<and> reg_tr c' = 24 \<and> reg_cs c' = 8 \<and> reg_ss c' = 16 \<and> reg_ds c' = 16 \<and>
    hd (tss_rsp (gdt_tss64 g)) # tss_ist (gdt_tss64 g) = map (\<lambda>j. la_next h + of_nat (Suc j) * 0x10000) [0..<8]"
proof -
  obtain g where g: "gdt_default wb wb128 h = Inr (h\<lparr>la_next := la_next h + 0x80090\<rparr>, g)"
    "heap_ready 4096 (h\<lparr>la_next := la_next h + 0x80090\<rparr>)" "unat (la_next h + 0x80090) = unat (la_next h) + gdt_heap"
    "gdt_inner g = \<lparr>null_segment = segment_null, kernel_code_segment = segment_create wb True False True 0 0xfffff 0 1,
       kernel_data_segment = segment_create wb True False False 0 0xfffff 0 1,
       tss_segment = tss_create wb128 (gdt_tss_addr g)\<rparr>"
    "hd (tss_rsp (gdt_tss64 g)) # tss_ist (gdt_tss64 g) = map (\<lambda>j. la_next h + of_nat (Suc j) * 0x10000) [0..<8]"
    by (rule gdt_default_ok [OF h, of wb wb128]) (rule that)
  have "get_field 40 4 (tss_create wb128 a) = 9" "get_field 44 1 (tss_create wb128 a) = 0"
    "get_field 47 1 (tss_create wb128 a) = 1" for a
    by (rule tss_field [OF wb(2)]; simp)+
  then have t: "tss_at a (tss_create wb128 a)" for a by (simp add: tss_at_def tss_base [OF wb(2)])
  have seg: "ring0_code (segment_create wb True False True 0 0xfffff 0 1)" "ring0_data (segment_create wb True False False 0 0xfffff 0 1)"
    by (simp_all only: ring0_code_def ring0_data_def segment_flag [OF wb(1)]) simp_all
  let ?c = "load_kernel_code_segment (load_kernel_data_segment (gdt_load g c))"
  have c: "gdtr_base ?c = gdt_addr g" "gdtr_limit ?c = 39" "reg_tr ?c = 24" "reg_cs ?c = 8" "reg_ss ?c = 16" "reg_ds ?c = 16"
    by (simp_all add: load_kernel_code_segment_def load_kernel_data_segment_def gdt_load_def selector_defs GDT_SIZE_def)
  have "init_gdt wb wb128 h c = Inr (h\<lparr>la_next := la_next h + 0x80090\<rparr>, ?c, g)" by (simp add: init_gdt_def g(1))
  then show ?thesis
    using g(2,3,5) c t seg by (intro exI conjI) (assumption | simp add: g(4))+
qed

theorem init_gdt_tables_witness:
  "\<exists>h' c' g. init_gdt deposit deposit \<lparr>la_start = 0x100000, la_end = 0x200000, la_next = 0x100000\<rparr>
      \<lparr>gdtr_limit = 0, gdtr_base = 0, idtr_limit = 0, idtr_base = 0, reg_tr = 0, reg_cs = 0, reg_ds = 0, reg_es = 0,
       reg_fs = 0, reg_gs = 0, reg_ss = 0\<rparr> = Inr (h', c', g) \<and>
    ring0_code (kernel_code_segment (gdt_inner g)) \<and> tss_at (gdt_tss_addr g) (tss_segment (gdt_inner g))"
proof -
  let ?h = "\<lparr>la_start = 0x100000, la_end = 0x200000, la_next = 0x100000\<rparr>"
  have "heap_ready 4096 ?h" "unat (la_next ?h) + gdt_heap \<le> unat (la_end ?h)"
    by (simp_all add: heap_ready_def heap_inv_def gdt_heap_def)
  from init_gdt_tables [OF deposit_setter deposit_setter this] show ?thesis by blast
qed

text \<open>
  The limit of the TSS is the last valid offset, counted in pages when the granularity bit is
  set: the descriptor lets the TSS reach over 105 pages where the structure has 104 bytes.
\<close>

lemma tss_limit_too_large:
  assumes "bitfield_setter wb"
  shows "get_field 0 16 (tss_create wb base) = 104" "get_field 48 4 (tss_create wb base) = 0"
    "get_field 55 1 (tss_create wb base) = 1"
  using tss_field [OF assms, of 0 16 104 base] tss_field [OF assms, of 48 4 0 base] tss_field [OF assms, of 55 1 1 base]
  by (simp_all add: TSS_SIZE_def)

end
