(* ===== verification/Idt.thy ===== *)
theory Idt
  imports Gdt
begin

text \<open>
  The interrupt descriptor table of \<open>kernel/src/idt.rs\<close>.  The addresses of the handlers are
  given by the linker and are a parameter: \<open>entry n\<close> for \<open>interrupt_entry_<n>\<close> and
  \<open>unimplemented\<close> for \<open>interrupt_handler_unimplemented\<close>.
\<close>

section \<open>Descriptors\<close>

definition IDT_DPL_0 :: u8 where "IDT_DPL_0 = 0b00"
definition IDT_DPL_3 :: u8 where "IDT_DPL_3 = 0b11"
definition IDT_GATE_TYPE_INTGATE :: u8 where "IDT_GATE_TYPE_INTGATE = 0b1110"

lemmas idt_consts = IDT_DPL_0_def IDT_DPL_3_def IDT_GATE_TYPE_INTGATE_def

definition idt_create ::
    "(nat \<Rightarrow> nat \<Rightarrow> 128 word \<Rightarrow> 128 word \<Rightarrow> 128 word) \<Rightarrow> u16 \<Rightarrow> u8 \<Rightarrow> u8 \<Rightarrow> u8 \<Rightarrow> usize \<Rightarrow> 128 word" where
  "idt_create with_bits segment_selector ist_index gate_type dpl f =
     with_fields with_bits
       [(0, 16, ucast (f AND 0xffff)),
        (16, 16, ucast segment_selector),
        (32, 3, ucast ist_index),
        (40, 4, ucast (gate_type AND 0b1111)),
        (45, 2, ucast (dpl AND 0b11)),
        (47, 1, of_bool True),
        (48, 16, ucast (drop_bit 16 f AND 0xffff)),
        (64, 32, ucast (drop_bit 32 f))]"

section \<open>The table\<close>

definition idt_entries ::
    "(nat \<Rightarrow> nat \<Rightarrow> 128 word \<Rightarrow> 128 word \<Rightarrow> 128 word) \<Rightarrow> (nat \<Rightarrow> usize) \<Rightarrow> usize \<Rightarrow> u16 \<Rightarrow> (128 word) list" where
  "idt_entries wb entry unimplemented sel =
     (let entries = replicate 0x100 (idt_create wb sel 1 IDT_GATE_TYPE_INTGATE IDT_DPL_0 unimplemented);
          entries = entries[3 := idt_create wb sel 1 IDT_GATE_TYPE_INTGATE IDT_DPL_3 (entry 3)];
          entries = entries[6 := idt_create wb sel 1 IDT_GATE_TYPE_INTGATE IDT_DPL_0 (entry 6)];
          entries = entries[13 := idt_create wb sel 1 IDT_GATE_TYPE_INTGATE IDT_DPL_0 (entry 13)];
          entries = entries[14 := idt_create wb sel 1 IDT_GATE_TYPE_INTGATE IDT_DPL_0 (entry 14)]
      in entries[42 := idt_create wb sel 0 IDT_GATE_TYPE_INTGATE IDT_DPL_0 (entry 42)])"

text \<open>
  \<open>Box::pin(entries)\<close> takes 4096 bytes with the alignment of \<open>u128\<close>; the interrupt flag is set
  at the end.
\<close>

definition idt_layout :: Layout where
  "idt_layout = \<lparr>layout_size = 0x1000, layout_align = 16\<rparr>"

definition idt_new ::
    "(nat \<Rightarrow> nat \<Rightarrow> 128 word \<Rightarrow> 128 word \<Rightarrow> 128 word) \<Rightarrow> (nat \<Rightarrow> usize) \<Rightarrow> usize \<Rightarrow> u16 \<Rightarrow> LinerAllocator \<Rightarrow> cpu_tables \<Rightarrow>
     (LinerAllocator \<times> cpu_tables \<times> bool \<times> (128 word) list) outcome" where
  "idt_new wb entry unimplemented sel h c =
     (let entries = idt_entries wb entry unimplemented sel in
      bind_out (alloc h idt_layout) (\<lambda>(h1, p).
      if p = 0 then Inl Alloc_error
      else Inr (h1, c\<lparr>idtr_limit := of_nat (length entries * 16 - 1), idtr_base := p\<rparr>, True, entries)))"

definition init_idt ::
    "(nat \<Rightarrow> nat \<Rightarrow> 128 word \<Rightarrow> 128 word \<Rightarrow> 128 word) \<Rightarrow> (nat \<Rightarrow> usize) \<Rightarrow> usize \<Rightarrow> LinerAllocator \<Rightarrow> cpu_tables \<Rightarrow>
     (LinerAllocator \<times> cpu_tables \<times> bool \<times> (128 word) list) outcome" where
  "init_idt wb entry unimplemented h c = idt_new wb entry unimplemented KERNEL_CODE_SEGMENT h c"

section \<open>How the processor reads a gate\<close>

definition gate_offset :: "128 word \<Rightarrow> 128 word" where
  "gate_offset d = get_field 0 16 d OR push_bit 16 (get_field 48 16 d) OR push_bit 32 (get_field 64 32 d)"

text \<open>A present interrupt gate to \<open>f\<close> in the segment \<open>sel\<close>, with its stack table index and privilege level.\<close>

definition interrupt_gate :: "u16 \<Rightarrow> u8 \<Rightarrow> u8 \<Rightarrow> usize \<Rightarrow> 128 word \<Rightarrow> bool" where
  "interrupt_gate sel ist dpl f d \<longleftrightarrow>
     gate_offset d = ucast f \<and> get_field 16 16 d = ucast sel \<and> get_field 32 3 d = ucast ist \<and>
     get_field 40 4 d = 14 \<and> get_field 44 1 d = 0 \<and> get_field 45 2 d = ucast dpl \<and> get_field 47 1 d = 1"

lemma mask_4: "(0b1111 :: 'a::len word) = mask 4"
  by (simp add: mask_eq_decr_exp)

lemma gate_fits:
  "take_bit 16 (ucast (s :: u16) :: 128 word) = ucast s"
  "take_bit 32 (ucast (drop_bit 32 (f :: u64)) :: 128 word) = ucast (drop_bit 32 f)"
  by (rule bit_word_eqI; auto simp: bit_simps dest: bit_imp_le_length)+

lemma gate_fields_ok:
  assumes "take_bit 3 (ucast ist :: 128 word) = ucast ist"
  shows "fields_ok 0 [(0, 16, ucast (f AND 0xffff)), (16, 16, ucast (sel :: u16)), (32, 3, ucast ist),
    (40, 4, ucast ((gt :: u8) AND 0b1111)), (45, 2, ucast ((dpl :: u8) AND 0b11)), (47, 1, of_bool True),
    (48, 16, ucast (drop_bit 16 (f :: u64) AND 0xffff)), (64, 32, ucast (drop_bit 32 f) :: 128 word)]"
  by (simp only: fields_ok.simps field_fits take_ucast_and [OF mask_4] gate_fits assms simp_thms) simp

lemma gate_field:
  assumes "bitfield_setter wb" "take_bit 3 (ucast ist :: 128 word) = ucast ist"
    "(off, n, v) \<in> set [(0, 16, ucast (f AND 0xffff)), (16, 16, ucast sel), (32, 3, ucast ist), (40, 4, ucast (gt AND 0b1111)),
        (45, 2, ucast (dpl AND 0b11)), (47, 1, of_bool True), (48, 16, ucast (drop_bit 16 f AND 0xffff)),
        (64, 32, ucast (drop_bit 32 f))]"
  shows "get_field off n (idt_create wb sel ist gt dpl f) = v"
  unfolding idt_create_def with_fields_def
  by (rule get_with_fields [OF assms(1) gate_fields_ok [OF assms(2)] assms(3)])

lemma split_offset:
  "ucast (f AND 0xffff) OR push_bit 16 (ucast (drop_bit 16 f AND 0xffff)) OR push_bit 32 (ucast (drop_bit 32 f)) =
    (ucast (f :: u64) :: 128 word)"
proof (rule bit_word_eqI)
  show "bit (ucast (f AND 0xffff) OR push_bit 16 (ucast (drop_bit 16 f AND 0xffff)) OR push_bit 32 (ucast (drop_bit 32 f)) :: 128 word) i
      \<longleftrightarrow> bit (ucast f :: 128 word) i" for i
    unfolding masks(1) by (cases "i < 16"; cases "i < 32") (auto simp: bit_simps dest: bit_imp_le_length)
qed

lemma gate_ok:
  assumes wb: "bitfield_setter wb" and ist: "take_bit 3 (ucast ist :: 128 word) = ucast ist" and dpl: "dpl AND 3 = dpl"
  shows "interrupt_gate sel ist dpl f (idt_create wb sel ist IDT_GATE_TYPE_INTGATE dpl f)"
proof -
  let ?d = "idt_create wb sel ist IDT_GATE_TYPE_INTGATE dpl f"
  have g: "get_field 0 16 ?d = ucast (f AND 0xffff)" "get_field 48 16 ?d = ucast (drop_bit 16 f AND 0xffff)"
    "get_field 64 32 ?d = ucast (drop_bit 32 f)" "get_field 16 16 ?d = ucast sel" "get_field 32 3 ?d = ucast ist"
    "get_field 40 4 ?d = ucast (IDT_GATE_TYPE_INTGATE AND 0b1111)" "get_field 45 2 ?d = ucast (dpl AND 0b11)"
    "get_field 47 1 ?d = of_bool True"
    by (rule gate_field [OF wb ist]; simp)+
  have "get_field 44 1 ?d = 0"
    unfolding idt_create_def with_fields_def
    by (subst get_unset_field [OF wb gate_fields_ok [OF ist]]) simp_all
  then show ?thesis
    using g split_offset dpl by (simp add: interrupt_gate_def gate_offset_def idt_consts)
qed

lemma init_idt_ok:
  assumes h: "heap_ready 4096 h" "align_up_nat 16 (unat (la_next h)) + 0x1000 \<le> unat (la_end h)"
  obtains h' p where "init_idt wb entry unimplemented h c =
      Inr (h', c\<lparr>idtr_limit := 0xFFF, idtr_base := p\<rparr>, True, idt_entries wb entry unimplemented 8)"
    "heap_ready 4096 h'" "la_start h' = la_start h" "la_end h' = la_end h"
    "unat p = align_up_nat 16 (unat (la_next h))" "unat (la_next h') = unat p + 0x1000"
proof -
  have small: "valid_layout idt_layout" "unat (layout_align idt_layout) \<le> 4096"
    by (simp_all add: idt_layout_def valid_layout_def is_power_of_two_def)
  have fit: "fits h idt_layout" using h(2) by (simp add: fits_def block_start_def idt_layout_def)
  obtain h' p where a: "alloc h idt_layout = Inr (h', p)" "unat p = block_start h idt_layout"
      "unat (la_next h') = unat p + unat (layout_size idt_layout)" "la_start h' = la_start h" "la_end h' = la_end h"
      "heap_ready 4096 h'" "0 < unat p"
    using alloc_block [OF h(1) small fit] by blast
  have len: "length (idt_entries wb entry unimplemented 8) = 256" by (simp add: idt_entries_def Let_def)
  have "p \<noteq> 0" using a(7) by auto
  then have "init_idt wb entry unimplemented h c =
      Inr (h', c\<lparr>idtr_limit := 0xFFF, idtr_base := p\<rparr>, True, idt_entries wb entry unimplemented 8)"
    by (simp add: init_idt_def idt_new_def a(1) selector_defs Let_def len)
  then show ?thesis
    using a by (intro that [of h' p]) (simp_all add: block_start_def idt_layout_def)
qed

lemma idt_entries_gates:
  assumes "bitfield_setter wb" "n < 256"
  shows "interrupt_gate 8 (if n = 42 then 0 else 1) (if n = 3 then 3 else 0)
    (if n \<in> {3, 6, 13, 14, 42} then entry n else unimplemented) (idt_entries wb entry unimplemented 8 ! n)"
  using assms(2) by (auto simp: idt_entries_def Let_def nth_list_update idt_consts
      intro!: gate_ok [OF assms(1), unfolded idt_consts])

text \<open>
  C23: \<open>init_idt\<close> installs exactly the intended handlers.  With room in the heap it succeeds, loads
  the table register with the 256 gates, and enables interrupts; every gate is a present
  interrupt gate of the kernel code segment; vectors 3, 6, 13, 14 and 42 lead to their own entry
  stubs and all other vectors to the unimplemented handler; only the breakpoint can be raised
  from ring 3; and every handler but the timer's runs on the first interrupt stack.
\<close>

theorem init_idt_gates:
  assumes wb: "bitfield_setter wb" and h: "heap_ready 4096 h"
    "align_up_nat 16 (unat (la_next h)) + 0x1000 \<le> unat (la_end h)"
  shows "\<exists>h' c' es. init_idt wb entry unimplemented h c = Inr (h', c', True, es) \<and> heap_ready 4096 h' \<and>
    idtr_limit c' = 0xFFF \<and> length es = 256 \<and> unat (idtr_base c') + 0x1000 = unat (la_next h') \<and>
    la_next h \<le> idtr_base c' \<and> 16 dvd unat (idtr_base c') \<and>
    (\<forall>n < 256. interrupt_gate 8 (if n = 42 then 0 else 1) (if n = 3 then 3 else 0)
       (if n \<in> {3, 6, 13, 14, 42} then entry n else unimplemented) (es ! n))"
proof -
  obtain h' p where i: "init_idt wb entry unimplemented h c =
      Inr (h', c\<lparr>idtr_limit := 0xFFF, idtr_base := p\<rparr>, True, idt_entries wb entry unimplemented 8)"
    "heap_ready 4096 h'" "unat p = align_up_nat 16 (unat (la_next h))" "unat (la_next h') = unat p + 0x1000"
    using init_idt_ok [OF h] by blast
  have "length (idt_entries wb entry unimplemented 8) = 256" by (simp add: idt_entries_def Let_def)
  moreover have "16 dvd unat p" "la_next h \<le> p"
    using i(3) by (simp_all add: align_up_nat_dvd align_up_nat_ge word_le_nat_alt)
  ultimately show ?thesis
    using i(1,2,4) idt_entries_gates [OF wb] by (intro exI conjI) (assumption | simp)+
qed

theorem init_idt_gates_witness:
  "\<exists>h' c' es. init_idt deposit (\<lambda>n. 0xFFFFFFFF80000000 + of_nat n) 0xFFFFFFFF80001000
      \<lparr>la_start = 0x100000, la_end = 0x200000, la_next = 0x100004\<rparr>
      \<lparr>gdtr_limit = 0, gdtr_base = 0, idtr_limit = 0, idtr_base = 0, reg_tr = 0, reg_cs = 0, reg_ds = 0, reg_es = 0,
       reg_fs = 0, reg_gs = 0, reg_ss = 0\<rparr> = Inr (h', c', True, es) \<and> interrupt_gate 8 0 0 0xFFFFFFFF8000002A (es ! 42)"
proof -
  let ?h = "\<lparr>la_start = 0x100000, la_end = 0x200000, la_next = 0x100004\<rparr>"
  have h: "heap_ready 4096 ?h" "align_up_nat 16 (unat (la_next ?h)) + 0x1000 \<le> unat (la_end ?h)"
    by (simp_all add: heap_ready_def heap_inv_def align_up_nat_def)
  let ?e = "\<lambda>n. 0xFFFFFFFF80000000 + of_nat n :: usize"
  let ?c = "\<lparr>gdtr_limit = 0, gdtr_base = 0, idtr_limit = 0, idtr_base = 0, reg_tr = 0, reg_cs = 0, reg_ds = 0, reg_es = 0,
       reg_fs = 0, reg_gs = 0, reg_ss = 0\<rparr>"
  obtain h' c' es where r: "init_idt deposit ?e 0xFFFFFFFF80001000 ?h ?c = Inr (h', c', True, es)"
    and g: "\<forall>n < 256. interrupt_gate 8 (if n = 42 then 0 else 1) (if n = 3 then 3 else 0)
       (if n \<in> {3, 6, 13, 14, 42} then ?e n else 0xFFFFFFFF80001000) (es ! n)"
    using init_idt_gates [OF deposit_setter h, of ?e "0xFFFFFFFF80001000" ?c] by blast
  have "interrupt_gate 8 0 0 0xFFFFFFFF8000002A (es ! 42)" using spec [OF g, of 42] by simp
  with r show ?thesis by blast
qed

end
