(* ===== verification/Boot.thy ===== *)
theory Boot
  imports Boot_Output Idt Timer
begin

text \<open>
  The start of the kernel: \<open>kernel_main\<close> of \<open>kernel/src/main.rs\<close> brings up the allocator, the
  page tables, the descriptor tables, the timer and the tasks, in this order.  What the linker
  and the loader decide is a parameter: the section bounds, the addresses of the entry stubs and
  of the task functions, the names that \<open>file!()\<close> gives, and the place and size of the heap.  The
  messages go to the serial port, whose answers are a parameter too (\<open>dev\<close>).  The endless \<open>hlt\<close> at the
  end is left out.
\<close>

section \<open>kernel\_main\<close>

record image =
  im_symbols :: symbols
  im_entry :: "nat \<Rightarrow> usize"
  im_unimplemented :: usize
  im_task_a :: u64
  im_task_b :: u64
  im_wasm_entry :: u64
  im_main_rs :: string
  im_paging_rs :: string
  im_task_rs :: string

record machine =
  ma_kernel :: kernel
  ma_cpu :: cpu_tables
  ma_gdt :: GdtWrapper
  ma_idt :: "(128 word) list"
  ma_timer :: "LocalApicTimer SpinLock"
  ma_mmio :: mmio
  ma_ports :: ports

definition banner :: string where
  "banner = concat (map (\<lambda>l. l @ [CHR 0x0A])
     [[],
      ''                     _    _'',
      '' _ __    ___    ___ | |_ (_) ___'',
      ''| '_ '' @ [CHR 0x5C] @ ''  / _ '' @ [CHR 0x5C] @ ''  / __|| __|| |/ __|'',
      ''| | | || (_) || (__ | |_ | |'' @ [CHR 0x5C] @ ''__ '' @ [CHR 0x5C],
      ''|_| |_| '' @ [CHR 0x5C] @ ''___/  '' @ [CHR 0x5C] @ ''___| '' @ [CHR 0x5C] @ ''__||_||___/'',
      [], []])"

definition start_tasks :: "device \<Rightarrow> image \<Rightarrow> usize \<Rightarrow> kernel \<Rightarrow> ports \<Rightarrow> (kernel \<times> ports) outcome option" where
  "start_tasks dev im pt k io =
     bind_run (Some (init pt (k\<lparr>k_if := False\<rparr>))) (\<lambda>k1.
     bind_run (spawn_io dev (im_task_rs im) (im_task_a im) k1 io) (\<lambda>(k2, io2).
     bind_run (spawn_io dev (im_task_rs im) (im_task_b im) k2 io2) (\<lambda>(k3, io3).
     bind_run (spawn_io dev (im_task_rs im) (im_wasm_entry im) k3 io3) (\<lambda>(k4, io4).
     Some (Inr (k4\<lparr>k_if := True\<rparr>, io4))))))"

definition kernel_main ::
    "device \<Rightarrow> (nat \<Rightarrow> nat \<Rightarrow> u64 \<Rightarrow> u64 \<Rightarrow> u64) \<Rightarrow> (nat \<Rightarrow> nat \<Rightarrow> 128 word \<Rightarrow> 128 word \<Rightarrow> 128 word) \<Rightarrow> image \<Rightarrow>
     u64 \<Rightarrow> u64 \<Rightarrow> usize \<Rightarrow> cpu_tables \<Rightarrow> ports \<Rightarrow> machine outcome option" where
  "kernel_main dev wb wb128 im heap_base heap_size cr3_0 cpu io =
     bind_run (Some (uart_init uart_default io)) (\<lambda>io1.
     bind_run (print dev [banner] io1) (\<lambda>io2.
     bind_run (info dev (im_main_rs im) 82 [''Kernel started!''] io2) (\<lambda>io3.
     bind_run (Some (init_allocator allocator_new heap_base heap_size)) (\<lambda>h.
     bind_run (info dev (im_main_rs im) 85 [''Allocator initialized!''] io3) (\<lambda>io4.
     bind_run (init_paging_io dev (im_paging_rs im) \<lparr>heap = h, nodes = Map.empty, cr3 = cr3_0\<rparr> (im_symbols im) io4)
       (\<lambda>(m, pt, io5).
     bind_run (info dev (im_main_rs im) 88 [''Paging initialized!''] io5) (\<lambda>io6.
     bind_run (Some (init_gdt wb wb128 (heap m) cpu)) (\<lambda>(h1, cpu1, gdt).
     bind_run (Some (init_idt wb128 (im_entry im) (im_unimplemented im) h1 cpu1)) (\<lambda>(h2, cpu2, i, idt).
     bind_run (info dev (im_main_rs im) 92 [''GDT and IDT initialized!''] io6) (\<lambda>io7.
     bind_run (Some (init_timer i (spin_new timer_new) [])) (\<lambda>(i1, timer, apic).
     bind_run (info dev (im_main_rs im) 95 [''Timer initialized!''] io7) (\<lambda>io8.
     bind_run (start_tasks dev im pt (kernel_boot (m\<lparr>heap := h2\<rparr>) i1) io8) (\<lambda>(k, io9).
     Some (Inr \<lparr>ma_kernel = k, ma_cpu = cpu2, ma_gdt = gdt, ma_idt = idt, ma_timer = timer, ma_mmio = apic,
               ma_ports = io9\<rparr>))))))))))))))"

text \<open>What \<open>kernel_main\<close> prints, as the kernel it leaves behind tells it.\<close>

definition task_log :: "image \<Rightarrow> kernel \<Rightarrow> string list" where
  "task_log im k = concat (map (\<lambda>t. log_line COLOR_CYAN ''[INFO]'' (im_task_rs im) 281 [spawn_message (the_task k t)]) [1, 2, 3])"

definition boot_log :: "image \<Rightarrow> kernel \<Rightarrow> string list" where
  "boot_log im k =
     (let say = log_line COLOR_CYAN ''[INFO]'' (im_main_rs im) in
      banner # say 82 [''Kernel started!''] @ say 85 [''Allocator initialized!''] @
      paging_log (im_paging_rs im) (im_symbols im) (root_of k 0) @
      say 88 [''Paging initialized!''] @ say 92 [''GDT and IDT initialized!''] @ say 95 [''Timer initialized!''] @
      task_log im k)"

section \<open>The heap between the steps\<close>

lemma kmem_inv_advance:
  assumes "kmem_inv m" "heap_ready 4096 h" "la_start h = la_start (heap m)" "la_end h = la_end (heap m)"
    "la_next (heap m) \<le> la_next h"
  shows "kmem_inv (m\<lparr>heap := h\<rparr>)"
proof -
  have "unat a + 4096 \<le> unat (la_next h)" if "unat a + 4096 \<le> unat (la_next (heap m))" for a :: usize
    using that assms(5) by (simp add: word_le_nat_alt)
  then show ?thesis using assms(1-4) by (auto simp: kmem_inv_def)
qed

text \<open>The initialisation of the port.\<close>

definition uart_setup :: "(u16 \<times> u8) list" where
  "uart_setup = [(0x3F9, 0), (0x3FB, 0x80), (0x3F8, 1), (0x3F9, 0), (0x3FB, 3), (0x3FA, 0xC7), (0x3FC, 0x0B)]"

lemma uart_init_ok: "uart_init uart_default io = Inr (io\<lparr>io_out := io_out io @ uart_setup\<rparr>)"
  by (simp add: uart_init_def uart_out_def uart_default_def uart_new_def IO_ADDR_COM1_def IO_BAUD_DIVISOR_def
      add_chk_def write_io_def uart_setup_def)

lemma init_allocator_ok:
  assumes "0xFFFF888000000000 \<le> unat base" "unat base + unat sz \<le> 0xFFFF890000000000"
  obtains h where "init_allocator allocator_new base sz = Inr h" "la_next h = base" "unat (la_end h) = unat base + unat sz"
    "kmem_inv \<lparr>heap = h, nodes = Map.empty, cr3 = c\<rparr>"
proof -
  let ?h = "\<lparr>la_start = base, la_end = base + sz, la_next = base\<rparr>"
  have e: "unat (base + sz) = unat base + unat sz" using assms by (intro unat_add_no_wrap) simp
  have "init_allocator allocator_new base sz = Inr ?h"
    using assms by (simp add: init_allocator_def allocator_init_def allocator_new_def add_chk_def)
  moreover have "kmem_inv \<lparr>heap = ?h, nodes = Map.empty, cr3 = c\<rparr>"
    using assms e by (simp add: kmem_inv_def heap_ready_def heap_inv_def word_le_nat_alt unat_gt_0 [symmetric] word_gt_0)
  ultimately show ?thesis using that [of ?h] e by simp
qed

section \<open>Starting the tasks\<close>

text \<open>All tasks are runnable in the address space \<open>A\<close>.\<close>

definition all_ready :: "address_space \<Rightarrow> kernel \<Rightarrow> bool" where
  "all_ready A k \<longleftrightarrow> (\<forall>t \<in> set (task_list k). runnable k t \<and> aspace (k_mem k) (root_of k t) = A)"

lemma spawn_ready:
  assumes tr: "transmits dev" and inv: "kernel_inv k" and r: "room (k_mem k) (5 + j)" and ready: "all_ready A k"
  obtains k' io' where "spawn_io dev file func k io = Some (Inr (k', io'))" "kernel_inv k'" "room (k_mem k') j" "all_ready A k'"
    "task_list k' = task_list k @ [k_next_tid k]" "k_next_tid k' = Suc (k_next_tid k)" "current_of k' = current_of k"
    "k_ticks k' = k_ticks k" "\<forall>t < k_next_tid k. the_task k' t = the_task k t"
    "io_out io' = io_out io @ sent (log_line COLOR_CYAN ''[INFO]'' file 281 [spawn_message (the_task k' (k_next_tid k))])"
proof -
  obtain m root kstack where s:
    "spawn func k = Inr (spawned k m ((zero_stack kstack (k_words k))(kstack + 0x1FFF8 := func)) (spawned_task k kstack root))"
    "kernel_inv (spawned k m ((zero_stack kstack (k_words k))(kstack + 0x1FFF8 := func)) (spawned_task k kstack root))"
    "aspace m root = aspace (k_mem k) (root_of k (current_of k))"
    "\<forall>t \<in> set (task_list k). aspace m (root_of k t) = aspace (k_mem k) (root_of k t)" "room m j"
    by (rule spawn_ok [OF inv r, of func]) (rule that)
  let ?k = "spawned k m ((zero_stack kstack (k_words k))(kstack + 0x1FFF8 := func)) (spawned_task k kstack root)"
  note d = sched_invD [of k]
  have si: "sched_inv k" using inv by (simp add: kernel_inv_def)
  have "aspace m root = A" using s(3) ready sched_invD(7) [OF si] by (simp add: all_ready_def)
  then have new: "runnable ?k (k_next_tid k) \<and> aspace m (root_of ?k (k_next_tid k)) = A"
    by (simp add: runnable_def root_of_def spawned_task_def)
  have old: "runnable ?k t \<and> aspace m (root_of ?k t) = A" if "t \<in> set (task_list k)" for t
  proof -
    have "t \<noteq> k_next_tid k" using sched_invD(4) [OF si that] by simp
    then have "the_task ?k t = the_task k t" by simp
    then show ?thesis using ready s(4) that by (simp add: all_ready_def runnable_def root_of_def)
  qed
  have "all_ready A ?k" using new old by (auto simp: all_ready_def simp del: spawned_simps(10))
  moreover have "k_store ?k (k_next_tid k) \<noteq> None" by (simp add: spawned_def)
  then obtain io' where "spawn_io dev file func k io = Some (Inr (?k, io'))"
    "io_out io' = io_out io @ sent (log_line COLOR_CYAN ''[INFO]'' file 281 [spawn_message (the_task ?k (k_next_tid k))])"
    using spawn_io_run [OF tr s(1)] by blast
  ultimately show ?thesis using s by (intro that [of ?k io']) simp_all
qed

lemma start_tasks_ok:
  assumes tr: "transmits dev" and inv: "kmem_inv m" "tree_inv kptr (nodes m) root" and r: "room m 15"
  obtains k io' where "start_tasks dev im root (kernel_boot m b) io = Some (Inr (k, io'))" "kernel_inv k"
    "task_list k = [0, 1, 2, 3]" "current_of k = 0" "k_if k" "k_ticks k = 0" "all_ready (aspace m root) k" "root_of k 0 = root"
    "io_out io' = io_out io @ sent (task_log im k)"
proof -
  obtain k1 where k1: "init root (kernel_boot m False) = Inr k1" "kernel_inv k1" "task_list k1 = [0]" "current_of k1 = 0"
    "k_mem k1 = m" "root_of k1 0 = root" "runnable k1 0"
    by (rule init_ok [OF inv])
  have t1: "k_next_tid k1 = 1" "k_ticks k1 = 0"
    using k1(1) by (auto simp: init_def task_new_def arc_new_def tasks_push_def set_current_def lock_defs kernel_boot_def
        spin_new_def Let_def)
  have a1: "all_ready (aspace m root) k1" using k1 by (simp add: all_ready_def)
  let ?say = "\<lambda>t. sent (log_line COLOR_CYAN ''[INFO]'' (im_task_rs im) 281 [spawn_message t])"
  have r1: "room (k_mem k1) (5 + 10)" using r k1(5) by simp
  obtain k2 io2 where k2: "spawn_io dev (im_task_rs im) (im_task_a im) k1 io = Some (Inr (k2, io2))" "kernel_inv k2"
    "room (k_mem k2) 10" "all_ready (aspace m root) k2"
    "task_list k2 = task_list k1 @ [k_next_tid k1]" "k_next_tid k2 = Suc (k_next_tid k1)" "current_of k2 = current_of k1"
    "k_ticks k2 = k_ticks k1" "\<forall>t < k_next_tid k1. the_task k2 t = the_task k1 t"
    "io_out io2 = io_out io @ ?say (the_task k2 (k_next_tid k1))"
    by (rule spawn_ready [OF tr k1(2) r1 a1])
  have r2: "room (k_mem k2) (5 + 5)" using k2(3) by simp
  obtain k3 io3 where k3: "spawn_io dev (im_task_rs im) (im_task_b im) k2 io2 = Some (Inr (k3, io3))" "kernel_inv k3"
    "room (k_mem k3) 5" "all_ready (aspace m root) k3"
    "task_list k3 = task_list k2 @ [k_next_tid k2]" "k_next_tid k3 = Suc (k_next_tid k2)" "current_of k3 = current_of k2"
    "k_ticks k3 = k_ticks k2" "\<forall>t < k_next_tid k2. the_task k3 t = the_task k2 t"
    "io_out io3 = io_out io2 @ ?say (the_task k3 (k_next_tid k2))"
    by (rule spawn_ready [OF tr k2(2) r2 k2(4)])
  have r3: "room (k_mem k3) (5 + 0)" using k3(3) by simp
  obtain k4 io4 where k4: "spawn_io dev (im_task_rs im) (im_wasm_entry im) k3 io3 = Some (Inr (k4, io4))" "kernel_inv k4"
    "all_ready (aspace m root) k4" "task_list k4 = task_list k3 @ [k_next_tid k3]" "current_of k4 = current_of k3"
    "k_ticks k4 = k_ticks k3" "\<forall>t < k_next_tid k3. the_task k4 t = the_task k3 t"
    "io_out io4 = io_out io3 @ ?say (the_task k4 (k_next_tid k3))"
    by (rule spawn_ready [OF tr k3(2) r3 k3(4)])
  let ?k = "k4\<lparr>k_if := True\<rparr>"
  have tids: "k_next_tid k1 = 1" "k_next_tid k2 = 2" "k_next_tid k3 = 3" using t1(1) k2(6) k3(6) by simp_all
  have the: "the_task ?k t = the_task k4 t" for t by (simp add: the_task_def)
  have same: "the_task k4 0 = the_task k1 0" "the_task k4 (Suc 0) = the_task k2 (Suc 0)" "the_task k4 2 = the_task k3 2"
    using k2(9) k3(9) k4(7) tids by simp_all
  have boot: "(kernel_boot m b)\<lparr>k_if := False\<rparr> = kernel_boot m False" by (simp add: kernel_boot_def)
  show ?thesis
  proof (rule that [of ?k io4])
    show "start_tasks dev im root (kernel_boot m b) io = Some (Inr (?k, io4))"
      by (simp add: start_tasks_def boot k1(1) k2(1) k3(1) k4(1))
    show "kernel_inv ?k" using k4(2) by (simp add: kernel_inv_def sched_inv_def free_task_def the root_of_def)
    show "all_ready (aspace m root) ?k" using k4(3) by (simp add: all_ready_def root_of_def the)
    show "current_of ?k = 0" using k1(4) k2(7) k3(7) k4(5) by (simp add: current_of_def)
    show "io_out io4 = io_out io @ sent (task_log im ?k)"
      using k2(10) k3(10) k4(8) by (simp add: task_log_def the same tids)
    show "root_of ?k 0 = root" using k1(6) same(1) by (simp add: root_of_def the)
  qed (use k1(3) tids t1 k2(5,8) k3(5,8) k4(4,6) in simp_all)
qed

section \<open>The whole start\<close>

text \<open>Room for the kernel's page tables, the descriptor tables with their stacks, and three tasks.\<close>

definition boot_pages :: "symbols \<Rightarrow> nat" where
  "boot_pages s = tables_needed s + 146"

lemma descriptor_tables_ok:
  assumes inv: "kmem_inv m" and r: "room m 146"
  obtains gdt h1 c h2 p where "init_gdt wb wb128 (heap m) cpu = Inr (h1, c, gdt)"
    "c = load_kernel_code_segment (load_kernel_data_segment (gdt_load gdt cpu))"
    "init_idt wb128 entry unimplemented h1 c =
      Inr (h2, c\<lparr>idtr_limit := 0xFFF, idtr_base := p\<rparr>, True, idt_entries wb128 entry unimplemented 8)"
    "kmem_inv (m\<lparr>heap := h2\<rparr>)" "room (m\<lparr>heap := h2\<rparr>) 15"
proof -
  let ?h = "heap m"
  let ?h1 = "?h\<lparr>la_next := la_next ?h + 0x80090\<rparr>"
  have ready: "heap_ready 4096 ?h" using inv by (simp add: kmem_inv_def)
  have ge: "unat (la_next ?h) \<le> align_up_nat 4096 (unat (la_next ?h))" by (rule align_up_nat_ge) simp
  have space: "unat (la_next ?h) + 0x92000 \<le> unat (la_end ?h)" using r ge by (simp add: room_def)
  then have g: "unat (la_next ?h) + gdt_heap \<le> unat (la_end ?h)" by (simp add: gdt_heap_def)
  obtain gdt where gdt: "gdt_default wb wb128 ?h = Inr (?h1, gdt)" "heap_ready 4096 ?h1"
    "unat (la_next ?h + 0x80090) = unat (la_next ?h) + gdt_heap" "gdt_addr gdt = la_next ?h + 0x80068"
    by (rule gdt_default_ok [OF ready g, of wb wb128]) (rule that)
  have n1: "unat (la_next ?h1) = unat (la_next ?h) + 0x80090" using gdt(3) by (simp add: gdt_heap_def)
  have al: "align_up_nat 16 (unat (la_next ?h1)) < unat (la_next ?h1) + 16" by (rule align_up_nat_less) simp
  then have i: "align_up_nat 16 (unat (la_next ?h1)) + 0x1000 \<le> unat (la_end ?h1)" using space n1 by simp
  let ?c = "load_kernel_code_segment (load_kernel_data_segment (gdt_load gdt cpu))"
  obtain h2 p where idt: "init_idt wb128 entry unimplemented ?h1 ?c =
      Inr (h2, ?c\<lparr>idtr_limit := 0xFFF, idtr_base := p\<rparr>, True, idt_entries wb128 entry unimplemented 8)"
    "heap_ready 4096 h2" "la_start h2 = la_start ?h1" "la_end h2 = la_end ?h1"
    "unat p = align_up_nat 16 (unat (la_next ?h1))" "unat (la_next h2) = unat p + 0x1000"
    by (rule init_idt_ok [OF gdt(2) i, of wb128 entry unimplemented ?c])
  have n2: "unat (la_next h2) < unat (la_next ?h) + 0x810A0" using idt(5,6) al n1 by simp
  have "align_up_nat 4096 (unat (la_next h2)) < unat (la_next h2) + 4096" by (rule align_up_nat_less) simp
  then have "room (m\<lparr>heap := h2\<rparr>) 15" using space n2 idt(4) by (simp add: room_def)
  moreover have "la_next ?h \<le> la_next h2"
    using idt(5,6) n1 align_up_nat_ge [of 16 "unat (la_next ?h1)"] by (simp add: word_le_nat_alt)
  then have "kmem_inv (m\<lparr>heap := h2\<rparr>)" using idt(2-4) by (intro kmem_inv_advance [OF inv]) simp_all
  ultimately show ?thesis
    using that [of ?h1 ?c gdt h2 p] gdt(1) idt(1) by (simp add: init_gdt_def)
qed

lemma kernel_main_ok:
  assumes tr: "transmits dev" and link: "linked (im_symbols im)"
    and hb: "0xFFFF888000000000 \<le> unat heap_base" "unat heap_base + unat heap_size \<le> 0xFFFF890000000000"
    and r: "align_up_nat 4096 (unat heap_base) + 4096 * boot_pages (im_symbols im) \<le> unat heap_base + unat heap_size"
  shows "\<exists>b. kernel_main dev wb wb128 im heap_base heap_size cr3_0 cpu io = Some (Inr b) \<and>
    io_out (ma_ports b) = io_out io @ uart_setup @ sent (boot_log im (ma_kernel b)) \<and>
    kernel_inv (ma_kernel b) \<and> task_list (ma_kernel b) = [0, 1, 2, 3] \<and> current_of (ma_kernel b) = 0 \<and>
    k_if (ma_kernel b) \<and> k_ticks (ma_kernel b) = 0 \<and>
    (\<forall>t \<in> set (task_list (ma_kernel b)). runnable (ma_kernel b) t \<and>
       aspace (k_mem (ma_kernel b)) (root_of (ma_kernel b) t) = kernel_space (im_symbols im)) \<and>
    reg_cs (ma_cpu b) = 8 \<and> reg_ss (ma_cpu b) = 16 \<and> gdtr_base (ma_cpu b) = gdt_addr (ma_gdt b) \<and>
    idtr_limit (ma_cpu b) = 0xFFF \<and> ma_idt b = idt_entries wb128 (im_entry im) (im_unimplemented im) 8 \<and>
    ma_timer b = spin_new timer_new \<and> ma_mmio b = [(0xFEE003E0, 4), (0xFEE00380, 0x1000000), (0xFEE00320, 0x2002A)]"
proof -
  obtain h where h: "init_allocator allocator_new heap_base heap_size = Inr h" "la_next h = heap_base"
    "unat (la_end h) = unat heap_base + unat heap_size" "kmem_inv \<lparr>heap = h, nodes = Map.empty, cr3 = cr3_0\<rparr>"
    by (rule init_allocator_ok [OF hb])
  let ?m0 = "\<lparr>heap = h, nodes = Map.empty, cr3 = cr3_0\<rparr>"
  have r0: "room ?m0 (tables_needed (im_symbols im) + 146)" using r h(2,3) by (simp add: room_def boot_pages_def)
  have empty: "\<forall>a n. nodes ?m0 a = Some n \<longrightarrow> length (entries n) = 512" by simp
  obtain m root where m: "init_paging ?m0 (im_symbols im) = Inr (m, root)" "aspace m root = kernel_space (im_symbols im)"
    "kmem_inv m" "tree_inv kptr (nodes m) root" "room m 146"
    using init_paging_room [OF h(4) empty link r0] by blast
  obtain gdt h1 c h2 p where t: "init_gdt wb wb128 (heap m) cpu = Inr (h1, c, gdt)"
    "c = load_kernel_code_segment (load_kernel_data_segment (gdt_load gdt cpu))"
    "init_idt wb128 (im_entry im) (im_unimplemented im) h1 c =
      Inr (h2, c\<lparr>idtr_limit := 0xFFF, idtr_base := p\<rparr>, True, idt_entries wb128 (im_entry im) (im_unimplemented im) 8)"
    "kmem_inv (m\<lparr>heap := h2\<rparr>)" "room (m\<lparr>heap := h2\<rparr>) 15"
    by (rule descriptor_tables_ok [OF m(3,5), of wb wb128 cpu "im_entry im" "im_unimplemented im"])
  have same: "aspace (m\<lparr>heap := h2\<rparr>) root = kernel_space (im_symbols im)" "tree_inv kptr (nodes (m\<lparr>heap := h2\<rparr>)) root"
    using m(2,4) by (simp_all add: space_def)
  note tm = init_timer_ok [OF timer_new_ok, of True "[]"]
  have c: "reg_cs c = 8" "reg_ss c = 16" "gdtr_base c = gdt_addr gdt"
    by (simp_all add: t(2) load_kernel_code_segment_def load_kernel_data_segment_def gdt_load_def selector_defs)
  let ?say = "\<lambda>n s. printed dev (log_line COLOR_CYAN ''[INFO]'' (im_main_rs im) n [s])"
  let ?io4 = "?say 85 ''Allocator initialized!'' (?say 82 ''Kernel started!''
    (printed dev [banner] (io\<lparr>io_out := io_out io @ uart_setup\<rparr>)))"
  obtain io5 where io5: "init_paging_io dev (im_paging_rs im) ?m0 (im_symbols im) ?io4 = Some (Inr (m, root, io5))"
    "io_out io5 = io_out ?io4 @ sent (paging_log (im_paging_rs im) (im_symbols im) root)"
    using init_paging_io_run [OF tr link m(1)] by blast
  let ?io8 = "?say 95 ''Timer initialized!'' (?say 92 ''GDT and IDT initialized!'' (?say 88 ''Paging initialized!'' io5))"
  obtain k io9 where k: "start_tasks dev im root (kernel_boot (m\<lparr>heap := h2\<rparr>) True) ?io8 = Some (Inr (k, io9))" "kernel_inv k"
    "task_list k = [0, 1, 2, 3]" "current_of k = 0" "k_if k" "k_ticks k = 0" "all_ready (aspace (m\<lparr>heap := h2\<rparr>) root) k"
    "root_of k 0 = root" "io_out io9 = io_out ?io8 @ sent (task_log im k)"
    by (rule start_tasks_ok [OF tr t(4) same(2) t(5)])
  have "kernel_main dev wb wb128 im heap_base heap_size cr3_0 cpu io =
      Some (Inr \<lparr>ma_kernel = k, ma_cpu = c\<lparr>idtr_limit := 0xFFF, idtr_base := p\<rparr>, ma_gdt = gdt,
        ma_idt = idt_entries wb128 (im_entry im) (im_unimplemented im) 8, ma_timer = spin_new timer_new,
        ma_mmio = [(0xFEE003E0, 4), (0xFEE00380, 0x1000000), (0xFEE00320, 0x2002A)], ma_ports = io9\<rparr>)"
    by (simp add: kernel_main_def uart_init_ok h(1) io5(1) t(1,3) tm k(1) info_def print_printed(1) [OF tr] del: print.simps)
  moreover have "io_out io9 = io_out io @ uart_setup @ sent (boot_log im k)"
    by (simp add: k(8,9) io5(2) print_printed(2) [OF tr] boot_log_def Let_def)
  ultimately show ?thesis using k(2-8) c same(1) by (simp add: all_ready_def)
qed

definition example_image :: image where
  "example_image =
     \<lparr>im_symbols = example_symbols, im_entry = (\<lambda>n. 0xFFFFFFFF80101000 + of_nat n), im_unimplemented = 0xFFFFFFFF80102000,
      im_task_a = 0xFFFFFFFF80103000, im_task_b = 0xFFFFFFFF80104000, im_wasm_entry = 0xFFFFFFFF80105000,
      im_main_rs = ''src/main.rs'', im_paging_rs = ''src/paging.rs'', im_task_rs = ''src/task.rs''\<rparr>"

definition example_cpu :: cpu_tables where
  "example_cpu =
     \<lparr>gdtr_limit = 0, gdtr_base = 0, idtr_limit = 0, idtr_base = 0, reg_tr = 0, reg_cs = 0, reg_ds = 0, reg_es = 0,
      reg_fs = 0, reg_gs = 0, reg_ss = 0\<rparr>"

lemma example_image_pages: "boot_pages (im_symbols example_image) \<le> 4096"
  by (simp add: boot_pages_def tables_needed_def example_image_def example_symbols_def div_ceil_def)

lemma example_image_boots:
  "linked (im_symbols example_image)" "0xFFFF888000000000 \<le> unat (0xFFFF888001000000 :: usize)"
  "unat (0xFFFF888001000000 :: usize) + unat (0x1000000 :: u64) \<le> 0xFFFF890000000000"
  "align_up_nat 4096 (unat (0xFFFF888001000000 :: usize)) + 4096 * boot_pages (im_symbols example_image) \<le>
      unat (0xFFFF888001000000 :: usize) + unat (0x1000000 :: u64)"
proof -
  show "linked (im_symbols example_image)" by (simp add: example_image_def example_symbols_linked)
  show "align_up_nat 4096 (unat (0xFFFF888001000000 :: usize)) + 4096 * boot_pages (im_symbols example_image) \<le>
      unat (0xFFFF888001000000 :: usize) + unat (0x1000000 :: u64)"
    using example_image_pages by (simp add: align_up_nat_id)
qed simp_all

end
