(* ===== verification/Wasm_Types.thy ===== *)
theory Wasm_Types
  imports Wasm
begin

text \<open>
  Type safety of the WebAssembly interpreter (\<open>kernel/src/wasm.rs\<close>).  The interpreter runs code
  without validating it.  All values are 32-bit integers, so the type of an operand stack is its
  height.  The checker \<open>wt_store\<close> computes the height before every instruction: operands must
  be there, local variables and callees must exist, a function must end in \<open>Return\<close> or \<open>End\<close>,
  and an \<open>If\<close> must find its condition alone on the operand stack of the frame.  The last
  condition is stronger than WebAssembly's: the interpreter leaves the label of a skipped \<open>If\<close>
  behind, and a later \<open>End\<close> unwinds to the height that this label recorded.

  The invariant \<open>wt_runtime\<close> holds of the frames of checked code at every turn of the loop, also
  when such a stale label makes the interpreter run code twice, and no turn fails but by an
  arithmetic overflow.
\<close>

section \<open>The checker\<close>

text \<open>Operands and results of the instructions that fall through.\<close>

fun inst_type :: "FuncInst list \<Rightarrow> nat \<Rightarrow> Instruction \<Rightarrow> (nat \<times> nat) option" where
  "inst_type fs nl (Const v) = Some (0, 1)"
| "inst_type fs nl (LocalGet idx) = (if unat idx < nl then Some (0, 1) else None)"
| "inst_type fs nl (Call idx) =
     (case vec_get fs (unat idx) of
        None \<Rightarrow> None
      | Some (Internal f) \<Rightarrow> Some (length (params (func_type f)), length (results (func_type f))))"
| "inst_type fs nl I32Lts = Some (2, 1)"
| "inst_type fs nl I32Add = Some (2, 1)"
| "inst_type fs nl I32Sub = Some (2, 1)"
| "inst_type fs nl I32Mul = Some (2, 1)"
| "inst_type fs nl _ = None"

text \<open>
  A checker state is the height of the operand stack, \<open>None\<close> where the code is not reached, and
  the number of open blocks.
\<close>

type_synonym height = "nat option \<times> nat"

definition leave :: "nat \<Rightarrow> height \<Rightarrow> height option" where
  "leave ar s = (case fst s of None \<Rightarrow> Some s | Some h \<Rightarrow> if ar \<le> h then Some (None, snd s) else None)"

fun after_inst :: "FuncInst list \<Rightarrow> nat \<Rightarrow> nat \<Rightarrow> height \<Rightarrow> Instruction \<Rightarrow> height option" where
  "after_inst fs nl ar s (If_block b) =
     (case fst s of None \<Rightarrow> Some (None, Suc (snd s))
      | Some h \<Rightarrow> if h = 1 then Some (Some 0, Suc (snd s)) else None)"
| "after_inst fs nl ar s End = (if snd s = 0 then leave ar s else Some (Some 0, snd s - 1))"
| "after_inst fs nl ar s Return = leave ar s"
| "after_inst fs nl ar s i =
     (case fst s of None \<Rightarrow> Some s
      | Some h \<Rightarrow> (case inst_type fs nl i of None \<Rightarrow> None
                  | Some (p, q) \<Rightarrow> if p \<le> h then Some (Some (h - p + q), snd s) else None))"

fun check :: "FuncInst list \<Rightarrow> nat \<Rightarrow> nat \<Rightarrow> height \<Rightarrow> Instruction list \<Rightarrow> height option" where
  "check fs nl ar s [] = Some s"
| "check fs nl ar s (i # is) = Option.bind (after_inst fs nl ar s i) (\<lambda>s1. check fs nl ar s1 is)"

definition wt_code :: "FuncInst list \<Rightarrow> nat \<Rightarrow> nat \<Rightarrow> Instruction list \<Rightarrow> bool" where
  "wt_code fs nl ar is \<longleftrightarrow> ar \<le> 1 \<and> check fs nl ar (Some 0, 0) is = Some (None, 0)"

fun wt_func :: "FuncInst list \<Rightarrow> FuncInst \<Rightarrow> bool" where
  "wt_func fs (Internal f) \<longleftrightarrow>
     wt_code fs (length (params (func_type f)) + length (func_locals (func_code f)))
       (length (results (func_type f))) (func_body (func_code f))"

definition wt_store :: "Store \<Rightarrow> bool" where
  "wt_store s \<longleftrightarrow> (\<forall>f \<in> set (funcs s). wt_func (funcs s) f)"

section \<open>Heights along the code\<close>

abbreviation height_at :: "FuncInst list \<Rightarrow> nat \<Rightarrow> nat \<Rightarrow> Instruction list \<Rightarrow> nat \<Rightarrow> height option" where
  "height_at fs nl ar is i \<equiv> check fs nl ar (Some 0, 0) (take i is)"

lemma check_append:
  "check fs nl ar s (xs @ ys) = Option.bind (check fs nl ar s xs) (\<lambda>s1. check fs nl ar s1 ys)"
  by (induction xs arbitrary: s) (simp_all add: Option.bind_assoc)

lemma height_Suc:
  assumes "i < length is"
  shows "height_at fs nl ar is (Suc i) = Option.bind (height_at fs nl ar is i) (\<lambda>s. after_inst fs nl ar s (is ! i))"
  using assms by (simp add: take_Suc_conv_app_nth check_append)

lemma height_drop:
  assumes "wt_code fs nl ar is" "height_at fs nl ar is i = Some s"
  shows "check fs nl ar s (drop i is) = Some (None, 0)"
  using assms check_append [of fs nl ar "(Some 0, 0)" "take i is" "drop i is"] by (simp add: wt_code_def)

lemma height_reached:
  assumes "wt_code fs nl ar is" "height_at fs nl ar is i = Some (Some h, d)"
  shows "i < length is"
  using height_drop [OF assms] by (cases "i < length is") simp_all

lemma height_next:
  assumes "wt_code fs nl ar is" "height_at fs nl ar is i = Some (Some h, d)"
  obtains s where "after_inst fs nl ar (Some h, d) (is ! i) = Some s" "height_at fs nl ar is (Suc i) = Some s"
proof -
  note lt = height_reached [OF assms]
  have "check fs nl ar (Some h, d) (is ! i # drop (Suc i) is) = Some (None, 0)"
    using height_drop [OF assms] lt by (simp add: Cons_nth_drop_Suc)
  then show ?thesis using that height_Suc [OF lt, of fs nl ar] assms(2) by (auto simp: Option.bind_eq_Some_conv)
qed

text \<open>The end of a block closes it, with nothing left on the operand stack.\<close>

lemma after_depth:
  assumes "after_inst fs nl ar s i = Some s'"
  shows "snd s' = (case i of If_block b \<Rightarrow> Suc (snd s) | End \<Rightarrow> snd s - 1 | _ \<Rightarrow> snd s)"
  using assms by (cases i) (auto simp: leave_def split: option.splits if_splits)

lemma end_addr_height:
  assumes "check fs nl ar s is = Some (None, 0)" "snd s = Suc (d + k)"
  shows "\<exists>j < length is. end_addr_from is pc k = Inr (pc + j) \<and> check fs nl ar s (take (Suc j) is) = Some (Some 0, d)"
  using assms
proof (induction "is" arbitrary: s k pc)
  case (Cons i "is")
  obtain s1 where s1: "after_inst fs nl ar s i = Some s1" "check fs nl ar s1 is = Some (None, 0)"
    using Cons.prems(1) by (auto simp: Option.bind_eq_Some_conv)
  note d = after_depth [OF s1(1)]
  have later: "\<exists>j < length (i # is). end_addr_from is (Suc pc) k1 = Inr (pc + j) \<and>
      check fs nl ar s (take (Suc j) (i # is)) = Some (Some 0, d)" if "snd s1 = Suc (d + k1)" for k1
    using Cons.IH [OF s1(2) that, of "Suc pc"] s1(1) by fastforce
  show ?case
  proof (cases "i = End \<and> k = 0")
    case True
    with s1(1) Cons.prems(2) show ?thesis by auto
  next
    case False
    then show ?thesis
      using d Cons.prems(2) later [of "Suc k"] later [of "k - 1"] later [of k] by (cases i) simp_all
  qed
qed simp

lemma get_end_addr_height:
  assumes "wt_code fs nl ar is" "height_at fs nl ar is pc = Some (Some h, d)" "is ! pc = If_block b"
  shows "\<exists>e < length is. get_end_addr is pc = Inr e \<and> height_at fs nl ar is (Suc e) = Some (Some 0, d)"
proof -
  obtain s where s: "after_inst fs nl ar (Some h, d) (is ! pc) = Some s" "height_at fs nl ar is (Suc pc) = Some s"
    by (rule height_next [OF assms(1,2)])
  have "snd s = Suc (d + 0)" using s(1) assms(3) by (auto split: if_splits)
  from end_addr_height [OF height_drop [OF assms(1) s(2)] this, of "Suc pc"]
  obtain j where j: "j < length is - Suc pc" "get_end_addr is pc = Inr (Suc pc + j)"
      "check fs nl ar s (take (Suc j) (drop (Suc pc) is)) = Some (Some 0, d)"
    by (auto simp: get_end_addr_def)
  moreover have "height_at fs nl ar is (Suc (Suc pc + j)) = check fs nl ar s (take (Suc j) (drop (Suc pc) is))"
    using s(2) by (simp only: add_Suc_right [symmetric] take_add check_append Option.bind.bind_lunit)
  ultimately show ?thesis by (intro exI [of _ "Suc pc + j"]) simp
qed

section \<open>The invariant of the running code\<close>

text \<open>A label leads behind the end of a block, to a place with at most as many open blocks as there are labels below it.\<close>

definition label_ok :: "FuncInst list \<Rightarrow> Frame \<Rightarrow> nat \<Rightarrow> Label \<Rightarrow> bool" where
  "label_ok fs f i l \<longleftrightarrow> lb_arity l = 0 \<and> lb_sp l = fr_sp f \<and> (\<exists>d \<le> i.
     height_at fs (length (fr_locals f)) (fr_arity f) (fr_insts f) (Suc (lb_pc l)) = Some (Some 0, d))"

definition frame_ok :: "FuncInst list \<Rightarrow> Frame \<Rightarrow> bool" where
  "frame_ok fs f \<longleftrightarrow> wt_code fs (length (fr_locals f)) (fr_arity f) (fr_insts f) \<and> - 1 \<le> fr_pc f \<and>
     (\<exists>g. Internal g \<in> set fs \<and> fr_insts f = func_body (func_code g)) \<and>
     (\<forall>i < length (fr_labels f). label_ok fs f i (fr_labels f ! i))"

text \<open>The frame is about to run the instruction at \<open>i\<close> with \<open>h\<close> operands.\<close>

definition ready :: "FuncInst list \<Rightarrow> Frame \<Rightarrow> nat \<Rightarrow> nat \<Rightarrow> bool" where
  "ready fs f i h \<longleftrightarrow> (\<exists>d \<le> length (fr_labels f).
     height_at fs (length (fr_locals f)) (fr_arity f) (fr_insts f) i = Some (Some h, d))"

text \<open>
  The frames, topmost first, over a stack of \<open>len\<close> values: a frame gets its callee's results on
  top of what was below the callee, and \<open>n\<close> values are left at the end.
\<close>

fun frames_ok :: "FuncInst list \<Rightarrow> nat \<Rightarrow> nat \<Rightarrow> Frame list \<Rightarrow> bool" where
  "frames_ok fs n len [] \<longleftrightarrow> len = n"
| "frames_ok fs n len (f # rest) \<longleftrightarrow> frame_ok fs f \<and> fr_sp f \<le> len \<and> ready fs f (nat (fr_pc f + 1)) (len - fr_sp f) \<and>
     frames_ok fs n (fr_sp f + fr_arity f) rest"

definition wt_runtime :: "nat \<Rightarrow> Runtime \<Rightarrow> bool" where
  "wt_runtime n rt \<longleftrightarrow> wt_store (rt_store rt) \<and>
     frames_ok (funcs (rt_store rt)) n (length (rt_stack rt)) (rev (rt_call_stack rt))"

definition arithmetic :: "Instruction \<Rightarrow> bool" where
  "arithmetic i \<longleftrightarrow> i \<in> {I32Add, I32Sub, I32Mul}"

text \<open>Some function of the store computes.\<close>

definition computes :: "Store \<Rightarrow> bool" where
  "computes s \<longleftrightarrow> (\<exists>g. Internal g \<in> set (funcs s) \<and> (\<exists>i \<in> set (func_body (func_code g)). arithmetic i))"

text \<open>What a turn of well-typed code may give.\<close>

definition turn_ok :: "nat \<Rightarrow> Store \<Rightarrow> Runtime outcome \<Rightarrow> bool" where
  "turn_ok n s r \<longleftrightarrow> (case r of Inl e \<Rightarrow> e = Arith_overflow \<and> computes s
                            | Inr rt \<Rightarrow> wt_runtime n rt \<and> rt_store rt = s)"

section \<open>Preservation\<close>

text \<open>The situation in which \<open>execute\<close> looks at the instruction \<open>p\<close> of the top frame.\<close>

definition fetched :: "nat \<Rightarrow> Runtime \<Rightarrow> Frame list \<Rightarrow> Frame \<Rightarrow> nat \<Rightarrow> nat \<Rightarrow> bool" where
  "fetched n rt below f p h \<longleftrightarrow> wt_store (rt_store rt) \<and> rt_call_stack rt = below @ [f] \<and> fr_pc f = int p \<and>
     frame_ok (funcs (rt_store rt)) f \<and> ready (funcs (rt_store rt)) f p h \<and>
     length (rt_stack rt) = fr_sp f + h \<and>
     frames_ok (funcs (rt_store rt)) n (fr_sp f + fr_arity f) (rev below)"

lemma fetched_next:
  assumes "fetched n rt below f p h"
  obtains d s where "d \<le> length (fr_labels f)"
    "height_at (funcs (rt_store rt)) (length (fr_locals f)) (fr_arity f) (fr_insts f) p = Some (Some h, d)"
    "after_inst (funcs (rt_store rt)) (length (fr_locals f)) (fr_arity f) (Some h, d) (fr_insts f ! p) = Some s"
    "height_at (funcs (rt_store rt)) (length (fr_locals f)) (fr_arity f) (fr_insts f) (Suc p) = Some s"
proof -
  obtain d where d: "d \<le> length (fr_labels f)"
    "height_at (funcs (rt_store rt)) (length (fr_locals f)) (fr_arity f) (fr_insts f) p = Some (Some h, d)"
    "wt_code (funcs (rt_store rt)) (length (fr_locals f)) (fr_arity f) (fr_insts f)"
    using assms by (auto simp: fetched_def ready_def frame_ok_def)
  show ?thesis by (rule height_next [OF d(3,2)]) (rule that [OF d(1,2)])
qed

lemma fetched_inst:
  assumes "fetched n rt below f p h"
  shows "p < length (fr_insts f)" "arithmetic (fr_insts f ! p) \<Longrightarrow> computes (rt_store rt)"
proof -
  show lt: "p < length (fr_insts f)"
    using assms height_reached by (auto simp: fetched_def ready_def frame_ok_def)
  obtain g where g: "Internal g \<in> set (funcs (rt_store rt))" "fr_insts f = func_body (func_code g)"
    using assms by (auto simp: fetched_def frame_ok_def)
  show "computes (rt_store rt)" if "arithmetic (fr_insts f ! p)"
    unfolding computes_def
    by (intro exI [of _ g] conjI bexI [of _ "fr_insts f ! p"] g(1) that) (use nth_mem [OF lt] in \<open>simp add: g(2)\<close>)
qed

text \<open>Instructions that fall through.\<close>

lemma after_simple:
  assumes "after_inst fs nl ar (Some h, d) i = Some s" "inst_type fs nl i = Some (a, b)"
  shows "a \<le> h \<and> s = (Some (h - a + b), d)"
  using assms by (cases i) (auto split: if_splits)

lemma fetched_simple:
  assumes f: "fetched n rt below f p h"
    and t: "inst_type (funcs (rt_store rt)) (length (fr_locals f)) (fr_insts f ! p) \<noteq> None"
  obtains a b where "inst_type (funcs (rt_store rt)) (length (fr_locals f)) (fr_insts f ! p) = Some (a, b)" "a \<le> h"
    "ready (funcs (rt_store rt)) f (Suc p) (h - a + b)"
proof -
  obtain d s where d: "d \<le> length (fr_labels f)"
    "after_inst (funcs (rt_store rt)) (length (fr_locals f)) (fr_arity f) (Some h, d) (fr_insts f ! p) = Some s"
    "height_at (funcs (rt_store rt)) (length (fr_locals f)) (fr_arity f) (fr_insts f) (Suc p) = Some s"
    by (rule fetched_next [OF f])
  obtain a b where ab: "inst_type (funcs (rt_store rt)) (length (fr_locals f)) (fr_insts f ! p) = Some (a, b)"
    using t by auto
  have "a \<le> h" "s = (Some (h - a + b), d)" using after_simple [OF d(2) ab] by simp_all
  with d(1,3) ab show ?thesis by (intro that) (auto simp: ready_def)
qed

lemma continue_ok:
  assumes "fetched n rt below f p h" "ready (funcs (rt_store rt)) f (Suc p) h'" "length st = fr_sp f + h'"
  shows "turn_ok n (rt_store rt) (Inr (rt\<lparr>rt_stack := st\<rparr>))"
proof -
  have "nat (int p + 1) = Suc p" by simp
  with assms show ?thesis by (simp add: turn_ok_def wt_runtime_def fetched_def)
qed

lemma stack_top:
  assumes "Suc k \<le> length st"
  obtains st1 v where "st = st1 @ [v]" "k \<le> length st1"
  using assms by (cases st rule: rev_cases) auto

lemma binary_ok:
  assumes f: "fetched n rt below f p h"
    and t: "inst_type (funcs (rt_store rt)) (length (fr_locals f)) (fr_insts f ! p) = Some (2, 1)"
    and g: "\<And>a b. case g a b of Inl e \<Rightarrow> e = Arith_overflow \<and> arithmetic (fr_insts f ! p) | Inr v \<Rightarrow> True"
  shows "turn_ok n (rt_store rt) (binary rt g)"
proof -
  have h: "2 \<le> h" "ready (funcs (rt_store rt)) f (Suc p) (h - 2 + 1)"
    by (rule fetched_simple [OF f], use t in simp, use t in simp)+
  have len: "length (rt_stack rt) = fr_sp f + h" using f by (simp add: fetched_def)
  obtain st1 y where y: "rt_stack rt = st1 @ [y]" "1 \<le> length st1"
    by (rule stack_top [of 1 "rt_stack rt"]) (use len h in simp_all)
  obtain st2 x where x: "st1 = st2 @ [x]"
    by (rule stack_top [of 0 st1]) (use y(2) in simp_all)
  have pops: "vec_pop (rt_stack rt) = Some (y, st1)" "vec_pop st1 = Some (x, st2)" "length st1 = Suc (length st2)"
    by (simp_all only: y(1) x vec_pop_snoc) simp
  show ?thesis
  proof (cases "g x y")
    case (Inl e)
    then show ?thesis using g [of x y] fetched_inst(2) [OF f] by (simp add: binary_def pops turn_ok_def)
  next
    case (Inr v)
    moreover have "length (st2 @ [v]) = fr_sp f + (h - 2 + 1)" using len h(1) y(1) pops(3) by simp
    ultimately show ?thesis using continue_ok [OF f h(2)] by (simp add: binary_def pops)
  qed
qed

lemma arithmetic_ok:
  assumes f: "fetched n rt below f p h" and i: "arithmetic (fr_insts f ! p)"
  shows "turn_ok n (rt_store rt) (binary rt (i32_chk g))"
  using i by (intro binary_ok [OF f]) (auto simp: arithmetic_def i32_chk_def Let_def)

lemma push_ok:
  assumes f: "fetched n rt below f p h"
    and t: "inst_type (funcs (rt_store rt)) (length (fr_locals f)) (fr_insts f ! p) = Some (0, 1)"
  shows "turn_ok n (rt_store rt) (Inr (rt\<lparr>rt_stack := rt_stack rt @ [v]\<rparr>))"
proof -
  have "ready (funcs (rt_store rt)) f (Suc p) (h - 0 + 1)"
    by (rule fetched_simple [OF f], use t in simp, use t in simp)
  then show ?thesis by (rule continue_ok [OF f]) (use f in \<open>simp add: fetched_def\<close>)
qed

text \<open>A call leaves the frame behind its call instruction and starts the callee.\<close>

lemma vec_get_set: "vec_get xs i = Some x \<Longrightarrow> x \<in> set xs"
  by (auto simp: vec_get_def in_set_conv_nth split: if_splits)

lemma push_frame_ok:
  assumes wt: "wt_store (rt_store rt)" and g: "Internal g \<in> set (funcs (rt_store rt))"
    and len: "length (rt_stack rt) = sp + length (params (func_type g))"
    and rest: "frames_ok (funcs (rt_store rt)) n (sp + length (results (func_type g))) (rev (rt_call_stack rt))"
  shows "turn_ok n (rt_store rt) (push_frame rt g)"
proof -
  let ?fs = "funcs (rt_store rt)" and ?r = "length (results (func_type g))"
  define new where "new = \<lparr>fr_pc = -1, fr_sp = sp, fr_insts = func_body (func_code g), fr_arity = ?r,
    fr_labels = [], fr_locals = drop sp (rt_stack rt) @ map (\<lambda>_. 0) (func_locals (func_code g))\<rparr>"
  have "wt_code ?fs (length (params (func_type g)) + length (func_locals (func_code g))) ?r (func_body (func_code g))"
    using wt g by (auto simp: wt_store_def)
  then have new: "frame_ok ?fs new" "ready ?fs new 0 0"
    using g len by (auto simp: frame_ok_def ready_def new_def)
  have "push_frame rt g = Inr (rt\<lparr>rt_stack := take sp (rt_stack rt), rt_call_stack := rt_call_stack rt @ [new]\<rparr>)"
    using len by (simp add: push_frame_def Let_def new_def)
  moreover have "fr_sp new = sp" "fr_pc new = -1" "fr_arity new = ?r" by (simp_all add: new_def)
  ultimately show ?thesis using new wt len rest by (simp add: turn_ok_def wt_runtime_def)
qed

lemma call_ok:
  assumes f: "fetched n rt below f p h" and g: "Internal g \<in> set (funcs (rt_store rt))"
    and t: "inst_type (funcs (rt_store rt)) (length (fr_locals f)) (fr_insts f ! p) =
      Some (length (params (func_type g)), length (results (func_type g)))"
  shows "turn_ok n (rt_store rt) (push_frame rt g)"
proof (rule push_frame_ok [OF _ g])
  let ?a = "length (params (func_type g))" and ?r = "length (results (func_type g))"
  have h: "?a \<le> h" "ready (funcs (rt_store rt)) f (Suc p) (h - ?a + ?r)"
    by (rule fetched_simple [OF f], use t in simp, use t in simp)+
  show "wt_store (rt_store rt)" using f by (simp add: fetched_def)
  show "length (rt_stack rt) = fr_sp f + (h - ?a) + ?a" using f h(1) by (simp add: fetched_def)
  have "nat (int p + 1) = Suc p" "fr_sp f + (h - ?a) + ?r - fr_sp f = h - ?a + ?r" by simp_all
  then show "frames_ok (funcs (rt_store rt)) n (fr_sp f + (h - ?a) + ?r) (rev (rt_call_stack rt))"
    using f h(2) by (simp add: fetched_def)
qed

text \<open>Leaving a frame by \<open>Return\<close> or by its last \<open>End\<close>.\<close>

lemma unwind_ok:
  assumes "length st = sp + h" "ar \<le> h" "ar \<le> 1"
  shows "\<exists>st'. stack_unwind st sp ar = Inr st' \<and> length st' = sp + ar"
proof (cases "ar = 0")
  case True
  with assms show ?thesis by (simp add: stack_unwind_def vec_drain_from_def)
next
  case False
  then have ar: "ar = 1" "Suc sp \<le> length st" using assms by simp_all
  obtain st1 v where "st = st1 @ [v]" "sp \<le> length st1" by (rule stack_top [OF ar(2)])
  with ar(1) show ?thesis by (simp add: stack_unwind_def vec_drain_from_def)
qed

lemma leave_ok:
  assumes f: "fetched n rt below f p h" and h: "fr_arity f \<le> h"
  shows "turn_ok n (rt_store rt) (bind_out (stack_unwind (rt_stack rt) (fr_sp f) (fr_arity f)) (\<lambda>st.
    Inr (rt\<lparr>rt_stack := st, rt_call_stack := below\<rparr>)))"
proof -
  have "length (rt_stack rt) = fr_sp f + h" "fr_arity f \<le> 1"
    using f by (simp_all add: fetched_def frame_ok_def wt_code_def)
  from unwind_ok [OF this(1) h this(2)] show ?thesis
    using f by (auto simp: turn_ok_def wt_runtime_def fetched_def)
qed

text \<open>Going to a place of the frame's code with an empty operand stack.\<close>

lemma jump_ok:
  assumes f: "fetched n rt below f p h" and st: "length st = fr_sp f"
    and pc: "height_at (funcs (rt_store rt)) (length (fr_locals f)) (fr_arity f) (fr_insts f) (Suc q) = Some (Some 0, d)"
    and ls: "d \<le> length ls" "\<forall>i < length ls. label_ok (funcs (rt_store rt)) f i (ls ! i)"
  shows "turn_ok n (rt_store rt) (Inr (rt\<lparr>rt_stack := st, rt_call_stack := below @ [f\<lparr>fr_pc := int q, fr_labels := ls\<rparr>]\<rparr>))"
proof -
  let ?f = "f\<lparr>fr_pc := int q, fr_labels := ls\<rparr>"
  have "frame_ok (funcs (rt_store rt)) ?f" using f ls(2) by (simp add: fetched_def frame_ok_def label_ok_def)
  moreover have "ready (funcs (rt_store rt)) ?f (nat (fr_pc ?f + 1)) 0"
  proof -
    have "nat (int q + 1) = Suc q" by simp
    with pc ls(1) show ?thesis by (simp add: ready_def)
  qed
  ultimately show ?thesis using f st by (simp add: turn_ok_def wt_runtime_def fetched_def)
qed

lemma if_ok:
  assumes f: "fetched n rt below f p h" and i: "fr_insts f ! p = If_block b"
  shows "turn_ok n (rt_store rt) (run_inst rt below f (If_block b))"
proof -
  let ?at = "height_at (funcs (rt_store rt)) (length (fr_locals f)) (fr_arity f) (fr_insts f)"
  obtain d s where d: "d \<le> length (fr_labels f)" "?at p = Some (Some h, d)" "?at (Suc p) = Some s"
    "after_inst (funcs (rt_store rt)) (length (fr_locals f)) (fr_arity f) (Some h, d) (fr_insts f ! p) = Some s"
    by (rule fetched_next [OF f])
  then have h: "h = 1" "?at (Suc p) = Some (Some 0, Suc d)" by (auto simp: i split: if_splits)
  have wt: "wt_code (funcs (rt_store rt)) (length (fr_locals f)) (fr_arity f) (fr_insts f)" and pc: "fr_pc f = int p"
    and len: "Suc (fr_sp f) \<le> length (rt_stack rt)" using f h(1) by (simp_all add: fetched_def frame_ok_def)
  obtain e where e: "get_end_addr (fr_insts f) p = Inr e" "?at (Suc e) = Some (Some 0, d)"
    using get_end_addr_height [OF wt d(2) i] by blast
  obtain st c where st: "rt_stack rt = st @ [c]" by (rule stack_top [OF len])
  define l where "l = \<lparr>lb_kind = If_label, lb_pc = e, lb_sp = length st, lb_arity = result_count (block_type b)\<rparr>"
  define q where "q = (if c = 0 then e else p)"
  have sp: "length st = fr_sp f" using f h(1) st by (simp add: fetched_def)
  have "result_count (block_type b) = 0" by (cases "block_type b") simp
  then have "label_ok (funcs (rt_store rt)) f (length (fr_labels f)) l"
    using d(1) e(2) sp by (auto simp: label_ok_def l_def)
  then have "\<forall>i < length (fr_labels f @ [l]). label_ok (funcs (rt_store rt)) f i ((fr_labels f @ [l]) ! i)"
    using f by (simp add: fetched_def frame_ok_def nth_append less_Suc_eq)
  moreover obtain d' where "?at (Suc q) = Some (Some 0, d')" "d' \<le> length (fr_labels f @ [l])"
    using e(2) h(2) d(1) by (cases "c = 0") (simp_all add: q_def)
  ultimately have "turn_ok n (rt_store rt)
      (Inr (rt\<lparr>rt_stack := st, rt_call_stack := below @ [f\<lparr>fr_pc := int q, fr_labels := fr_labels f @ [l]\<rparr>]\<rparr>))"
    using jump_ok [OF f sp] by blast
  then show ?thesis by (cases "c = 0") (simp_all add: st pc e(1) Let_def l_def q_def)
qed

lemma end_ok:
  assumes f: "fetched n rt below f p h" and i: "fr_insts f ! p = End"
  shows "turn_ok n (rt_store rt) (run_inst rt below f End)"
proof (cases "fr_labels f" rule: rev_cases)
  case Nil
  obtain d s where "d \<le> length (fr_labels f)"
    "after_inst (funcs (rt_store rt)) (length (fr_locals f)) (fr_arity f) (Some h, d) (fr_insts f ! p) = Some s"
    by (rule fetched_next [OF f])
  then have "fr_arity f \<le> h" by (simp add: i Nil leave_def split: if_splits)
  with leave_ok [OF f] show ?thesis by (simp add: Nil)
next
  case (snoc ls l)
  have ok: "\<forall>i < length (ls @ [l]). label_ok (funcs (rt_store rt)) f i ((ls @ [l]) ! i)"
    using f by (simp add: fetched_def frame_ok_def snoc)
  then have "label_ok (funcs (rt_store rt)) f (length ls) l" by (metis length_append_singleton lessI nth_append_length)
  then obtain d where l: "lb_arity l = 0" "lb_sp l = fr_sp f" "d \<le> length ls"
    "height_at (funcs (rt_store rt)) (length (fr_locals f)) (fr_arity f) (fr_insts f) (Suc (lb_pc l)) = Some (Some 0, d)"
    by (auto simp: label_ok_def)
  have rest: "\<forall>i < length ls. label_ok (funcs (rt_store rt)) f i (ls ! i)"
    using ok by (metis length_append_singleton less_SucI nth_append)
  obtain st where st: "stack_unwind (rt_stack rt) (lb_sp l) (lb_arity l) = Inr st" "length st = fr_sp f"
    using unwind_ok [of "rt_stack rt" "fr_sp f" h 0] f l(1,2) by (auto simp: fetched_def)
  show ?thesis using jump_ok [OF f st(2) l(4,3) rest] by (simp add: snoc st(1))
qed

lemma run_inst_ok:
  assumes f: "fetched n rt below f p h"
  shows "turn_ok n (rt_store rt) (run_inst rt below f (fr_insts f ! p))"
proof -
  obtain d s where d: "d \<le> length (fr_labels f)"
    "after_inst (funcs (rt_store rt)) (length (fr_locals f)) (fr_arity f) (Some h, d) (fr_insts f ! p) = Some s"
    by (rule fetched_next [OF f])
  show ?thesis
  proof (cases "fr_insts f ! p")
    case (If_block b)
    with if_ok [OF f] show ?thesis by simp
  next
    case End
    with end_ok [OF f] show ?thesis by simp
  next
    case Return
    then have "fr_arity f \<le> h" using d(2) by (simp add: leave_def split: if_splits)
    with leave_ok [OF f] Return show ?thesis by simp
  next
    case (Const v)
    with push_ok [OF f, of v] show ?thesis by simp
  next
    case (LocalGet idx)
    then have "unat idx < length (fr_locals f)" using d(2) by (simp split: if_splits)
    with push_ok [OF f] LocalGet show ?thesis by (simp add: vec_get_def)
  next
    case (Call idx)
    then obtain g where g: "vec_get (funcs (rt_store rt)) (unat idx) = Some (Internal g)"
      using d(2) by (auto split: option.splits FuncInst.splits)
    with call_ok [OF f vec_get_set [OF g]] Call show ?thesis by simp
  next
    case I32Lts
    with binary_ok [OF f] show ?thesis by simp
  next
    case I32Add
    with arithmetic_ok [OF f] show ?thesis by (simp add: arithmetic_def)
  next
    case I32Sub
    with arithmetic_ok [OF f] show ?thesis by (simp add: arithmetic_def)
  next
    case I32Mul
    with arithmetic_ok [OF f] show ?thesis by (simp add: arithmetic_def)
  qed
qed

text \<open>One turn of the loop.\<close>

lemma step_ok:
  assumes "wt_runtime n rt"
  shows "case step rt of Inl e \<Rightarrow> e = Arith_overflow \<and> computes (rt_store rt)
    | Inr (Stop rt1) \<Rightarrow> rt1 = rt \<and> rt_call_stack rt = [] \<and> length (rt_stack rt) = n
    | Inr (Continue rt1) \<Rightarrow> wt_runtime n rt1 \<and> rt_store rt1 = rt_store rt"
proof (cases "rt_call_stack rt" rule: rev_cases)
  case Nil
  with assms show ?thesis by (simp add: step_def wt_runtime_def)
next
  case (snoc below f0)
  define f where "f = f0\<lparr>fr_pc := fr_pc f0 + 1\<rparr>"
  define rt1 where "rt1 = rt\<lparr>rt_call_stack := below @ [f]\<rparr>"
  define p where "p = nat (fr_pc f)"
  have "fetched n rt1 below f p (length (rt_stack rt) - fr_sp f0)"
    using assms by (auto simp: wt_runtime_def fetched_def snoc rt1_def f_def p_def frame_ok_def ready_def label_ok_def)
  note run = run_inst_ok [OF this] fetched_inst(1) [OF this]
  have pc: "0 \<le> fr_pc f0 + 1" using assms by (simp add: wt_runtime_def snoc frame_ok_def)
  have "step rt = bind_out (run_inst rt1 below f (fr_insts f ! p)) (\<lambda>rt2. Inr (Continue rt2))"
    using run(2) pc by (simp add: step_def snoc Let_def f_def [symmetric] rt1_def [symmetric] p_def [symmetric] vec_get_def)
  moreover have "rt_store rt1 = rt_store rt" by (simp add: rt1_def)
  ultimately show ?thesis
    using run(1) by (cases "run_inst rt1 below f (fr_insts f ! p)") (simp_all add: turn_ok_def)
qed

lemma execute_ok:
  assumes "execute rt = Some r" "wt_runtime n rt"
  shows "case r of Inl e \<Rightarrow> e = Arith_overflow \<and> computes (rt_store rt)
    | Inr rt1 \<Rightarrow> rt_call_stack rt1 = [] \<and> length (rt_stack rt1) = n \<and> rt_store rt1 = rt_store rt"
proof -
  have "wt_runtime n rt \<longrightarrow> (case r of Inl e \<Rightarrow> e = Arith_overflow \<and> computes (rt_store rt)
    | Inr rt1 \<Rightarrow> rt_call_stack rt1 = [] \<and> length (rt_stack rt1) = n \<and> rt_store rt1 = rt_store rt)"
    (is "?P rt r")
  proof (rule execute.raw_induct [where P = ?P, OF _ assms(1)], intro impI)
    fix f :: "Runtime \<Rightarrow> Runtime outcome option" and rt y
    assume IH: "\<And>rt y. f rt = Some y \<Longrightarrow> ?P rt y" and wt: "wt_runtime n rt"
      and y: "(case step rt of Inl err \<Rightarrow> Some (Inl err) | Inr (Stop rt1) \<Rightarrow> Some (Inr rt1)
        | Inr (Continue rt1) \<Rightarrow> f rt1) = Some y"
    show "case y of Inl e \<Rightarrow> e = Arith_overflow \<and> computes (rt_store rt)
      | Inr rt1 \<Rightarrow> rt_call_stack rt1 = [] \<and> length (rt_stack rt1) = n \<and> rt_store rt1 = rt_store rt"
    proof (cases "step rt")
      case (Inl e)
      with step_ok [OF wt] y show ?thesis by auto
    next
      case (Inr t)
      show ?thesis
      proof (cases t)
        case (Stop rt1)
        with Inr step_ok [OF wt] y show ?thesis by auto
      next
        case (Continue rt1)
        with Inr step_ok [OF wt] y have "f rt1 = Some y" "wt_runtime n rt1" "rt_store rt1 = rt_store rt" by simp_all
        with IH [of rt1 y] show ?thesis by (cases y) simp_all
      qed
    qed
  qed
  then show ?thesis using assms(2) by simp
qed

section \<open>Termination\<close>

text \<open>
  The interpreter has no loop instruction, but a stale label makes it go back.  Still every
  label is used once: with \<open>N\<close> instructions, a frame that goes on at \<open>i\<close> weighs \<open>3 ^ (N - i)\<close> plus
  as much for the target of each of its labels, and every instruction other than a call makes
  the frames lighter.
\<close>

definition weight :: "Frame \<Rightarrow> nat" where
  "weight f = 3 ^ (length (fr_insts f) - nat (fr_pc f + 1)) +
     sum_list (map (\<lambda>l. 3 ^ (length (fr_insts f) - Suc (lb_pc l))) (fr_labels f))"

abbreviation total_weight :: "Runtime \<Rightarrow> nat" where
  "total_weight rt \<equiv> sum_list (map weight (rt_call_stack rt))"

definition call_free :: "Instruction list \<Rightarrow> bool" where
  "call_free is \<longleftrightarrow> (\<forall>i \<in> set is. case i of Call _ \<Rightarrow> False | _ \<Rightarrow> True)"

abbreviation calls_nothing :: "Runtime \<Rightarrow> bool" where
  "calls_nothing rt \<equiv> \<forall>f \<in> set (rt_call_stack rt). call_free (fr_insts f)"

lemma end_addr_ge: "end_addr_from is pc d = Inr e \<Longrightarrow> pc \<le> e \<and> e < pc + length is"
  by (induction "is" pc d rule: end_addr_from.induct) (auto split: if_splits)

lemma binary_frames: "binary rt g = Inr rt1 \<Longrightarrow> rt_call_stack rt1 = rt_call_stack rt"
  by (auto simp: binary_def bind_out_def split: option.splits sum.splits)

lemma if_lighter:
  fixes n p e :: nat
  assumes "p < e" "e < n"
  shows "(3 :: nat) ^ (n - Suc p) + 3 ^ (n - Suc e) < 3 ^ (n - p)" "(3 :: nat) ^ (n - Suc e) + 3 ^ (n - Suc e) < 3 ^ (n - p)"
proof -
  have "(3 :: nat) ^ (n - Suc e) \<le> 3 ^ (n - Suc p)" using assms by (intro power_increasing) simp_all
  moreover have "(3 :: nat) ^ (n - p) = 3 * 3 ^ (n - Suc p)"
    using assms by (metis Suc_diff_Suc less_trans power_Suc)
  moreover have "(0 :: nat) < 3 ^ (n - Suc p)" by simp
  ultimately show "(3 :: nat) ^ (n - Suc p) + 3 ^ (n - Suc e) < 3 ^ (n - p)" "(3 :: nat) ^ (n - Suc e) + 3 ^ (n - Suc e) < 3 ^ (n - p)"
    by linarith+
qed

lemma run_if_lighter:
  assumes "run_inst rt below f (If_block b) = Inr rt1" "fr_pc f = int p" "p < length (fr_insts f)"
  shows "\<exists>fs. rt_call_stack rt1 = below @ fs \<and> (\<forall>g \<in> set fs. fr_insts g = fr_insts f) \<and>
    sum_list (map weight fs) < weight (f\<lparr>fr_pc := int p - 1\<rparr>)"
proof -
  let ?n = "length (fr_insts f)"
  obtain c st where pop: "vec_pop (rt_stack rt) = Some (c, st)"
    using assms(1) by (auto split: option.splits)
  obtain e where e: "get_end_addr (fr_insts f) p = Inr e"
    using assms(1,2) pop by (cases "get_end_addr (fr_insts f) p") simp_all
  define l where "l = \<lparr>lb_kind = If_label, lb_pc = e, lb_sp = length st, lb_arity = result_count (block_type b)\<rparr>"
  define q where "q = (if c = 0 then e else p)"
  have rt1: "rt_call_stack rt1 = below @ [f\<lparr>fr_pc := int q, fr_labels := fr_labels f @ [l]\<rparr>]"
    using assms(1,2) by (auto simp: pop e Let_def l_def q_def)
  have "p < e" "e < ?n" using end_addr_ge [OF e [unfolded get_end_addr_def]] assms(3) by auto
  note w = if_lighter [OF this]
  have "nat (int q + 1) = Suc q" "lb_pc l = e" by (simp_all add: l_def)
  moreover have "(3 :: nat) ^ (?n - Suc q) + 3 ^ (?n - Suc e) < 3 ^ (?n - p)" using w by (simp add: q_def)
  ultimately show ?thesis
    using rt1 by (intro exI [of _ "[f\<lparr>fr_pc := int q, fr_labels := fr_labels f @ [l]\<rparr>]"]) (simp add: weight_def)
qed

lemma run_inst_lighter:
  assumes "run_inst rt below f i = Inr rt1" "rt_call_stack rt = below @ [f]" "fr_pc f = int p" "p < length (fr_insts f)"
    and "case i of Call _ \<Rightarrow> False | _ \<Rightarrow> True"
  shows "\<exists>fs. rt_call_stack rt1 = below @ fs \<and> (\<forall>g \<in> set fs. fr_insts g = fr_insts f) \<and>
    sum_list (map weight fs) < weight (f\<lparr>fr_pc := int p - 1\<rparr>)"
proof -
  let ?n = "length (fr_insts f)"
  have "(3 :: nat) ^ (?n - p) = 3 * 3 ^ (?n - Suc p)" using assms(4) by (metis Suc_diff_Suc power_Suc)
  moreover have "nat (int p + 1) = Suc p" by simp
  ultimately have lighter: "weight f < weight (f\<lparr>fr_pc := int p - 1\<rparr>)" using assms(3) by (simp add: weight_def)
  have simple: ?thesis if "rt_call_stack rt1 = rt_call_stack rt"
    using that assms(2) lighter by (intro exI [of _ "[f]"]) simp
  have left: ?thesis if "rt_call_stack rt1 = below"
    using that by (intro exI [of _ "[]"]) (simp add: weight_def)
  show ?thesis
  proof (cases i)
    case (If_block b)
    with assms(1) run_if_lighter [OF _ assms(3,4)] show ?thesis by blast
  next
    case End
    show ?thesis
    proof (cases "fr_labels f" rule: rev_cases)
      case Nil
      with End assms(1) show ?thesis by (intro left) (auto simp: bind_out_def split: sum.splits)
    next
      case (snoc ls l)
      then have "rt_call_stack rt1 = below @ [f\<lparr>fr_pc := int (lb_pc l), fr_labels := ls\<rparr>]"
        using End assms(1) by (auto simp: bind_out_def split: sum.splits)
      moreover have "nat (int (lb_pc l) + 1) = Suc (lb_pc l)" by simp
      ultimately show ?thesis
        by (intro exI [of _ "[f\<lparr>fr_pc := int (lb_pc l), fr_labels := ls\<rparr>]"]) (simp add: weight_def snoc)
    qed
  next
    case Return
    with assms(1) show ?thesis by (intro left) (auto simp: bind_out_def split: sum.splits)
  next
    case (LocalGet idx)
    with assms(1) show ?thesis by (intro simple) (auto split: option.splits)
  next
    case (Const v)
    with assms(1) have "rt1 = rt\<lparr>rt_stack := rt_stack rt @ [v]\<rparr>" by simp
    then show ?thesis by (intro simple) simp
  next
    case (Call idx)
    with assms(5) show ?thesis by simp
  next
    case I32Lts
    with assms(1) show ?thesis by (intro simple binary_frames) simp
  next
    case I32Add
    with assms(1) show ?thesis by (intro simple binary_frames) simp
  next
    case I32Sub
    with assms(1) show ?thesis by (intro simple binary_frames) simp
  next
    case I32Mul
    with assms(1) show ?thesis by (intro simple binary_frames) simp
  qed
qed

lemma step_lighter:
  assumes "step rt = Inr (Continue rt1)" "calls_nothing rt"
  shows "calls_nothing rt1 \<and> total_weight rt1 < total_weight rt"
proof (cases "rt_call_stack rt" rule: rev_cases)
  case Nil
  with assms(1) show ?thesis by (simp add: step_def)
next
  case (snoc below f0)
  define f where "f = f0\<lparr>fr_pc := fr_pc f0 + 1\<rparr>"
  define rt0 where "rt0 = rt\<lparr>rt_call_stack := below @ [f]\<rparr>"
  define p where "p = nat (fr_pc f)"
  have "(case (if 0 \<le> fr_pc f then vec_get (fr_insts f) (nat (fr_pc f)) else None) of None \<Rightarrow> Inr (Stop rt0)
      | Some inst \<Rightarrow> bind_out (run_inst rt0 below f inst) (\<lambda>rt2. Inr (Continue rt2))) = Inr (Continue rt1)"
    using assms(1) by (simp only: step_def snoc vec_pop_snoc option.case prod.case Let_def f_def rt0_def)
  then have p: "fr_pc f = int p" "p < length (fr_insts f)"
    and run: "run_inst rt0 below f (fr_insts f ! p) = Inr rt1"
    by (auto simp: p_def vec_get_def bind_out_def split: option.splits sum.splits if_splits)
  have cf: "call_free (fr_insts f0)" and ins: "fr_insts f = fr_insts f0" using assms(2) by (simp_all add: snoc f_def)
  then have "case fr_insts f ! p of Call _ \<Rightarrow> False | _ \<Rightarrow> True" 
    using nth_mem [OF p(2)] unfolding call_free_def by (metis (no_types, lifting))
  then obtain fs where fs: "rt_call_stack rt1 = below @ fs" "\<forall>g \<in> set fs. fr_insts g = fr_insts f"
      "sum_list (map weight fs) < weight (f\<lparr>fr_pc := int p - 1\<rparr>)"
    using run_inst_lighter [OF run _ p] unfolding rt0_def by force
  have "f\<lparr>fr_pc := int p - 1\<rparr> = f0" using p(1) by (simp add: f_def)
  with fs(3) have "total_weight rt1 < total_weight rt" by (simp add: snoc fs(1))
  moreover have "calls_nothing rt1" using assms(2) cf fs(2) by (auto simp: snoc fs(1) ins)
  ultimately show ?thesis by simp
qed

lemma execute_terminates: "calls_nothing rt \<Longrightarrow> execute rt \<noteq> None"
proof (induction rt rule: measure_induct_rule [of total_weight])
  case (less rt)
  show ?case
  proof (cases "step rt")
    case (Inl e)
    then show ?thesis by (subst execute.simps) simp
  next
    case (Inr t)
    show ?thesis
    proof (cases t)
      case (Stop rt1)
      with Inr show ?thesis by (subst execute.simps) simp
    next
      case (Continue rt1)
      with Inr step_lighter [of rt rt1] less.prems have "execute rt1 \<noteq> None" by (intro less.IH) simp_all
      with Inr Continue show ?thesis by (subst execute.simps) simp
    qed
  qed
qed

lemma push_frame_calls_nothing:
  assumes "push_frame rt g = Inr rt1" "calls_nothing rt" "call_free (func_body (func_code g))"
  shows "calls_nothing rt1"
  using assms by (auto simp: push_frame_def Let_def split: if_splits)

section \<open>Calling a function\<close>

lemma invoke_returns:
  assumes "call_free (func_body (func_code f))" "rt_call_stack rt = []"
  shows "invoke rt f \<noteq> None"
proof (cases "push_frame rt f")
  case (Inr rt1)
  have "calls_nothing rt1" using push_frame_calls_nothing [OF Inr] assms by simp
  then obtain r where "execute rt1 = Some r" using execute_terminates by blast
  with Inr show ?thesis by (cases r) (auto simp: invoke_def split: option.splits)
qed (simp add: invoke_def)

text \<open>The result of a checked function: nothing is left behind on the stacks.\<close>

definition result_ok :: "Runtime \<Rightarrow> InternalFuncInst \<Rightarrow> Runtime \<Rightarrow> i32 option \<Rightarrow> bool" where
  "result_ok rt f rt1 v \<longleftrightarrow> rt_store rt1 = rt_store rt \<and> rt_call_stack rt1 = [] \<and> rt_stack rt1 = [] \<and>
     (v = None \<longleftrightarrow> results (func_type f) = [])"

lemma invoke_ok:
  assumes "wt_store (rt_store rt)" "rt_call_stack rt = []" "Internal f \<in> set (funcs (rt_store rt))"
    and "length (rt_stack rt) = length (params (func_type f))" "invoke rt f = Some r"
  shows "case r of Inl e \<Rightarrow> e = Arith_overflow \<and> computes (rt_store rt) | Inr (rt1, v) \<Rightarrow> result_ok rt f rt1 v"
proof -
  let ?n = "length (results (func_type f))"
  have "turn_ok ?n (rt_store rt) (push_frame rt f)"
    using assms(1-4) by (intro push_frame_ok [where sp = 0]) simp_all
  moreover have "\<not> length (rt_stack rt) < length (params (func_type f))" using assms(4) by simp
  ultimately obtain rt1 where rt1: "push_frame rt f = Inr rt1" "wt_runtime ?n rt1" "rt_store rt1 = rt_store rt"
    by (auto simp: push_frame_def Let_def turn_ok_def)
  obtain r1 where r1: "execute rt1 = Some r1" using assms(5) rt1(1) by (cases "execute rt1") (simp_all add: invoke_def)
  have n: "?n \<le> 1" using assms(1,3) by (auto simp: wt_store_def wt_code_def)
  show ?thesis
  proof (cases r1)
    case (Inl e)
    then show ?thesis using execute_ok [OF r1 rt1(2)] assms(5) rt1 r1 by (auto simp: invoke_def)
  next
    case (Inr rt2)
    then have rt2: "rt_call_stack rt2 = []" "length (rt_stack rt2) = ?n" "rt_store rt2 = rt_store rt"
      using execute_ok [OF r1 rt1(2)] rt1(3) by simp_all
    show ?thesis
    proof (cases "?n = 0")
      case True
      with rt2 assms(5) rt1(1) r1 Inr show ?thesis by (auto simp: invoke_def result_ok_def)
    next
      case False
      with n rt2(2) have "length (rt_stack rt2) = 1" by linarith
      then obtain v where "rt_stack rt2 = [v]" by (auto simp: length_Suc_conv)
      with False rt2 assms(5) rt1(1) r1 Inr show ?thesis by (auto simp: invoke_def result_ok_def vec_pop_def)
    qed
  qed
qed

text \<open>
  C17: Checked programs do not go wrong.  When \<open>wt_store\<close> accepts the functions of a store and
  \<open>call\<close> gets an existing function and as many arguments as it has parameters, then the
  interpreter never finds an operand, a local variable, a function, a return value or the end of
  a block missing.  It fails only by the overflow of an arithmetic instruction, and when it
  returns, both stacks are empty again and there is a result exactly if the function's type says so.
  The functions may be recursive, in which case the call may not return.
\<close>

theorem call_type_safe:
  assumes "wt_store (rt_store rt)" "rt_call_stack rt = []" "vec_get (funcs (rt_store rt)) idx = Some (Internal f)"
    and "length args = length (params (func_type f))"
  shows "case call rt idx args of
      None \<Rightarrow> \<exists>g. Internal g \<in> set (funcs (rt_store rt)) \<and> \<not> call_free (func_body (func_code g))
    | Some (Inl e) \<Rightarrow> e = Arith_overflow \<and> computes (rt_store rt)
    | Some (Inr (rt1, v)) \<Rightarrow> rt_store rt1 = rt_store rt \<and> rt_call_stack rt1 = [] \<and> rt_stack rt1 = [] \<and>
        (v = None \<longleftrightarrow> results (func_type f) = [])"
proof -
  define rt0 where "rt0 = rt\<lparr>rt_stack := args\<rparr>"
  have call: "call rt idx args = invoke rt0 f" using assms(3) by (simp add: call_def Let_def rt0_def)
  have f: "Internal f \<in> set (funcs (rt_store rt))" by (rule vec_get_set [OF assms(3)])
  show ?thesis
  proof (cases "invoke rt0 f")
    case None
    then show ?thesis using invoke_returns [of f rt0] f assms(2) call by (auto simp: rt0_def)
  next
    case (Some r)
    then show ?thesis
      using invoke_ok [of rt0 f r] assms f call by (cases r) (auto simp: rt0_def result_ok_def)
  qed
qed

theorem call_type_safe_witness:
  "wt_store wasm_space \<and> (case call (runtime_new wasm_space) 0 [3] of
      None \<Rightarrow> False
    | Some (Inl e) \<Rightarrow> e = Arith_overflow
    | Some (Inr (rt1, v)) \<Rightarrow> rt_call_stack rt1 = [] \<and> rt_stack rt1 = [] \<and> v \<noteq> None)"
proof -
  have wt: "wt_store wasm_space" by code_simp
  have "\<not> (\<exists>g. Internal g \<in> set (funcs wasm_space) \<and> \<not> call_free (func_body (func_code g)))"
    by (simp add: wasm_space_def diamond_func_def call_free_def)
  then show ?thesis
    using wt call_type_safe [of "runtime_new wasm_space" 0 "diamond_func
       [LocalGet 0, Const diamond_half, I32Lts, If_block \<lparr>block_type = Void\<rparr>,
        Const diamond_half, LocalGet 0, I32Sub, Return, End,
        LocalGet 0, Const diamond_half, I32Sub, Return]" "[3]"]
    by (auto simp: runtime_new_def vec_get_def wasm_space_def diamond_func_def split: option.splits sum.splits prod.splits)
qed

text \<open>
  C18: Programs without calls terminate.  Whatever the functions of the store are, checked or not,
  with balanced blocks or not: when none of them contains a call instruction, then \<open>call\<close> returns
  or panics.  This includes the code that the interpreter runs twice after a skipped \<open>If\<close>.
\<close>

theorem call_terminates:
  assumes "\<forall>g. Internal g \<in> set (funcs (rt_store rt)) \<longrightarrow> call_free (func_body (func_code g))" "rt_call_stack rt = []"
  shows "\<exists>r. call rt idx args = Some r"
proof (cases "vec_get (funcs (rt_store rt)) idx")
  case None
  then show ?thesis by (simp add: call_def Let_def)
next
  case (Some fi)
  then obtain f where f: "vec_get (funcs (rt_store rt)) idx = Some (Internal f)" by (cases fi) simp
  have "invoke (rt\<lparr>rt_stack := args\<rparr>) f \<noteq> None"
    using assms vec_get_set [OF f] by (intro invoke_returns) simp_all
  with f show ?thesis by (simp add: call_def Let_def)
qed

theorem call_terminates_witness:
  "\<exists>r. call (runtime_new wasm_star) 0 [-5] = Some r"
  using call_terminates [of "runtime_new wasm_star" 0 "[-5]"]
  by (simp add: runtime_new_def wasm_star_def diamond_func_def call_free_def)

end
