(* ===== verification/Multitasking.thy ===== *)
theory Multitasking
  imports Task_Spawn
begin

text \<open>
  The scheduler and the context switch together.  \<open>Task\<close> describes what \<open>switch\<close> and \<open>spawn\<close>
  (\<open>kernel/src/task.rs\<close>) do to the kernel's data, \<open>Context_Switch\<close> what \<open>switch_inner\<close> does to the
  machine.  Here both run side by side: \<open>switch\<close> picks two tasks and \<open>switch_inner\<close> saves the
  registers in the context of the one and loads them from the context of the other.  The lemmas
  show that in every run each task goes on exactly where it was when it lost the CPU.

  The address of a task's context (\<open>ctx\<close>), the cells of the stack on which a task runs
  (\<open>area\<close>) and the address of the label of \<open>switch_inner\<close> are parameters.  Between switches a task may
  change the machine in any way that leaves the contexts and stacks of the others alone.
\<close>

section \<open>Where a task goes on\<close>

record resume =
  re_rip :: u64
  re_rsp :: u64
  re_rflags :: u64
  re_saved :: "u64 list"

definition saved_registers :: "mach \<Rightarrow> u64 list" where
  "saved_registers m = map (regs m) [RBX, RBP, R12, R13, R14, R15]"

definition context_registers :: "TaskContext \<Rightarrow> u64 list" where
  "context_registers c = [ctx_rbx c, ctx_rbp c, ctx_r12 c, ctx_r13 c, ctx_r14 c, ctx_r15 c]"

text \<open>The state \<open>m\<close> at the entry of \<open>switch_inner\<close>: its caller goes on at the return address.\<close>

definition resume_point :: "mach \<Rightarrow> resume" where
  "resume_point m = \<lparr>re_rip = mem m (regs m RSP), re_rsp = regs m RSP + 8, re_rflags = rflags m,
     re_saved = saved_registers m\<rparr>"

text \<open>A new task starts at its function.\<close>

definition start_point :: "u64 \<Rightarrow> TaskContext \<Rightarrow> resume" where
  "start_point func c = \<lparr>re_rip = func, re_rsp = ctx_rsp c + 8, re_rflags = ctx_rflags c,
     re_saved = context_registers c\<rparr>"

definition goes_on :: "resume \<Rightarrow> mach \<Rightarrow> bool" where
  "goes_on p m \<longleftrightarrow> rip m = re_rip p \<and> regs m RSP = re_rsp p \<and> rflags m = re_rflags p \<and> saved_registers m = re_saved p"

text \<open>Where the context at \<open>a\<close> leads: through the label, if the task was switched out by \<open>switch_inner\<close>.\<close>

definition wake :: "u64 \<Rightarrow> (u64 \<Rightarrow> u64) \<Rightarrow> u64 \<Rightarrow> resume" where
  "wake label M a =
     (let c = context_at M a; r = M (ctx_rsp c) in
      if r = label
      then \<lparr>re_rip = M (ctx_rsp c + 8), re_rsp = ctx_rsp c + 16, re_rflags = ctx_rflags c, re_saved = context_registers c\<rparr>
      else start_point r c)"

definition wake_cells :: "(u64 \<Rightarrow> u64) \<Rightarrow> u64 \<Rightarrow> u64 set" where
  "wake_cells M a = (let sp = ctx_rsp (context_at M a) in {sp - 8, sp, sp + 8})"

lemma wake_cong:
  assumes "\<And>x. x \<in> context_cells a \<union> wake_cells M a \<Longrightarrow> M' x = M x"
  shows "wake label M' a = wake label M a" "wake_cells M' a = wake_cells M a"
proof -
  have c: "context_at M' a = context_at M a" using assms by (intro context_at_cong) simp
  then show "wake_cells M' a = wake_cells M a" by (simp add: wake_cells_def)
  show "wake label M' a = wake label M a" using assms unfolding wake_def c by (simp add: wake_cells_def Let_def)
qed

lemma save_wakes:
  assumes "context_cells (regs m RDI) \<inter> stack_cells (regs m RSP) = {}"
  shows "wake label (mem (run (save_code label) m)) (regs m RDI) = resume_point m"
    "wake_cells (mem (run (save_code label) m)) (regs m RDI) = stack_cells (regs m RSP)"
proof -
  note s = save_effect [OF assms, where label = label]
  have "mem (run (save_code label) m) (regs m RSP) = mem m (regs m RSP)"
    using assms by (intro s(3)) (auto simp: stack_cells_def)
  then show "wake label (mem (run (save_code label) m)) (regs m RDI) = resume_point m"
    by (simp add: wake_def Let_def s(1,2) resume_point_def context_registers_def saved_registers_def)
  show "wake_cells (mem (run (save_code label) m)) (regs m RDI) = stack_cells (regs m RSP)"
    by (auto simp: wake_cells_def s(1) stack_cells_def)
qed

lemma switch_inner_wakes:
  fixes m :: mach and label :: u64
  defines "M \<equiv> mem (run (save_code label) m)"
  assumes "regs (run (save_code label) m) RSI = a"
  shows "goes_on (wake label M a) (switch_inner label m)"
    "mem (switch_inner label m) = M(ctx_rsp (context_at M a) - 8 := ctx_rflags (context_at M a))"
proof -
  define m2 where "m2 = run (save_code label) m"
  have a: "regs m2 RSI = a" and M: "M = mem m2" using assms by (simp_all add: m2_def)
  let ?c = "context_at M a"
  note r = restore_effect [of m2, unfolded a, folded M]
  have sw: "switch_inner label m =
      (if M (ctx_rsp ?c) = label then exec Ret (run restore_code m2) else run restore_code m2)"
    using r(9) by (simp add: switch_inner_def run_append m2_def [symmetric] Let_def)
  show "mem (switch_inner label m) = M(ctx_rsp ?c - 8 := ctx_rflags ?c)"
    by (simp add: sw machine_simps r(10))
  show "goes_on (wake label M a) (switch_inner label m)"
    by (simp add: sw machine_simps r goes_on_def wake_def start_point_def saved_registers_def context_registers_def)
qed

section \<open>Runs\<close>

record multi =
  mt_kernel :: kernel
  mt_mach :: mach
  mt_saved :: "tid \<Rightarrow> resume option"

definition task_cells :: "(tid \<Rightarrow> u64) \<Rightarrow> (tid \<Rightarrow> u64 set) \<Rightarrow> tid \<Rightarrow> u64 set" where
  "task_cells ctx area t = context_cells (ctx t) \<union> area t"

text \<open>The first \<open>n\<close> tasks have disjoint contexts and stacks.\<close>

definition separate :: "(tid \<Rightarrow> u64) \<Rightarrow> (tid \<Rightarrow> u64 set) \<Rightarrow> nat \<Rightarrow> bool" where
  "separate ctx area n \<longleftrightarrow> (\<forall>t < n. context_cells (ctx t) \<inter> area t = {} \<and>
     (\<forall>u < n. t \<noteq> u \<longrightarrow> task_cells ctx area t \<inter> task_cells ctx area u = {}))"

definition others_kept :: "(tid \<Rightarrow> u64) \<Rightarrow> (tid \<Rightarrow> u64 set) \<Rightarrow> kernel \<Rightarrow> mach \<Rightarrow> mach \<Rightarrow> bool" where
  "others_kept ctx area k m m' \<longleftrightarrow>
     (\<forall>t \<in> set (task_list k) - {current_of k}. \<forall>x \<in> task_cells ctx area t. mem m' x = mem m x)"

text \<open>The registers and the stack with which the current task calls \<open>switch_inner\<close>.\<close>

definition calls_switch_inner :: "(tid \<Rightarrow> u64) \<Rightarrow> (tid \<Rightarrow> u64 set) \<Rightarrow> tid \<Rightarrow> tid \<Rightarrow> mach \<Rightarrow> bool" where
  "calls_switch_inner ctx area prev next m \<longleftrightarrow>
     regs m RDI = ctx prev \<and> regs m RSI = ctx next \<and> stack_cells (regs m RSP) \<subseteq> area prev"

text \<open>The new task's context and stack are in memory as \<open>spawn\<close> left them.\<close>

definition new_task_stored :: "(tid \<Rightarrow> u64) \<Rightarrow> (tid \<Rightarrow> u64 set) \<Rightarrow> tid \<Rightarrow> kernel \<Rightarrow> mach \<Rightarrow> bool" where
  "new_task_stored ctx area t k m \<longleftrightarrow>
     context_at (mem m) (ctx t) = task_context (the_task k t) \<and>
     mem m (ctx_rsp (task_context (the_task k t))) = k_words k (ctx_rsp (task_context (the_task k t))) \<and>
     wake_cells (mem m) (ctx t) \<subseteq> area t"

inductive multi_step :: "(tid \<Rightarrow> u64) \<Rightarrow> (tid \<Rightarrow> u64 set) \<Rightarrow> u64 \<Rightarrow> nat \<Rightarrow> multi \<Rightarrow> multi \<Rightarrow> bool"
  for ctx area label n where
  multi_compute: "others_kept ctx area (mt_kernel s) (mt_mach s) m' \<Longrightarrow>
    multi_step ctx area label n s (s\<lparr>mt_mach := m'\<rparr>)"
| multi_tick: "multi_step ctx area label n s (s\<lparr>mt_kernel := tick (mt_kernel s)\<rparr>)"
| multi_idle: "switch (mt_kernel s) = Some (Inr (k', None)) \<Longrightarrow> multi_step ctx area label n s (s\<lparr>mt_kernel := k'\<rparr>)"
| multi_switch: "switch (mt_kernel s) = Some (Inr (k', Some (prev, next))) \<Longrightarrow>
    calls_switch_inner ctx area prev next (mt_mach s) \<Longrightarrow>
    multi_step ctx area label n s
      \<lparr>mt_kernel = k', mt_mach = switch_inner label (mt_mach s), mt_saved = (mt_saved s)(prev \<mapsto> resume_point (mt_mach s))\<rparr>"
| multi_spawn: "spawn func (mt_kernel s) = Inr k' \<Longrightarrow> func \<noteq> label \<Longrightarrow> k_next_tid (mt_kernel s) < n \<Longrightarrow>
    others_kept ctx area (mt_kernel s) (mt_mach s) m' \<Longrightarrow>
    new_task_stored ctx area (k_next_tid (mt_kernel s)) k' m' \<Longrightarrow>
    multi_step ctx area label n s
      \<lparr>mt_kernel = k', mt_mach = m', mt_saved = (mt_saved s)(k_next_tid (mt_kernel s) \<mapsto>
         start_point func (task_context (the_task k' (k_next_tid (mt_kernel s)))))\<rparr>"

inductive_cases multi_stepE: "multi_step ctx area label n s s'"

inductive multi_run :: "usize \<Rightarrow> kmem \<Rightarrow> (tid \<Rightarrow> u64) \<Rightarrow> (tid \<Rightarrow> u64 set) \<Rightarrow> u64 \<Rightarrow> nat \<Rightarrow> multi \<Rightarrow> bool"
  for root pm ctx area label n where
  multi_init: "init root (kernel_boot pm b) = Inr k \<Longrightarrow> 0 < n \<Longrightarrow>
    multi_run root pm ctx area label n \<lparr>mt_kernel = k, mt_mach = m, mt_saved = (\<lambda>_. None)\<rparr>"
| multi_more: "multi_run root pm ctx area label n s \<Longrightarrow> multi_step ctx area label n s s' \<Longrightarrow>
    multi_run root pm ctx area label n s'"

section \<open>The invariant\<close>

definition sleeper_ok :: "(tid \<Rightarrow> u64) \<Rightarrow> (tid \<Rightarrow> u64 set) \<Rightarrow> u64 \<Rightarrow> multi \<Rightarrow> tid \<Rightarrow> bool" where
  "sleeper_ok ctx area label s t \<longleftrightarrow> mt_saved s t = Some (wake label (mem (mt_mach s)) (ctx t)) \<and>
     wake_cells (mem (mt_mach s)) (ctx t) \<subseteq> area t"

definition multi_inv :: "(tid \<Rightarrow> u64) \<Rightarrow> (tid \<Rightarrow> u64 set) \<Rightarrow> u64 \<Rightarrow> nat \<Rightarrow> multi \<Rightarrow> bool" where
  "multi_inv ctx area label n s \<longleftrightarrow> kernel_inv (mt_kernel s) \<and> k_next_tid (mt_kernel s) \<le> n \<and>
     (\<forall>t \<in> set (task_list (mt_kernel s)) - {current_of (mt_kernel s)}. sleeper_ok ctx area label s t)"

lemma sleeper_kept:
  assumes "sleeper_ok ctx area label s t" "\<And>x. x \<in> task_cells ctx area t \<Longrightarrow> M x = mem (mt_mach s) x"
  shows "wake label M (ctx t) = wake label (mem (mt_mach s)) (ctx t)"
    "wake_cells M (ctx t) = wake_cells (mem (mt_mach s)) (ctx t)"
proof -
  have "M x = mem (mt_mach s) x" if "x \<in> context_cells (ctx t) \<union> wake_cells (mem (mt_mach s)) (ctx t)" for x
    using assms that by (auto simp: sleeper_ok_def task_cells_def)
  from wake_cong [of "ctx t" "mem (mt_mach s)" M, OF this] show "wake label M (ctx t) = wake label (mem (mt_mach s)) (ctx t)"
    "wake_cells M (ctx t) = wake_cells (mem (mt_mach s)) (ctx t)" by blast+
qed

lemma sleeper_next:
  assumes "sleeper_ok ctx area label s t" "\<And>x. x \<in> task_cells ctx area t \<Longrightarrow> mem (mt_mach s') x = mem (mt_mach s) x"
    "mt_saved s' t = mt_saved s t"
  shows "sleeper_ok ctx area label s' t"
  using assms sleeper_kept [OF assms(1,2)] by (simp add: sleeper_ok_def)

lemma separate_tasks:
  assumes "multi_inv ctx area label n s" "separate ctx area n"
    "t \<in> set (task_list (mt_kernel s))" "u \<in> set (task_list (mt_kernel s))"
  shows "context_cells (ctx t) \<inter> area t = {}" "t \<noteq> u \<Longrightarrow> task_cells ctx area t \<inter> task_cells ctx area u = {}"
proof -
  have "t < n" "u < n"
    using assms(1,3,4) sched_invD(4) [of "mt_kernel s"] by (auto simp: multi_inv_def kernel_inv_def dest: less_le_trans)
  then show "context_cells (ctx t) \<inter> area t = {}" "t \<noteq> u \<Longrightarrow> task_cells ctx area t \<inter> task_cells ctx area u = {}"
    using assms(2) by (auto simp: separate_def)
qed

text \<open>What a switch does: the tasks it picks, and the memory before the registers of the next task are loaded.\<close>

lemma switch_picks:
  assumes "kernel_inv k" "switch k = Some (Inr (k', Some (prev, next)))"
  shows "prev = current_of k" "next \<in> set (task_list k)" "next \<noteq> current_of k" "kernel_inv k'"
    "task_list k' = task_list k" "current_of k' = next" "k_next_tid k' = k_next_tid k"
proof -
  have si: "sched_inv k" using assms(1) by (simp add: kernel_inv_def)
  have "next_task k = Some next \<and> next \<noteq> current_of k \<and> prev = current_of k \<and> k' = switched k prev next"
    using assms(2) switch_cases [OF si] by (auto split: option.splits if_splits)
  then show "prev = current_of k" "next \<in> set (task_list k)" "next \<noteq> current_of k"
    "task_list k' = task_list k" "current_of k' = next" "k_next_tid k' = k_next_tid k"
    using next_task_mem [of k "next"] by auto
  show "kernel_inv k'" by (rule switch_inv [OF assms])
qed

lemma save_keeps:
  assumes inv: "multi_inv ctx area label n s" "separate ctx area n"
    and call: "calls_switch_inner ctx area (current_of (mt_kernel s)) next (mt_mach s)"
  defines "M \<equiv> mem (run (save_code label) (mt_mach s))"
  shows "wake label M (ctx (current_of (mt_kernel s))) = resume_point (mt_mach s)"
    "wake_cells M (ctx (current_of (mt_kernel s))) \<subseteq> area (current_of (mt_kernel s))"
    "\<And>t x. t \<in> set (task_list (mt_kernel s)) - {current_of (mt_kernel s)} \<Longrightarrow> x \<in> task_cells ctx area t \<Longrightarrow>
       M x = mem (mt_mach s) x"
    "regs (run (save_code label) (mt_mach s)) RSI = ctx next"
proof -
  let ?c = "current_of (mt_kernel s)" and ?m = "mt_mach s"
  have c: "?c \<in> set (task_list (mt_kernel s))"
    using inv(1) sched_invD(7) by (simp add: multi_inv_def kernel_inv_def)
  have r: "regs ?m RDI = ctx ?c" "regs ?m RSI = ctx next" "stack_cells (regs ?m RSP) \<subseteq> area ?c"
    using call by (simp_all add: calls_switch_inner_def)
  have d: "context_cells (regs ?m RDI) \<inter> stack_cells (regs ?m RSP) = {}"
    using separate_tasks(1) [OF inv c c] r by auto
  note s = save_effect [OF d, where label = label, folded M_def]
  show "wake label M (ctx ?c) = resume_point ?m" "wake_cells M (ctx ?c) \<subseteq> area ?c"
    using save_wakes [OF d, of label] r by (simp_all add: M_def)
  show "regs (run (save_code label) ?m) RSI = ctx next" using s(4) r(2) by simp
  show "M x = mem ?m x" if "t \<in> set (task_list (mt_kernel s)) - {?c}" "x \<in> task_cells ctx area t" for t x
  proof (rule s(3))
    have "x \<notin> context_cells (ctx ?c) \<union> area ?c"
      using separate_tasks(2) [OF inv _ c, of t] that by (auto simp: task_cells_def)
    then show "x \<notin> context_cells (regs ?m RDI)" "x \<noteq> regs ?m RSP - 8" "x \<noteq> regs ?m RSP - 16"
      using r by (auto simp: stack_cells_def)
  qed
qed

lemma switch_resumes:
  assumes inv: "multi_inv ctx area label n s" "separate ctx area n"
    and sw: "switch (mt_kernel s) = Some (Inr (k', Some (prev, next)))"
    and call: "calls_switch_inner ctx area prev next (mt_mach s)"
  shows "\<exists>p. mt_saved s next = Some p \<and> goes_on p (switch_inner label (mt_mach s))"
    "multi_inv ctx area label n \<lparr>mt_kernel = k', mt_mach = switch_inner label (mt_mach s),
       mt_saved = (mt_saved s)(prev \<mapsto> resume_point (mt_mach s))\<rparr>" (is "multi_inv _ _ _ _ ?s'")
proof -
  let ?k = "mt_kernel s" and ?m = "mt_mach s" and ?M = "mem (run (save_code label) (mt_mach s))"
  have ki: "kernel_inv ?k" using inv(1) by (simp add: multi_inv_def)
  note p = switch_picks [OF ki sw]
  note k = save_keeps [OF inv call [unfolded p(1)]]
  have c: "current_of ?k \<in> set (task_list ?k)" using ki sched_invD(7) by (simp add: kernel_inv_def)
  have sl: "sleeper_ok ctx area label s t" if "t \<in> set (task_list ?k) - {current_of ?k}" for t
    using inv(1) that by (simp add: multi_inv_def)
  have n: "next \<in> set (task_list ?k) - {current_of ?k}" using p(2,3) by simp
  note nx = sleeper_kept [OF sl [OF n] k(3) [OF n]]
  note w = switch_inner_wakes [OF k(4)]
  show "\<exists>p. mt_saved s next = Some p \<and> goes_on p (switch_inner label ?m)"
    using w(1) nx(1) sl [OF n] by (simp add: sleeper_ok_def)
  have "wake_cells ?M (ctx next) \<subseteq> area next" using nx(2) sl [OF n] by (simp add: sleeper_ok_def)
  then have push: "ctx_rsp (context_at ?M (ctx next)) - 8 \<in> area next" by (simp add: wake_cells_def Let_def)
  have mem: "mem (switch_inner label ?m) x = ?M x" if "t \<in> set (task_list ?k) - {next}" "x \<in> task_cells ctx area t" for t x
    using separate_tasks(2) [OF inv _ p(2), of t] that push by (auto simp: w(2) task_cells_def)
  have "sleeper_ok ctx area label ?s' t" if t: "t \<in> set (task_list ?k) - {next}" for t
  proof (cases "t = current_of ?k")
    case True
    have "mem (switch_inner label ?m) x = ?M x" if "x \<in> context_cells (ctx t) \<union> wake_cells ?M (ctx t)" for x
      using mem [OF t] that k(2) True by (auto simp: task_cells_def)
    from wake_cong [of "ctx t" ?M "mem (switch_inner label ?m)", OF this] show ?thesis using k(1,2) True p(1) by (simp add: sleeper_ok_def)
  next
    case False
    then have "t \<in> set (task_list ?k) - {current_of ?k}" using t by simp
    then show ?thesis using mem [OF t] k(3) False p(1) by (intro sleeper_next [OF sl]) auto
  qed
  then show "multi_inv ctx area label n ?s'" using p(4-7) inv(1) by (simp add: multi_inv_def)
qed

lemma init_next_tid: "init root (kernel_boot m b) = Inr k \<Longrightarrow> k_next_tid k = 1"
  by (simp add: init_def task_new_def arc_new_def tasks_push_def set_current_def lock_defs kernel_boot_def spin_new_def Let_def)
    auto

lemma spawn_multi:
  assumes inv: "multi_inv ctx area label n s"
    and sp: "spawn func (mt_kernel s) = Inr k'" "func \<noteq> label" "k_next_tid (mt_kernel s) < n"
    and m': "others_kept ctx area (mt_kernel s) (mt_mach s) m'" "new_task_stored ctx area (k_next_tid (mt_kernel s)) k' m'"
  shows "multi_inv ctx area label n \<lparr>mt_kernel = k', mt_mach = m', mt_saved = (mt_saved s)(k_next_tid (mt_kernel s) \<mapsto>
    start_point func (task_context (the_task k' (k_next_tid (mt_kernel s)))))\<rparr>" (is "multi_inv _ _ _ _ ?s'")
proof -
  let ?k = "mt_kernel s" and ?t = "k_next_tid (mt_kernel s)"
  have ki: "kernel_inv ?k" using inv by (simp add: multi_inv_def)
  have r: "room (k_mem ?k) (5 + 0)" using spawn_full [OF ki, of func] sp(1) by auto
  obtain m root kstack where run: "spawn func ?k =
      Inr (spawned ?k m ((zero_stack kstack (k_words ?k))(kstack + 0x1FFF8 := func)) (spawned_task ?k kstack root))"
    by (rule spawn_ok [OF ki r, of func]) (rule that)
  define w where "w = (zero_stack kstack (k_words ?k))(kstack + 0x1FFF8 := func)"
  have "Inr k' = (Inr (spawned ?k m w (spawned_task ?k kstack root)) :: kernel outcome)"
    unfolding w_def by (rule trans [OF sp(1) [symmetric] run])
  then have k': "k' = spawned ?k m w (spawned_task ?k kstack root)" by simp
  have ki': "kernel_inv k'" by (rule spawn_inv [OF ki sp(1)])
  have c: "current_of ?k \<in> set (task_list ?k)" and fresh: "\<And>t. t \<in> set (task_list ?k) \<Longrightarrow> t \<noteq> ?t"
    using ki sched_invD(4,7) by (auto simp: kernel_inv_def)
  have old: "sleeper_ok ctx area label ?s' t" if t: "t \<in> set (task_list ?k) - {current_of ?k}" for t
  proof (rule sleeper_next [of ctx area label s])
    show "sleeper_ok ctx area label s t" using inv t by (simp add: multi_inv_def)
    show "mem (mt_mach ?s') x = mem (mt_mach s) x" if "x \<in> task_cells ctx area t" for x
      using m'(1) t that by (simp add: others_kept_def)
    show "mt_saved ?s' t = mt_saved s t" using fresh [of t] t by simp
  qed
  have task: "task_context (the_task k' ?t) = context_default\<lparr>ctx_rsp := kstack + 0x1FFF8, ctx_rflags := 0x202\<rparr>"
    "k_words k' (kstack + 0x1FFF8) = func" by (simp_all add: k' spawned_task_def w_def)
  have new: "sleeper_ok ctx area label ?s' ?t"
    using m'(2) sp(2) by (simp add: sleeper_ok_def new_task_stored_def wake_def Let_def task)
  have f: "task_list k' = task_list ?k @ [?t]" "current_of k' = current_of ?k" "k_next_tid k' = ?t + 1"
    by (simp_all add: k')
  have "sleeper_ok ctx area label ?s' t" if "t \<in> set (task_list k') - {current_of k'}" for t
    using that old [of t] new by (cases "t = ?t") (simp_all only: f, auto)
  then show ?thesis using ki' sp(3) f(3) by (simp add: multi_inv_def)
qed

lemma multi_inv_kernel:
  assumes "multi_inv ctx area label n s" "kernel_inv k" "task_list k = task_list (mt_kernel s)"
    "current_of k = current_of (mt_kernel s)" "k_next_tid k = k_next_tid (mt_kernel s)"
  shows "multi_inv ctx area label n (s\<lparr>mt_kernel := k\<rparr>)"
  using assms by (simp add: multi_inv_def sleeper_ok_def)

lemma multi_inv_compute:
  assumes "multi_inv ctx area label n s" "others_kept ctx area (mt_kernel s) (mt_mach s) m'"
  shows "multi_inv ctx area label n (s\<lparr>mt_mach := m'\<rparr>)"
proof -
  have "sleeper_ok ctx area label (s\<lparr>mt_mach := m'\<rparr>) t"
    if t: "t \<in> set (task_list (mt_kernel s)) - {current_of (mt_kernel s)}" for t
  proof (rule sleeper_next [of ctx area label s])
    show "sleeper_ok ctx area label s t" using assms(1) t by (simp add: multi_inv_def)
  qed (use assms(2) t in \<open>simp_all add: others_kept_def\<close>)
  with assms(1) show ?thesis by (simp add: multi_inv_def)
qed

lemma multi_step_inv:
  assumes step: "multi_step ctx area label n s s'" and inv: "multi_inv ctx area label n s" and sep: "separate ctx area n"
  shows "multi_inv ctx area label n s'"
proof -
  have ki: "kernel_inv (mt_kernel s)" "sched_inv (mt_kernel s)" using inv by (simp_all add: multi_inv_def kernel_inv_def)
  from step show ?thesis
  proof cases
    case (multi_compute m')
    show ?thesis unfolding multi_compute(1) by (rule multi_inv_compute [OF inv multi_compute(2)])
  next
    case multi_tick
    show ?thesis
      unfolding multi_tick by (rule multi_inv_kernel [OF inv tick_inv [OF ki(1)]]) (simp_all add: tick_def current_of_def)
  next
    case (multi_idle k')
    have "k' = (mt_kernel s)\<lparr>k_if := True, k_ticks := 0\<rparr>"
      using multi_idle(2) switch_cases [OF ki(2)] by (simp split: option.splits if_splits)
    then show ?thesis
      unfolding multi_idle(1) by (intro multi_inv_kernel [OF inv switch_inv [OF ki(1) multi_idle(2)]]) (simp_all add: current_of_def)
  next
    case (multi_switch k' prev "next")
    show ?thesis unfolding multi_switch(1) by (rule switch_resumes(2) [OF inv sep multi_switch(2,3)])
  next
    case (multi_spawn func k' m')
    show ?thesis unfolding multi_spawn(1) by (rule spawn_multi [OF inv multi_spawn(2-6)])
  qed
qed

lemma multi_run_inv:
  assumes "multi_run root pm ctx area label n s" "kmem_inv pm" "tree_inv kptr (nodes pm) root" "separate ctx area n"
  shows "multi_inv ctx area label n s"
  using assms
proof (induction rule: multi_run.induct)
  case (multi_init b k m)
  obtain k0 where "init root (kernel_boot pm b) = Inr k0" "kernel_inv k0" "task_list k0 = [0]" "current_of k0 = 0"
    "k_next_tid k0 = 1"
    by (rule init_ok [OF multi_init(3,4), of b]) (auto intro: that init_next_tid)
  with multi_init(1,2) show ?case by (simp add: multi_inv_def)
next
  case (multi_more s s')
  then show ?case by (blast intro: multi_step_inv)
qed

section \<open>Every task goes on where it was\<close>


text \<open>
  Two tasks: the contexts and stacks lie at fixed distances from the cell \<open>r\<close> at which \<open>spawn\<close> stores
  the function of the second one.
\<close>

definition example_ctx :: "u64 \<Rightarrow> tid \<Rightarrow> u64" where
  "example_ctx r t = (if t = 0 then r + 0x1000 else r + 0x2000)"

definition example_area :: "u64 \<Rightarrow> tid \<Rightarrow> u64 set" where
  "example_area r t = (if t = 0 then stack_cells (r + 0x3000) else {r - 8, r, r + 8})"

definition example_mach :: "u64 \<Rightarrow> mach" where
  "example_mach r = \<lparr>regs = (\<lambda>_. 7)(RDI := r + 0x1000, RSI := r + 0x2000, RSP := r + 0x3000), rflags = 0x246, rip = 0,
     mem = (\<lambda>_. 0)(r := 0x1000, r + 0x2030 := r, r + 0x2038 := 0x202)\<rparr>"

lemma example_separate: "separate (example_ctx r) (example_area r) 2"
proof -
  have "t = 0 \<or> t = 1" if "t < 2" for t :: nat using that by auto
  then show ?thesis
    by (auto simp: separate_def task_cells_def example_ctx_def example_area_def context_cells_def stack_cells_def)
qed

lemma example_switch:
  assumes "kernel_inv k" "task_list k = [0, 1]" "current_of k = 0" "runnable k 1"
  shows "\<exists>k'. switch k = Some (Inr (k', Some (0, 1)))"
proof -
  have si: "sched_inv k" using assms(1) by (simp add: kernel_inv_def)
  have "next_task k = Some (task_list k ! ((0 + 1) mod length (task_list k)))"
    by (rule next_task_Some [OF si]) (use assms(2-4) in simp_all)
  then show ?thesis using switch_cases [OF si] assms(2,3) by simp
qed


end
