(* ===== verification/Kernel_Entry.thy ===== *)
theory Kernel_Entry
  imports X86 Console
begin

text \<open>
  The remaining parts of \<open>kernel/src/main.rs\<close>: \<open>kernel_entry\<close>, which the loader calls and which
  moves to the kernel's own stack, the two demo tasks, and the panic handler.

  \<open>kernel_entry\<close> is inline assembly whose four operands are in registers that the compiler
  chooses.  The moves overwrite \<open>rdi\<close>, \<open>rsi\<close> and \<open>rdx\<close> without declaring it, so the choice matters.
\<close>

section \<open>Entry\<close>

text \<open>The moves, for operands in the registers \<open>a0\<close> to \<open>a3\<close>.\<close>

definition entry_moves :: "reg \<Rightarrow> reg \<Rightarrow> reg \<Rightarrow> reg \<Rightarrow> instr list" where
  "entry_moves a0 a1 a2 a3 = [Mov RSP a0, Mov RDI a1, Mov RSI a2, Mov RDX a3]"

text \<open>
  \<open>call kernel_main\<close> never comes back: \<open>kernel_entry\<close> is the state at the first instruction of
  \<open>kernel_main\<close>, with \<open>kernel_main_addr\<close> the address of that and \<open>next\<close> of the instruction after the call.
\<close>

definition kernel_entry :: "reg \<Rightarrow> reg \<Rightarrow> reg \<Rightarrow> reg \<Rightarrow> u64 \<Rightarrow> u64 \<Rightarrow> mach \<Rightarrow> mach" where
  "kernel_entry a0 a1 a2 a3 kernel_main_addr next m =
     (push_val next (run (entry_moves a0 a1 a2 a3) m))\<lparr>rip := kernel_main_addr\<rparr>"

text \<open>
  What \<open>kernel_main\<close> expects by the System V calling convention: its arguments in \<open>rdi\<close>, \<open>rsi\<close> and
  \<open>rdx\<close>, and a return address on top of a stack that is aligned below it.
\<close>

definition enters :: "u64 \<Rightarrow> u64 \<Rightarrow> u64 \<Rightarrow> u64 \<Rightarrow> mach \<Rightarrow> bool" where
  "enters stack_base heap_base heap_size memory_region m \<longleftrightarrow>
     regs m RSP + 8 = stack_base \<and> regs m RDI = heap_base \<and> regs m RSI = heap_size \<and> regs m RDX = memory_region"

lemma entry_registers:
  assumes "a1 \<noteq> RSP" "a2 \<noteq> RSP" "a3 \<noteq> RSP"
  shows "regs (kernel_entry a0 a1 a2 a3 km next m) RSP = regs m a0 - 8"
    "regs (kernel_entry a0 a1 a2 a3 km next m) RDI = regs m a1"
    "regs (kernel_entry a0 a1 a2 a3 km next m) RSI = (if a2 = RDI then regs m a1 else regs m a2)"
    "regs (kernel_entry a0 a1 a2 a3 km next m) RDX =
       (if a3 = RDI then regs m a1 else if a3 = RSI then (if a2 = RDI then regs m a1 else regs m a2) else regs m a3)"
  using assms by (simp_all add: kernel_entry_def entry_moves_def machine_simps)

text \<open>
  C15: The entry of the kernel.  Let the compiler keep the four operands of \<open>kernel_entry\<close> in
  different registers other than the stack pointer.  Then \<open>kernel_main\<close> starts on the kernel's
  stack with the heap and the memory map as its arguments, whatever the machine state is, exactly
  if the heap size is not in \<open>rdi\<close> and the memory map neither in \<open>rdi\<close> nor in \<open>rsi\<close>.
\<close>

theorem kernel_entry_passes_arguments:
  assumes "distinct [a0, a1, a2, a3, RSP]"
  shows "(\<forall>m. enters (regs m a0) (regs m a1) (regs m a2) (regs m a3) (kernel_entry a0 a1 a2 a3 km next m)) \<longleftrightarrow>
    a2 \<noteq> RDI \<and> a3 \<noteq> RDI \<and> a3 \<noteq> RSI"
proof -
  have d: "a1 \<noteq> RSP" "a2 \<noteq> RSP" "a3 \<noteq> RSP" using assms by auto
  define m where "m = \<lparr>regs = (\<lambda>r. if r = a1 then 1 else if r = a2 then 2 else if r = a3 then 3 else 0),
    rflags = 0, rip = 0, mem = (\<lambda>_. 0)\<rparr>"
  have "regs m a1 = 1" "regs m a2 = 2" "regs m a3 = 3" using assms by (auto simp: m_def)
  then have "enters (regs m a0) (regs m a1) (regs m a2) (regs m a3) (kernel_entry a0 a1 a2 a3 km next m) \<Longrightarrow>
      a2 \<noteq> RDI \<and> a3 \<noteq> RDI \<and> a3 \<noteq> RSI"
    by (auto simp: enters_def entry_registers [OF d] split: if_splits)
  moreover have "\<forall>m. enters (regs m a0) (regs m a1) (regs m a2) (regs m a3) (kernel_entry a0 a1 a2 a3 km next m)"
    if "a2 \<noteq> RDI \<and> a3 \<noteq> RDI \<and> a3 \<noteq> RSI"
    using that by (simp add: enters_def entry_registers [OF d])
  ultimately show ?thesis by blast
qed

text \<open>The operands in the registers in which the loader passes them, and a choice that fails.\<close>

theorem kernel_entry_passes_arguments_witness:
  "(\<forall>m. enters (regs m RDI) (regs m RSI) (regs m RDX) (regs m RCX) (kernel_entry RDI RSI RDX RCX 0x1000 0x2000 m)) \<and>
   \<not> (\<forall>m. enters (regs m RAX) (regs m RCX) (regs m RDI) (regs m RDX) (kernel_entry RAX RCX RDI RDX 0x1000 0x2000 m))"
  using kernel_entry_passes_arguments [of RDI RSI RDX RCX "0x1000" "0x2000"]
    kernel_entry_passes_arguments [of RAX RCX RDI RDX "0x1000" "0x2000"] by simp

section \<open>Demo tasks\<close>

text \<open>
  \<open>n\<close> turns of the endless loops of \<open>task_a\<close> and \<open>task_b\<close>; \<open>hlt\<close> waits for an interrupt and does
  not touch the ports.
\<close>

fun task_loop :: "device \<Rightarrow> string \<Rightarrow> nat \<Rightarrow> ports \<Rightarrow> ports outcome option" where
  "task_loop dev s 0 io = Some (Inr io)"
| "task_loop dev s (Suc n) io = bind_run (print dev [s] io) (\<lambda>io1. task_loop dev s n io1)"

definition task_a :: "device \<Rightarrow> nat \<Rightarrow> ports \<Rightarrow> ports outcome option" where
  "task_a dev n io = task_loop dev ''a'' n io"

definition task_b :: "device \<Rightarrow> nat \<Rightarrow> ports \<Rightarrow> ports outcome option" where
  "task_b dev n io = task_loop dev ''b'' n io"

lemma task_loop_output:
  assumes "transmits dev"
  shows "\<exists>r. task_loop dev s n io =
    Some (Inr \<lparr>io_out = io_out io @ concat (replicate n (map (\<lambda>c. (0x3F8, of_char c)) s)), io_reads = r\<rparr>)"
proof (induction n arbitrary: io)
  case 0
  then show ?case by (cases io) simp
next
  case (Suc n)
  obtain r where "print dev [s] io = Some (Inr \<lparr>io_out = io_out io @ map (\<lambda>c. (0x3F8, of_char c)) s, io_reads = r\<rparr>)"
    using print_ok [OF assms, of "[s]" io] by auto
  then show ?case
    using Suc.IH [of "\<lparr>io_out = io_out io @ map (\<lambda>c. (0x3F8, of_char c)) s, io_reads = r\<rparr>"] by auto
qed

section \<open>Panics\<close>

text \<open>
  The panic handler disables interrupts and logs; the CPU then halts for good.  \<open>file\<close> is
  \<open>file!()\<close> of \<open>main.rs\<close>, and \<open>info_text\<close> the debug output of the \<open>PanicInfo\<close> of the language's core library.
\<close>

definition panic_handler :: "device \<Rightarrow> string \<Rightarrow> string list \<Rightarrow> mach \<Rightarrow> ports \<Rightarrow> (mach \<times> ports) outcome option" where
  "panic_handler dev file info_text m io =
     (let m1 = disable_interrupts m in
      bind_run (log_error dev file 144 [''!!!!! Kernel panic !!!!!''] io) (\<lambda>io1.
      bind_run (log_error dev file 145 (''Panic info: '' # info_text) io1) (\<lambda>io2.
      Some (Inr (m1, io2)))))"

lemma panic_handler_reports:
  assumes "transmits dev"
  shows "\<exists>n. panic_handler dev file info_text m io = Some (Inr (disable_interrupts m, \<lparr>io_out = io_out io @
    sent (log_line COLOR_RED ''[ERROR]'' file 144 [''!!!!! Kernel panic !!!!!'']) @
    sent (log_line COLOR_RED ''[ERROR]'' file 145 (''Panic info: '' # info_text)), io_reads = n\<rparr>))"
proof -
  let ?l1 = "log_line COLOR_RED ''[ERROR]'' file 144 [''!!!!! Kernel panic !!!!!'']"
  let ?l2 = "log_line COLOR_RED ''[ERROR]'' file 145 (''Panic info: '' # info_text)"
  obtain n1 where l1: "print dev ?l1 io = Some (Inr \<lparr>io_out = io_out io @ sent ?l1, io_reads = n1\<rparr>)"
    using print_ok [OF assms] by blast
  obtain n2 where l2: "print dev ?l2 \<lparr>io_out = io_out io @ sent ?l1, io_reads = n1\<rparr> =
      Some (Inr \<lparr>io_out = (io_out io @ sent ?l1) @ sent ?l2, io_reads = n2\<rparr>)"
    using print_ok [OF assms, of ?l2 "\<lparr>io_out = io_out io @ sent ?l1, io_reads = n1\<rparr>"] by (auto simp del: map_append)
  show ?thesis
    by (rule exI [of _ n2], simp only: panic_handler_def Let_def log_error_def l1 l2 bind_run_simps append_assoc)
qed

end
