(* ===== verification/Diagnostics.thy ===== *)
theory Diagnostics
  imports Interrupt_Dispatch Format Kernel_Entry
begin

text \<open>
  The texts of the diagnostics of \<open>kernel/src/idt.rs\<close> and their way to the serial port.  \<open>Interrupt_Dispatch\<close> records which diagnostics a handler reports; here each one
  becomes a line of \<open>error!\<close> output.
\<close>

section \<open>Texts\<close>

text \<open>The line of the \<open>error!\<close> call and its formatted message.\<close>

fun diagnostic_text :: "diagnostic \<Rightarrow> nat \<times> string" where
  "diagnostic_text Breakpoint_exception = (183, ''Breakpoint exception'')"
| "diagnostic_text Invalid_opcode_exception = (188, ''Invalid opcode exception'')"
| "diagnostic_text General_protection_fault = (192, ''General protection fault'')"
| "diagnostic_text (Rip a) = (194, ''RIP: '' @ hex_pad 18 (unat a))"
| "diagnostic_text Page_fault = (198, ''Page fault'')"
| "diagnostic_text (Rip_error_code a ec) =
     (201, ''RIP: '' @ hex_pad 18 (unat a) @ '' Error Code: '' @ bin_alt (unat ec))"
| "diagnostic_text (Unhandled_interrupt v) = (212, ''Unhandled interrupt: '' @ decimal (unat v))"

text \<open>\<open>file\<close> is \<open>file!()\<close> of \<open>idt.rs\<close>.\<close>

fun emit :: "device \<Rightarrow> string \<Rightarrow> diagnostic list \<Rightarrow> ports \<Rightarrow> ports outcome option" where
  "emit dev file [] io = Some (Inr io)"
| "emit dev file (d # ds) io =
     (let (line, text) = diagnostic_text d in
      bind_run (log_error dev file line [text] io) (\<lambda>io1. emit dev file ds io1))"

text \<open>What \<open>interrupt_handler_unimplemented\<close> does: it panics.\<close>

definition interrupt_handler_unimplemented :: "unit outcome" where
  "interrupt_handler_unimplemented = Inl (Panicked ''Unimplemented interrupt handler'')"

text \<open>
  \<open>Debug\<close> of a stack frame.  A derived \<open>Debug\<close> under \<open>{:#010x?}\<close> prints one field per line, indented
  by four blanks, with each number in ten columns.
\<close>

definition debug_struct :: "string \<Rightarrow> (string \<times> u64) list \<Rightarrow> string" where
  "debug_struct name fs =
     name @ '' {'' @ [CHR 0x0A] @
     concat (map (\<lambda>(x, v). ''    '' @ x @ '': '' @ hex_pad 10 (unat v) @ '','' @ [CHR 0x0A]) fs) @ ''}''"

definition registers_debug :: "InterruptRegisters \<Rightarrow> string" where
  "registers_debug r = debug_struct ''InterruptRegisters''
     [(''rax'', ir_rax r), (''rbx'', ir_rbx r), (''rcx'', ir_rcx r), (''rdx'', ir_rdx r), (''rsi'', ir_rsi r),
      (''rdi'', ir_rdi r), (''rbp'', ir_rbp r), (''rsp'', ir_rsp r), (''r8'', ir_r8 r), (''r9'', ir_r9 r),
      (''r10'', ir_r10 r), (''r11'', ir_r11 r), (''r12'', ir_r12 r), (''r13'', ir_r13 r), (''r14'', ir_r14 r),
      (''r15'', ir_r15 r)]"

definition context_debug :: "InterruptContext \<Rightarrow> string" where
  "context_debug c = debug_struct ''InterruptContext''
     [(''rip'', ic_rip c), (''cs'', ic_cs c), (''rflags'', ic_rflags c), (''rsp'', ic_rsp c), (''ss'', ic_ss c)]"

definition frame_debug :: "InterruptStackFrame \<Rightarrow> string" where
  "frame_debug f =
     ''InterruptStackFrame {'' @ [CHR 0x0A] @ ''registers: '' @ registers_debug (registers f) @ '','' @ [CHR 0x0A] @
     ''vector: '' @ decimal (unat (vector f)) @ '','' @ [CHR 0x0A] @
     ''error_code: '' @ decimal (unat (error_code f)) @ '','' @ [CHR 0x0A] @
     ''context: '' @ context_debug (int_context f) @ [CHR 0x0A] @ ''}''"

section \<open>Reports reach the port\<close>

text \<open>The bytes of one line of \<open>error!\<close> output.\<close>

definition error_line :: "string \<Rightarrow> diagnostic \<Rightarrow> (u16 \<times> u8) list" where
  "error_line file d = sent (log_line COLOR_RED ''[ERROR]'' file (fst (diagnostic_text d)) [snd (diagnostic_text d)])"

lemma emit_ok:
  assumes "transmits dev"
  shows "\<exists>n. emit dev file ds io = Some (Inr \<lparr>io_out = io_out io @ concat (map (error_line file) ds), io_reads = n\<rparr>)"
proof (induction ds arbitrary: io)
  case Nil
  then show ?case by (cases io) simp
next
  case (Cons d ds)
  let ?l = "log_line COLOR_RED ''[ERROR]'' file (fst (diagnostic_text d)) [snd (diagnostic_text d)]"
  obtain n where n: "print dev ?l io = Some (Inr \<lparr>io_out = io_out io @ error_line file d, io_reads = n\<rparr>)"
    using print_ok [OF assms, of ?l io] unfolding error_line_def by blast
  have "emit dev file (d # ds) io = emit dev file ds \<lparr>io_out = io_out io @ error_line file d, io_reads = n\<rparr>"
    by (cases "diagnostic_text d") (use n in \<open>simp add: log_error_def\<close>)
  with Cons.IH [of "\<lparr>io_out = io_out io @ error_line file d, io_reads = n\<rparr>"] show ?case by simp
qed

section \<open>Reports identify what happened\<close>

lemma rip_text_inj:
  fixes a b :: u64
  assumes "hex_pad 18 (unat a) @ x = hex_pad 18 (unat b) @ y"
  shows "a = b \<and> x = y"
proof -
  have "hex_pad 18 (unat a) = hex_pad 18 (unat b) \<and> x = y"
    using assms by (simp add: append_eq_append_conv [of "hex_pad 18 (unat a)" "hex_pad 18 (unat b)" x y] hex_pad_length)
  then show ?thesis using hex_pad_inj [of 18 "unat a" "unat b"] unsigned_word_eqI [of a b] by simp
qed

lemma diagnostic_text_inj:
  assumes "diagnostic_text d = diagnostic_text d'"
  shows "d = d'"
proof (cases d)
  case (Rip a)
  obtain b where d': "d' = Rip b" using assms Rip by (cases d') simp_all
  show ?thesis using assms rip_text_inj [of a "[]" b "[]"] by (simp add: Rip d')
next
  case (Rip_error_code a ec)
  obtain b ec' where d': "d' = Rip_error_code b ec'" using assms Rip_error_code by (cases d') simp_all
  have "hex_pad 18 (unat a) @ '' Error Code: '' @ bin_alt (unat ec) = hex_pad 18 (unat b) @ '' Error Code: '' @ bin_alt (unat ec')"
    using assms by (simp add: Rip_error_code d')
  from rip_text_inj [OF this] have "a = b" "unat ec = unat ec'" using bin_alt_inj [of "unat ec"] by simp_all
  then show ?thesis using unsigned_word_eqI [of ec ec'] by (simp add: Rip_error_code d')
next
  case (Unhandled_interrupt v)
  obtain w where d': "d' = Unhandled_interrupt w" using assms Unhandled_interrupt by (cases d') simp_all
  have "unat v = unat w" using assms by (intro decimal_inj) (simp add: Unhandled_interrupt d')
  then show ?thesis using unsigned_word_eqI [of v w] by (simp add: Unhandled_interrupt d')
qed (use assms in \<open>cases d', simp_all\<close>)+

lemma report_determines:
  assumes "map diagnostic_text (exception_report g) = map diagnostic_text (exception_report f)"
  shows "exception_report g = exception_report f"
  using assms by (rule map_injective) (simp add: inj_def diagnostic_text_inj)



end
