(* ===== verification/Test_Harness.thy ===== *)
theory Test_Harness
  imports Console
begin

text \<open>
  The test harness of \<open>kernel/src/test.rs\<close>, which replaces the panic handler in test builds.  The test
  functions are parameters: a test returns, panics with the text of its panic, or runs forever
  (\<open>None\<close>), and may use the ports.  \<open>file\<close> is \<open>file!()\<close> of \<open>test.rs\<close>.
\<close>

section \<open>Running tests\<close>

datatype verdict = Returns | Panics string

type_synonym test = "string \<times> (ports \<Rightarrow> (verdict \<times> ports) option)"

text \<open>A panic leaves QEMU, so that the tests that follow are not run.\<close>

datatype progress = Going ports | Exited ports

definition test_panic :: "device \<Rightarrow> string \<Rightarrow> string \<Rightarrow> ports \<Rightarrow> ports outcome option" where
  "test_panic dev file panic_info io =
     bind_run (log_error dev file 33 [''!!!!! Panic During Test !!!!!''] io) (\<lambda>io1.
     bind_run (log_error dev file 34 [''Panic info: '', panic_info] io1) (\<lambda>io2.
     Some (Inr (exit_qemu Fail io2))))"

definition test_run :: "device \<Rightarrow> string \<Rightarrow> test \<Rightarrow> ports \<Rightarrow> progress outcome option" where
  "test_run dev file self io =
     bind_run (print dev [''[TEST] '', fst self, '' >>> ''] io) (\<lambda>io1.
     case snd self io1 of
       None \<Rightarrow> None
     | Some (Panics panic_info, io2) \<Rightarrow>
         bind_run (test_panic dev file panic_info io2) (\<lambda>io3. Some (Inr (Exited io3)))
     | Some (Returns, io2) \<Rightarrow> bind_run (println dev [''[PASS]''] io2) (\<lambda>io3. Some (Inr (Going io3))))"

fun run_tests :: "device \<Rightarrow> string \<Rightarrow> test list \<Rightarrow> ports \<Rightarrow> progress outcome option" where
  "run_tests dev file [] io = Some (Inr (Going io))"
| "run_tests dev file (t # ts) io =
     bind_run (test_run dev file t io) (\<lambda>p.
     case p of Exited io1 \<Rightarrow> Some (Inr (Exited io1)) | Going io1 \<Rightarrow> run_tests dev file ts io1)"

text \<open>The ports when QEMU is left.\<close>

definition test_runner :: "device \<Rightarrow> string \<Rightarrow> test list \<Rightarrow> ports \<Rightarrow> ports outcome option" where
  "test_runner dev file tests io =
     bind_run (info dev file 22 [''Runnning '', decimal (length tests), '' tests''] io) (\<lambda>io1.
     bind_run (run_tests dev file tests io1) (\<lambda>p.
     case p of
       Exited io2 \<Rightarrow> Some (Inr io2)
     | Going io2 \<Rightarrow>
         bind_run (info dev file 26 [''Completed '', decimal (length tests), '' tests''] io2) (\<lambda>io3.
         Some (Inr (exit_qemu Sucess io3)))))"

section \<open>The exit code\<close>

text \<open>A test whose verdict does not depend on the ports.\<close>

definition decided :: "test \<Rightarrow> verdict \<Rightarrow> bool" where
  "decided t v \<longleftrightarrow> (\<forall>io. \<exists>io'. snd t io = Some (v, io'))"

lemma test_run_decided:
  assumes "transmits dev" "decided t v"
  shows "\<exists>io'. test_run dev file t io =
    Some (Inr (if v = Returns then Going io' else Exited (exit_qemu Fail io')))"
proof -
  obtain io2 where "snd t (printed dev [''[TEST] '', fst t, '' >>> ''] io) = Some (v, io2)"
    using assms(2) unfolding decided_def by blast
  then show ?thesis
    by (cases v) (auto simp: test_run_def test_panic_def log_error_def println_def print_printed(1) [OF assms(1)]
        simp del: print.simps)
qed

lemma run_tests_decided:
  assumes "transmits dev" "list_all2 decided ts vs"
  shows "\<exists>io'. run_tests dev file ts io =
    Some (Inr (if \<forall>v \<in> set vs. v = Returns then Going io' else Exited (exit_qemu Fail io')))"
  using assms(2)
proof (induction ts vs arbitrary: io rule: list_all2_induct)
  case (Cons t ts v vs)
  obtain io1 where t: "test_run dev file t io =
      Some (Inr (if v = Returns then Going io1 else Exited (exit_qemu Fail io1)))"
    using test_run_decided [OF assms(1) Cons.hyps(1)] by blast
  obtain io2 where "run_tests dev file ts io1 =
      Some (Inr (if \<forall>v \<in> set vs. v = Returns then Going io2 else Exited (exit_qemu Fail io2)))"
    using Cons.IH by blast
  with t show ?case by (cases "v = Returns") (auto intro: exI [of _ io1] exI [of _ io2])
qed simp

text \<open>
  The run ends, and the last byte that it writes is the success code at the exit port exactly when
  all tests return; after a panic it is the failure code.
\<close>

lemma exit_code_tells:
  assumes "transmits dev" "list_all2 decided tests vs"
  shows "\<exists>io'. test_runner dev file tests io = Some (Inr io') \<and>
    last (io_out io') = (0xf4, if \<forall>v \<in> set vs. v = Returns then 1 else 2)"
proof -
  let ?l = "log_line COLOR_CYAN ''[INFO]'' file 22 [''Runnning '', decimal (length tests), '' tests'']"
  obtain io' where "run_tests dev file tests (printed dev ?l io) =
      Some (Inr (if \<forall>v \<in> set vs. v = Returns then Going io' else Exited (exit_qemu Fail io')))"
    using run_tests_decided [OF assms] by blast
  then show ?thesis
    by (auto simp: test_runner_def info_def print_printed(1) [OF assms(1)] exit_qemu_def write_io_def)
qed

end
