(* ===== verification/Loader_Memory.thy ===== *)
theory Loader_Memory
  imports Noctis_Prelude
begin

text \<open>
  The loader's view of physical memory (\<open>loader/src/memory.rs\<close>, and the loop of \<open>main\<close> in
  \<open>loader/src/main.rs\<close> that uses it): the firmware's memory map, the iterator over its
  descriptors, and the array of regions that is handed to the kernel.

  The firmware is a parameter: \<open>gmm\<close> is \<open>GetMemoryMap\<close>, a function of the firmware's state,
  and \<open>rd\<close> reads a descriptor at the head of a byte buffer (\<open>None\<close> when the buffer is too
  short for one).  Status codes and memory types are told apart only as far as the code does.

  The lemmas show that the array keeps its shape, that the loop always ends, and that it
  produces one region per descriptor or fails.
\<close>

section \<open>Status codes\<close>

datatype efi_status = SUCCESS | BUFFER_TOO_SMALL | Other_status usize

definition status_to_result :: "efi_status \<Rightarrow> efi_status + unit" where
  "status_to_result status = (case status of SUCCESS \<Rightarrow> Inr () | _ \<Rightarrow> Inl status)"

text \<open>\<open>Result::expect\<close>.\<close>

definition expect_result :: "'e + 'a \<Rightarrow> 'a outcome" where
  "expect_result r = (case r of Inl _ \<Rightarrow> Inl Unwrap_failed | Inr x \<Rightarrow> Inr x)"

lemma expect_status [simp]:
  "expect_result (status_to_result status) = (if status = SUCCESS then Inr () else Inl Unwrap_failed)"
  by (cases status) (simp_all add: expect_result_def status_to_result_def)

section \<open>Regions\<close>

datatype MemoryRegionType = Reserved | Usable

record MemoryRegion =
  mr_base :: usize
  mr_len :: usize
  mr_typ :: MemoryRegionType

definition memory_region_new :: "usize \<Rightarrow> usize \<Rightarrow> MemoryRegionType \<Rightarrow> MemoryRegion" where
  "memory_region_new base len typ = \<lparr>mr_base = base, mr_len = len, mr_typ = typ\<rparr>"

definition memory_region_zeroed :: MemoryRegion where
  "memory_region_zeroed = \<lparr>mr_base = 0, mr_len = 0, mr_typ = Reserved\<rparr>"

definition REGION_PAGE_SIZE :: usize where "REGION_PAGE_SIZE = 4096"
definition MAX_MEMORY_REGION_LEN :: nat where "MAX_MEMORY_REGION_LEN = 128"

record MemoryRegionArray =
  ra_regions :: "MemoryRegion list"
  ra_count :: usize

definition region_array_new :: MemoryRegionArray where
  "region_array_new = \<lparr>ra_regions = replicate MAX_MEMORY_REGION_LEN memory_region_zeroed, ra_count = 0\<rparr>"

definition region_push :: "MemoryRegionArray \<Rightarrow> MemoryRegion \<Rightarrow> MemoryRegionArray outcome" where
  "region_push arr region =
     bind_out (rust_assert (unat (ra_count arr) < MAX_MEMORY_REGION_LEN)) (\<lambda>_.
     if length (ra_regions arr) \<le> unat (ra_count arr) then Inl Index_out_of_bounds
     else bind_out (add_chk (ra_count arr) 1) (\<lambda>count.
          Inr \<lparr>ra_regions = (ra_regions arr)[unat (ra_count arr) := region], ra_count = count\<rparr>))"

section \<open>The memory map of the firmware\<close>

text \<open>What a call of \<open>GetMemoryMap\<close> leaves in its status and its out parameters.\<close>

record gmm_reply =
  gm_status :: efi_status
  gm_map_size :: usize
  gm_map :: "u8 list"
  gm_map_key :: usize
  gm_desc_size :: usize
  gm_desc_ver :: u32

text \<open>The arguments are the firmware's state, the size of the buffer and the buffer, if there is one.\<close>

type_synonym 's get_memory_map = "'s \<Rightarrow> usize \<Rightarrow> u8 list option \<Rightarrow> 's \<times> gmm_reply"

record MemoryMap =
  mm_map :: "u8 list"
  mm_map_size :: usize
  mm_map_key :: usize
  mm_desc_size :: usize
  mm_desc_ver :: u32

definition get_memory_map_size :: "'s get_memory_map \<Rightarrow> 's \<Rightarrow> ('s \<times> usize) outcome" where
  "get_memory_map_size gmm s =
     (let (s1, r) = gmm s 0 None in
      if gm_status r \<noteq> BUFFER_TOO_SMALL then Inl (Panicked ''Failed to get memory map size'')
      else bind_out (mul_chk (gm_desc_size r) 4) (\<lambda>slack.
           bind_out (add_chk (gm_map_size r) slack) (\<lambda>n. Inr (s1, n))))"

text \<open>\<open>vec![0; n]\<close> panics when \<open>n\<close> exceeds \<open>isize::MAX\<close>.\<close>

definition vec_zeroed :: "usize \<Rightarrow> u8 list outcome" where
  "vec_zeroed n = (if 2 ^ 63 \<le> unat n then Inl (Panicked ''capacity overflow'') else Inr (replicate (unat n) 0))"

text \<open>The allocation of the buffer may itself change the map: \<open>pool\<close> is its effect on the firmware.\<close>

definition memory_map_new :: "'s get_memory_map \<Rightarrow> ('s \<Rightarrow> usize \<Rightarrow> 's) \<Rightarrow> 's \<Rightarrow> ('s \<times> MemoryMap) outcome" where
  "memory_map_new gmm pool s =
     bind_out (get_memory_map_size gmm s) (\<lambda>(s1, map_size).
     bind_out (vec_zeroed map_size) (\<lambda>buf.
     let (s2, r) = gmm (pool s1 map_size) map_size (Some buf) in
     bind_out (expect_result (status_to_result (gm_status r))) (\<lambda>_.
     Inr (s2, \<lparr>mm_map = gm_map r, mm_map_size = gm_map_size r, mm_map_key = gm_map_key r,
               mm_desc_size = gm_desc_size r, mm_desc_ver = gm_desc_ver r\<rparr>))))"

section \<open>Descriptors\<close>

datatype efi_memory_type = BOOT_SERVICES_CODE | CONVENTIONAL_MEMORY | Other_memory_type u32

record MemoryDescriptor =
  md_type :: efi_memory_type
  md_physical_start :: u64
  md_number_of_pages :: u64

type_synonym read_descriptor = "u8 list \<Rightarrow> MemoryDescriptor option"

text \<open>\<open>MemoryMapIterator::next\<close>: the descriptor at the offset, and the offset after it.\<close>

definition memory_map_next :: "read_descriptor \<Rightarrow> MemoryMap \<Rightarrow> usize \<Rightarrow> (MemoryDescriptor \<times> usize) option outcome" where
  "memory_map_next rd mm off =
     (if mm_map_size mm \<le> off then Inr None
      else case rd (drop (unat off) (mm_map mm)) of
        None \<Rightarrow> Inl Bad_pointer
      | Some desc \<Rightarrow> bind_out (add_chk off (mm_desc_size mm)) (\<lambda>off'. Inr (Some (desc, off'))))"

section \<open>The regions for the kernel\<close>

text \<open>The \<open>match\<close> on the type of a descriptor in \<open>main\<close>.\<close>

definition region_of_descriptor :: "MemoryDescriptor \<Rightarrow> MemoryRegion outcome" where
  "region_of_descriptor desc =
     (case md_type desc of
        Other_memory_type _ \<Rightarrow>
          bind_out (mul_chk (md_number_of_pages desc) REGION_PAGE_SIZE) (\<lambda>len.
          Inr (memory_region_new (md_physical_start desc) len Reserved))
      | _ \<Rightarrow>
          bind_out (mul_chk (md_number_of_pages desc) REGION_PAGE_SIZE) (\<lambda>len.
          Inr (memory_region_new (md_physical_start desc) len Usable)))"

text \<open>The \<open>for\<close> loop of \<open>main\<close>.  Nothing bounds the iterator: \<open>None\<close> is a loop that never ends.\<close>

partial_function (option) region_loop ::
    "read_descriptor \<Rightarrow> MemoryMap \<Rightarrow> usize \<Rightarrow> MemoryRegionArray \<Rightarrow> MemoryRegionArray outcome option" where
  "region_loop rd mm off arr =
     (case memory_map_next rd mm off of
        Inl err \<Rightarrow> Some (Inl err)
      | Inr None \<Rightarrow> Some (Inr arr)
      | Inr (Some (desc, off')) \<Rightarrow>
          (case bind_out (region_of_descriptor desc) (\<lambda>region. region_push arr region) of
             Inl err \<Rightarrow> Some (Inl err)
           | Inr arr' \<Rightarrow> region_loop rd mm off' arr'))"

section \<open>The shape of the array\<close>

definition region_array_ok :: "MemoryRegionArray \<Rightarrow> bool" where
  "region_array_ok arr \<longleftrightarrow> length (ra_regions arr) = 128 \<and> unat (ra_count arr) \<le> 128"

lemma region_array_new_ok: "region_array_ok region_array_new" "unat (ra_count region_array_new) = 0"
  by (simp_all add: region_array_ok_def region_array_new_def MAX_MEMORY_REGION_LEN_def)

lemma region_push_cases:
  assumes ok: "region_array_ok arr"
  shows "unat (ra_count arr) < 128 \<Longrightarrow>
      \<exists>arr'. region_push arr r = Inr arr' \<and> region_array_ok arr' \<and> unat (ra_count arr') = Suc (unat (ra_count arr)) \<and>
        ra_regions arr' = (ra_regions arr)[unat (ra_count arr) := r]"
    "unat (ra_count arr) = 128 \<Longrightarrow> region_push arr r = Inl Assert_failed"
proof -
  assume less: "unat (ra_count arr) < 128"
  then have "unat (ra_count arr + 1) = Suc (unat (ra_count arr))" by (simp add: unat_add_no_wrap)
  then show "\<exists>arr'. region_push arr r = Inr arr' \<and> region_array_ok arr' \<and>
      unat (ra_count arr') = Suc (unat (ra_count arr)) \<and> ra_regions arr' = (ra_regions arr)[unat (ra_count arr) := r]"
    using ok less by (simp add: region_push_def region_array_ok_def MAX_MEMORY_REGION_LEN_def add_chk_ok)
qed (simp add: region_push_def MAX_MEMORY_REGION_LEN_def)

lemma region_push_ok:
  assumes "region_array_ok arr" "region_push arr r = Inr arr'"
  shows "region_array_ok arr'" "unat (ra_count arr') = Suc (unat (ra_count arr))"
    "ra_regions arr' = (ra_regions arr)[unat (ra_count arr) := r]" "unat (ra_count arr) < 128"
proof -
  have "unat (ra_count arr) \<noteq> 128" using region_push_cases(2) [OF assms(1)] assms(2) by auto
  then show lt: "unat (ra_count arr) < 128" using assms(1) by (simp add: region_array_ok_def)
  from region_push_cases(1) [OF assms(1) lt, of r] assms(2)
  show "region_array_ok arr'" "unat (ra_count arr') = Suc (unat (ra_count arr))"
    "ra_regions arr' = (ra_regions arr)[unat (ra_count arr) := r]" by auto
qed

section \<open>The loop ends\<close>

text \<open>Every round stores a region, and the array takes 128 of them.\<close>

lemma region_loop_returns:
  assumes "region_array_ok arr"
  shows "\<exists>r. region_loop rd mm off arr = Some r \<and> (case r of Inl _ \<Rightarrow> True | Inr arr' \<Rightarrow> region_array_ok arr')"
  using assms
proof (induction "128 - unat (ra_count arr)" arbitrary: off arr rule: less_induct)
  case less
  show ?case
  proof (cases "memory_map_next rd mm off")
    case (Inl err)
    then show ?thesis by (subst region_loop.simps) simp
  next
    case (Inr nx)
    show ?thesis
    proof (cases nx)
      case None
      with Inr less.prems show ?thesis by (subst region_loop.simps) simp
    next
      case (Some d)
      then obtain desc off' where d: "nx = Some (desc, off')" by (cases d) simp
      show ?thesis
      proof (cases "bind_out (region_of_descriptor desc) (\<lambda>region. region_push arr region)")
        case (Inl err)
        with Inr d show ?thesis by (subst region_loop.simps) simp
      next
        case push: (Inr arr')
        then obtain r where "region_push arr r = Inr arr'" by (auto simp: outcome_simps)
        note ok = region_push_ok [OF less.prems this]
        have "128 - unat (ra_count arr') < 128 - unat (ra_count arr)" using ok(2,4) by simp
        from less.hyps [OF this ok(1), of off'] Inr d push show ?thesis by (subst region_loop.simps) simp
      qed
    qed
  qed
qed

section \<open>What the loop produces\<close>

definition region_spec :: "MemoryDescriptor \<Rightarrow> MemoryRegion" where
  "region_spec d =
     \<lparr>mr_base = md_physical_start d, mr_len = md_number_of_pages d * 4096,
      mr_typ = (if md_type d \<in> {BOOT_SERVICES_CODE, CONVENTIONAL_MEMORY} then Usable else Reserved)\<rparr>"

lemma region_of_descriptor_ok:
  "unat (md_number_of_pages d) * 4096 < 2 ^ 64 \<Longrightarrow> region_of_descriptor d = Inr (region_spec d)"
  by (cases "md_type d")
    (simp_all add: region_of_descriptor_def region_spec_def REGION_PAGE_SIZE_def mul_chk_def memory_region_new_def)

text \<open>A memory map that holds the descriptors \<open>ds\<close>, one per \<open>desc_size\<close> bytes.\<close>

definition holds_descriptors :: "read_descriptor \<Rightarrow> MemoryMap \<Rightarrow> MemoryDescriptor list \<Rightarrow> bool" where
  "holds_descriptors rd mm ds \<longleftrightarrow>
     0 < unat (mm_desc_size mm) \<and> unat (mm_map_size mm) = length ds * unat (mm_desc_size mm) \<and>
     (\<forall>i < length ds. rd (drop (i * unat (mm_desc_size mm)) (mm_map mm)) = Some (ds ! i) \<and>
        unat (md_number_of_pages (ds ! i)) * 4096 < 2 ^ 64)"

text \<open>
  What the specification of \<open>GetMemoryMap\<close> says: it leaves the state alone; in a state whose map
  has the descriptors \<open>desc s\<close> and the key \<open>key s\<close> it fails with \<open>BUFFER_TOO_SMALL\<close> and the size
  that is needed, or fills a buffer that is large enough.
\<close>

definition get_memory_map_documented ::
    "read_descriptor \<Rightarrow> 's get_memory_map \<Rightarrow> usize \<Rightarrow> ('s \<Rightarrow> MemoryDescriptor list) \<Rightarrow> ('s \<Rightarrow> usize) \<Rightarrow> bool" where
  "get_memory_map_documented rd gmm dsz desc key \<longleftrightarrow>
     (\<forall>s n b. case gmm s n b of (s', r) \<Rightarrow>
        s' = s \<and> gm_desc_size r = dsz \<and> unat (gm_map_size r) = length (desc s) * unat dsz \<and>
        (if b = None \<or> unat n < length (desc s) * unat dsz then gm_status r = BUFFER_TOO_SMALL
         else gm_status r = SUCCESS \<and> gm_map_key r = key s \<and>
           (\<forall>ver. holds_descriptors rd \<lparr>mm_map = gm_map r, mm_map_size = gm_map_size r, mm_map_key = gm_map_key r,
              mm_desc_size = gm_desc_size r, mm_desc_ver = ver\<rparr> (desc s))))"

text \<open>The slack of four descriptors is what makes the second call succeed.\<close>

lemma memory_map_new_ok:
  assumes doc: "get_memory_map_documented rd gmm dsz desc key"
    and small: "(length (desc s) + 4) * unat dsz < 2 ^ 63"
    and grow: "\<And>n. length (desc (pool s n)) \<le> length (desc s) + 4"
  obtains n mm where "memory_map_new gmm pool s = Inr (pool s n, mm)" "mm_map_key mm = key (pool s n)"
    "holds_descriptors rd mm (desc (pool s n))"
proof -
  obtain r where r: "gmm s 0 None = (s, r)" "gm_status r = BUFFER_TOO_SMALL" "gm_desc_size r = dsz"
      "unat (gm_map_size r) = length (desc s) * unat dsz"
    using doc unfolding get_memory_map_documented_def by (cases "gmm s 0 None") fastforce
  define n where "n = gm_map_size r + dsz * 4"
  have sum: "length (desc s) * unat dsz + unat dsz * 4 < 2 ^ 63" using small by (simp add: distrib_right)
  then have m4: "unat (dsz * 4) = unat dsz * 4" by (subst unat_mult_no_wrap) simp_all
  have n: "unat n = (length (desc s) + 4) * unat dsz"
    unfolding n_def using sum r(4) m4 by (subst unat_add_no_wrap) (simp_all add: distrib_right)
  have size: "get_memory_map_size gmm s = Inr (s, n)"
    using r sum m4 by (simp add: get_memory_map_size_def mul_chk_def add_chk_def n_def)
  obtain s2 q where g: "gmm (pool s n) n (Some (replicate (unat n) 0)) = (s2, q)" by fastforce
  have "length (desc (pool s n)) * unat dsz \<le> unat n" unfolding n using grow by (rule mult_le_mono1)
  then have q: "s2 = pool s n" "gm_status q = SUCCESS" "gm_map_key q = key (pool s n)"
      "\<And>ver. holds_descriptors rd \<lparr>mm_map = gm_map q, mm_map_size = gm_map_size q, mm_map_key = gm_map_key q,
        mm_desc_size = gm_desc_size q, mm_desc_ver = ver\<rparr> (desc (pool s n))"
    using doc [unfolded get_memory_map_documented_def, THEN spec, of "pool s n", THEN spec, of n, THEN spec,
        of "Some (replicate (unat n) 0)"] g
    by (auto simp: not_less split: if_splits)
  have "vec_zeroed n = Inr (replicate (unat n) 0)" using small by (simp add: vec_zeroed_def n)
  with size g q show ?thesis
    by (intro that [of n "\<lparr>mm_map = gm_map q, mm_map_size = gm_map_size q, mm_map_key = gm_map_key q,
        mm_desc_size = gm_desc_size q, mm_desc_ver = gm_desc_ver q\<rparr>"]) (simp_all add: memory_map_new_def)
qed

lemma memory_map_next_at:
  assumes h: "holds_descriptors rd mm ds" and off: "unat off = j * unat (mm_desc_size mm)"
  shows "j < length ds \<Longrightarrow> memory_map_next rd mm off = Inr (Some (ds ! j, off + mm_desc_size mm))"
    "j < length ds \<Longrightarrow> unat (off + mm_desc_size mm) = Suc j * unat (mm_desc_size mm)"
    "j = length ds \<Longrightarrow> memory_map_next rd mm off = Inr None"
proof -
  let ?d = "unat (mm_desc_size mm)"
  have sz: "unat (mm_map_size mm) = length ds * ?d" "0 < ?d" using h by (simp_all add: holds_descriptors_def)
  have fit: "unat off + ?d < 2 ^ 64" if "j < length ds"
  proof -
    have "Suc j * ?d \<le> length ds * ?d" using that by (intro mult_le_mono1) simp
    then show ?thesis using sz(1) off unat_usize_less [of "mm_map_size mm"] by simp
  qed
  then show "unat (off + mm_desc_size mm) = Suc j * ?d" if "j < length ds"
    using that off by (simp add: unat_add_no_wrap)
  show "memory_map_next rd mm off = Inr (Some (ds ! j, off + mm_desc_size mm))" if j: "j < length ds"
  proof -
    have "j * ?d < length ds * ?d" using j sz(2) by simp
    then have "\<not> mm_map_size mm \<le> off" using sz(1) off by (simp add: word_le_nat_alt)
    then show ?thesis
      using h j off fit [OF j] by (simp add: memory_map_next_def holds_descriptors_def add_chk_ok)
  qed
  show "memory_map_next rd mm off = Inr None" if "j = length ds"
    using that sz(1) off by (simp add: memory_map_next_def word_le_nat_alt)
qed

lemma region_loop_round:
  assumes "memory_map_next rd mm off = Inr (Some (desc, off'))" "region_of_descriptor desc = Inr r"
  shows "region_loop rd mm off arr =
    (case region_push arr r of Inl err \<Rightarrow> Some (Inl err) | Inr arr' \<Rightarrow> region_loop rd mm off' arr')"
  using assms by (subst region_loop.simps) simp

lemma region_loop_from:
  assumes h: "holds_descriptors rd mm ds" and j: "j \<le> length ds" "j \<le> 128"
    and off: "unat off = j * unat (mm_desc_size mm)" and ok: "region_array_ok arr" "unat (ra_count arr) = j"
  shows "length ds \<le> 128 \<Longrightarrow> \<exists>arr'. region_loop rd mm off arr = Some (Inr arr') \<and> unat (ra_count arr') = length ds \<and>
      ra_regions arr' = take j (ra_regions arr) @ map region_spec (drop j ds) @ drop (length ds) (ra_regions arr)"
    "128 < length ds \<Longrightarrow> region_loop rd mm off arr = Some (Inl Assert_failed)"
proof -
  have "(length ds \<le> 128 \<longrightarrow> (\<exists>arr'. region_loop rd mm off arr = Some (Inr arr') \<and> unat (ra_count arr') = length ds \<and>
      ra_regions arr' = take j (ra_regions arr) @ map region_spec (drop j ds) @ drop (length ds) (ra_regions arr))) \<and>
    (128 < length ds \<longrightarrow> region_loop rd mm off arr = Some (Inl Assert_failed))"
    using j off ok
  proof (induction "length ds - j" arbitrary: j off arr)
    case 0
    then have "j = length ds" by simp
    with memory_map_next_at(3) [OF h 0(4)] 0 show ?case by (subst region_loop.simps) simp
  next
    case (Suc n)
    then have lt: "j < length ds" by simp
    have r: "region_of_descriptor (ds ! j) = Inr (region_spec (ds ! j))"
      using h lt by (simp add: holds_descriptors_def region_of_descriptor_ok)
    note round = region_loop_round [OF memory_map_next_at(1) [OF h Suc.prems(3) lt] r, of arr]
    show ?case
    proof (cases "j = 128")
      case True
      then show ?thesis using round region_push_cases(2) [OF Suc.prems(4)] Suc.prems(5) lt by simp
    next
      case False
      then have "unat (ra_count arr) < 128" using Suc.prems(2,5) by simp
      then obtain arr1 where p: "region_push arr (region_spec (ds ! j)) = Inr arr1" "region_array_ok arr1"
          "unat (ra_count arr1) = Suc j" "ra_regions arr1 = (ra_regions arr)[j := region_spec (ds ! j)]"
        using region_push_cases(1) [OF Suc.prems(4)] Suc.prems(5) by auto
      have regs: "take (Suc j) (ra_regions arr1) @ map region_spec (drop (Suc j) ds) @ drop (length ds) (ra_regions arr1) =
          take j (ra_regions arr) @ map region_spec (drop j ds) @ drop (length ds) (ra_regions arr)"
        using p(4) lt Suc.prems(2,4) False
        by (simp add: region_array_ok_def take_Suc_conv_app_nth Cons_nth_drop_Suc [symmetric])
      have "n = length ds - Suc j" "Suc j \<le> length ds" "Suc j \<le> 128" using Suc.hyps(2) lt Suc.prems(2) False by simp_all
      from Suc.hyps(1) [OF this memory_map_next_at(2) [OF h Suc.prems(3) lt] p(2,3)]
      show ?thesis using round p(1) regs by simp
    qed
  qed
  then show "length ds \<le> 128 \<Longrightarrow> \<exists>arr'. region_loop rd mm off arr = Some (Inr arr') \<and> unat (ra_count arr') = length ds \<and>
      ra_regions arr' = take j (ra_regions arr) @ map region_spec (drop j ds) @ drop (length ds) (ra_regions arr)"
    "128 < length ds \<Longrightarrow> region_loop rd mm off arr = Some (Inl Assert_failed)" by blast+
qed

text \<open>
  C26: The loop of \<open>main\<close> over the memory map ends, whatever the firmware reports, a descriptor size of
  zero included, for which the iterator itself never ends; if the loop does not panic, it leaves an
  array of 128 regions whose count is at most 128.
\<close>

theorem region_loop_terminates:
  "\<exists>r. region_loop rd mm off region_array_new = Some r \<and>
     (case r of Inl _ \<Rightarrow> True | Inr arr \<Rightarrow> region_array_ok arr)"
  by (rule region_loop_returns [OF region_array_new_ok(1)])

lemma region_loop_map:
  assumes h: "holds_descriptors rd mm ds" and l: "length ds \<le> 128"
  shows "\<exists>arr. region_loop rd mm 0 region_array_new = Some (Inr arr) \<and> unat (ra_count arr) = length ds \<and>
    ra_regions arr = map region_spec ds @ replicate (128 - length ds) memory_region_zeroed"
proof -
  have r: "ra_regions region_array_new = replicate 128 memory_region_zeroed"
    by (simp add: region_array_new_def MAX_MEMORY_REGION_LEN_def)
  show ?thesis
    using region_loop_from(1) [OF h _ _ _ region_array_new_ok(1), of 0 0] region_array_new_ok(2) l by (simp add: r)
qed

text \<open>
  C25: The kernel gets one region per descriptor of the firmware's memory map, in the same order, with
  the address and the size in bytes that the descriptor gives, usable exactly for boot services
  code and conventional memory; the rest of the array is zeroed and reserved.  A map of more than
  128 descriptors panics in \<open>push\<close>.
\<close>

theorem memory_regions_complete:
  assumes "holds_descriptors rd mm ds"
  shows "if length ds \<le> 128
    then \<exists>arr. region_loop rd mm 0 region_array_new = Some (Inr arr) \<and> unat (ra_count arr) = length ds \<and>
      ra_regions arr = map region_spec ds @ replicate (128 - length ds) memory_region_zeroed
    else region_loop rd mm 0 region_array_new = Some (Inl Assert_failed)"
proof (cases "length ds \<le> 128")
  case True
  with region_loop_map [OF assms True] show ?thesis by simp
next
  case False
  with region_loop_from(2) [OF assms _ _ _ region_array_new_ok(1), of 0 0] region_array_new_ok(2) show ?thesis by simp
qed

text \<open>A map with two descriptors of 48 bytes, told apart by their first byte.\<close>

definition example_rd :: read_descriptor where
  "example_rd bs =
     (case bs of [] \<Rightarrow> None
      | b # _ \<Rightarrow> Some (if b = 7 then \<lparr>md_type = CONVENTIONAL_MEMORY, md_physical_start = 0x100000, md_number_of_pages = 256\<rparr>
          else \<lparr>md_type = Other_memory_type 6, md_physical_start = 0x200000, md_number_of_pages = 16\<rparr>))"

definition example_map :: MemoryMap where
  "example_map = \<lparr>mm_map = 7 # replicate 47 0 @ 6 # replicate 47 0, mm_map_size = 96, mm_map_key = 1, mm_desc_size = 48,
     mm_desc_ver = 1\<rparr>"

definition example_descriptors :: "MemoryDescriptor list" where
  "example_descriptors = [\<lparr>md_type = CONVENTIONAL_MEMORY, md_physical_start = 0x100000, md_number_of_pages = 256\<rparr>,
     \<lparr>md_type = Other_memory_type 6, md_physical_start = 0x200000, md_number_of_pages = 16\<rparr>]"

lemma example_holds: "holds_descriptors example_rd example_map example_descriptors"
  by (auto simp: holds_descriptors_def example_rd_def example_map_def example_descriptors_def less_Suc_eq)

theorem memory_regions_complete_witness:
  "\<exists>arr. region_loop example_rd example_map 0 region_array_new = Some (Inr arr) \<and> unat (ra_count arr) = 2 \<and>
     ra_regions arr ! 0 = \<lparr>mr_base = 0x100000, mr_len = 0x100000, mr_typ = Usable\<rparr> \<and>
     ra_regions arr ! 1 = \<lparr>mr_base = 0x200000, mr_len = 0x10000, mr_typ = Reserved\<rparr>"
  using memory_regions_complete [OF example_holds] by (auto simp: region_spec_def example_descriptors_def)

end
