(* ===== verification/Loader_Paging.thy ===== *)
theory Loader_Paging
  imports Table_Walk
begin

text \<open>
  The loader's page tables (\<open>loader/src/paging.rs\<close>): the canonical form of virtual addresses, the
  walk that creates missing tables, \<open>map\<close>, \<open>create_mapping\<close> and \<open>init_early_paging\<close>, which extends
  a copy of the firmware's tables by the direct mapping and the kernel image and loads it.

  The newtypes of addresses, the entries with their attributes and \<open>set_entry\<close>, and the index
  extraction are the same text as in the kernel and are those of \<open>Memlayout\<close> and \<open>Paging_Entry\<close>.
  What differs is modelled here: the loader runs on the identity mapping of the firmware, so an
  entry points to the physical address of its node; its tables come from the firmware's
  allocator, of which \<open>l_pool\<close> lists the blocks it is going to return, in order; addresses
  advance with wrap-around and are made canonical.  The interpretation \<open>lpages\<close> of
  \<open>page_mapper\<close> gives the correctness of the mapping.
\<close>

section \<open>Addresses and sizes\<close>

definition canonicalize :: "u64 \<Rightarrow> u64" where
  "canonicalize addr =
     (if addr AND push_bit 47 1 \<noteq> 0 then addr OR 0xFFFF000000000000 else addr AND 0x0000FFFFFFFFFFFF)"

definition loader_virt_new :: "usize \<Rightarrow> VirtAddr" where
  "loader_virt_new addr = VirtAddr (canonicalize addr)"

definition loader_virt_add :: "VirtAddr \<Rightarrow> usize \<Rightarrow> VirtAddr" where
  "loader_virt_add va offset = loader_virt_new (virt_usize va + offset)"

definition LOADER_PAGE_SIZE :: usize where "LOADER_PAGE_SIZE = 4096"
definition KERNEL_DIRECT_START :: usize where "KERNEL_DIRECT_START = 0xFFFF888000000000"
definition KERNEL_DIRECT_SIZE :: usize where "KERNEL_DIRECT_SIZE = 0x8000000000"

definition align_up_to_page :: "MSize \<Rightarrow> MSize outcome" where
  "align_up_to_page s =
     bind_out (add_chk (msize_usize s) LOADER_PAGE_SIZE) (\<lambda>x.
     bind_out (sub_chk x 1) (\<lambda>y.
     bind_out (sub_chk LOADER_PAGE_SIZE 1) (\<lambda>low.
     Inr (MSize (y AND NOT low)))))"

section \<open>State and node access\<close>

record lmem =
  l_nodes :: node_mem
  l_cr3 :: usize
  l_pool :: "usize list"

definition loader_read_entry :: "lmem \<Rightarrow> usize \<Rightarrow> nat \<Rightarrow> PageTableEntry outcome" where
  "loader_read_entry m a i =
     (case l_nodes m a of None \<Rightarrow> Inl Bad_pointer
      | Some n \<Rightarrow> if i < length (entries n) then Inr (entries n ! i) else Inl Index_out_of_bounds)"

definition loader_write_entry :: "lmem \<Rightarrow> usize \<Rightarrow> nat \<Rightarrow> PageTableEntry \<Rightarrow> lmem outcome" where
  "loader_write_entry m a i e =
     (case l_nodes m a of None \<Rightarrow> Inl Bad_pointer
      | Some n \<Rightarrow> if i < length (entries n) then Inr (m\<lparr>l_nodes := write_node (l_nodes m) a i e\<rparr>)
                  else Inl Index_out_of_bounds)"

text \<open>\<open>Box::new(zeroed)\<close>: the next block of the allocator; when it has none, \<open>handle_alloc_error\<close>.\<close>

definition loader_box_node :: "lmem \<Rightarrow> (lmem \<times> usize) outcome" where
  "loader_box_node m =
     (case l_pool m of [] \<Rightarrow> Inl Alloc_error
      | p # ps \<Rightarrow> Inr (m\<lparr>l_pool := ps, l_nodes := (l_nodes m)(p \<mapsto> zeroed_node)\<rparr>, p))"

section \<open>Next-level tables\<close>

definition loader_next_node_mut :: "PageTableEntry \<Rightarrow> usize option outcome" where
  "loader_next_node_mut e =
     bind_out (is_present e) (\<lambda>p. if \<not> p then Inr None else Inr (Some (phys_usize (pte_paddr e))))"

definition loader_alloc_next_level_table ::
    "lmem \<Rightarrow> PageTableEntry \<Rightarrow> (lmem \<times> PageTableEntry \<times> unit rust_result) outcome" where
  "loader_alloc_next_level_table m e =
     bind_out (is_present e) (\<lambda>p.
     if p then Inr (m, e, Inl ''Next level table is already allocated'')
     else bind_out (loader_box_node m) (\<lambda>(m1, next).
          Inr (m1, e\<lparr>pte_value := next OR attr_u64 ReadWriteExecuteKernel\<rparr>, Inr ())))"

definition loader_get_or_alloc :: "lmem \<Rightarrow> usize \<Rightarrow> nat \<Rightarrow> (lmem \<times> usize rust_result) outcome" where
  "loader_get_or_alloc m node i =
     bind_out (loader_read_entry m node i) (\<lambda>e.
     bind_out (is_present e) (\<lambda>p.
     bind_out (if \<not> p
               then bind_out (loader_alloc_next_level_table m e) (\<lambda>(m1, e1, r).
                    bind_out (unwrap_result r) (\<lambda>_. loader_write_entry m1 node i e1))
               else Inr m) (\<lambda>m2.
     bind_out (loader_read_entry m2 node i) (\<lambda>e2.
     bind_out (loader_next_node_mut e2) (\<lambda>nn.
     bind_out (unwrap_option nn) (\<lambda>next. Inr (m2, Inr next)))))))"

section \<open>map\<close>

fun loader_map_levels :: "lmem \<Rightarrow> usize \<Rightarrow> VirtAddr \<Rightarrow> nat list \<Rightarrow> (lmem \<times> usize rust_result) outcome" where
  "loader_map_levels m node va [] = Inr (m, Inr node)"
| "loader_map_levels m node va (level # levels) =
     bind_out (nth_level_table_index va level) (\<lambda>index.
     bind_out (loader_get_or_alloc m node index) (\<lambda>(m1, r).
     case r of Inl err \<Rightarrow> Inr (m1, Inl err)
     | Inr node1 \<Rightarrow> loader_map_levels m1 node1 va levels))"

text \<open>The loop of the 1 GiB path: \<open>i\<close> iterations done, \<open>k\<close> to go.\<close>

fun loader_map_1gib :: "usize \<Rightarrow> nat \<Rightarrow> PhysAddr \<Rightarrow> PageTableAttr \<Rightarrow> nat \<Rightarrow> nat \<Rightarrow> lmem \<Rightarrow>
    (lmem \<times> unit rust_result) outcome" where
  "loader_map_1gib pdpt index phys attr i 0 m = Inr (m, Inr ())"
| "loader_map_1gib pdpt index phys attr i (Suc k) m =
     bind_out (loader_read_entry m pdpt (index + i)) (\<lambda>e.
     bind_out (mul_chk (of_nat i) (2 ^ 30)) (\<lambda>off.
     bind_out (add_chk (phys_usize phys) off) (\<lambda>pa.
     case set_entry e (PhysAddr pa) attr of
       (_, Inl err) \<Rightarrow> Inr (m, Inl err)
     | (e', Inr _) \<Rightarrow>
         bind_out (loader_write_entry m pdpt (index + i) e') (\<lambda>m1.
         loader_map_1gib pdpt index phys attr (Suc i) k m1))))"

text \<open>The loop of the 4 KiB path; there are at most \<open>2\<^sup>5\<^sup>2\<close> pages, so \<open>start_index + i\<close> fits.\<close>

fun loader_map_4kib :: "usize \<Rightarrow> PageTableAttr \<Rightarrow> nat \<Rightarrow> nat \<Rightarrow> nat \<Rightarrow> lmem \<Rightarrow> usize \<Rightarrow> VirtAddr \<Rightarrow> PhysAddr \<Rightarrow>
    (lmem \<times> unit rust_result) outcome" where
  "loader_map_4kib self attr start_index i 0 m node va pa = Inr (m, Inr ())"
| "loader_map_4kib self attr start_index i (Suc k) m node va pa =
     (let index = (start_index + i) mod 512 in
      bind_out (if index = 0 \<and> i \<noteq> 0 then loader_map_levels m self va [4, 3, 2] else Inr (m, Inr node))
        (\<lambda>(m1, r).
      case r of Inl err \<Rightarrow> Inr (m1, Inl err)
      | Inr node1 \<Rightarrow>
          bind_out (loader_read_entry m1 node1 index) (\<lambda>e.
          case set_entry e pa attr of
            (_, Inl err) \<Rightarrow> Inr (m1, Inl err)
          | (e', Inr _) \<Rightarrow>
              bind_out (loader_write_entry m1 node1 index e') (\<lambda>m2.
              bind_out (add_chk (phys_usize pa) LOADER_PAGE_SIZE) (\<lambda>pa1.
              loader_map_4kib self attr start_index (Suc i) k m2 node1 (loader_virt_add va LOADER_PAGE_SIZE)
                (PhysAddr pa1))))))"

definition loader_map_range :: "lmem \<Rightarrow> usize \<Rightarrow> VirtAddr \<Rightarrow> PhysAddr \<Rightarrow> nat \<Rightarrow> PageTableAttr \<Rightarrow>
    (lmem \<times> unit rust_result) outcome" where
  "loader_map_range m self virt_start phys_start num_pages attr =
     bind_out (rust_assert (unat (virt_usize virt_start) mod unat LOADER_PAGE_SIZE = 0)) (\<lambda>_.
     bind_out (rust_assert (unat (phys_usize phys_start) mod unat LOADER_PAGE_SIZE = 0)) (\<lambda>_.
     if attr = ReadWriteKernel1GiB \<and> unat (virt_usize virt_start) mod 2 ^ 30 = 0 \<and>
        unat (phys_usize phys_start) mod 2 ^ 30 = 0 \<and> num_pages mod 2 ^ 18 = 0
     then
       bind_out (pml4_index virt_start) (\<lambda>i4.
       bind_out (pdpt_index virt_start) (\<lambda>i3.
       bind_out (loader_get_or_alloc m self i4) (\<lambda>(m1, r).
       case r of Inl err \<Rightarrow> Inr (m1, Inl err)
       | Inr pdpt \<Rightarrow> loader_map_1gib pdpt i3 phys_start attr 0 (num_pages div 2 ^ 18) m1)))
     else
       bind_out (loader_map_levels m self virt_start [4, 3, 2]) (\<lambda>(m1, r).
       case r of Inl err \<Rightarrow> Inr (m1, Inl err)
       | Inr node \<Rightarrow>
           bind_out (pt_index virt_start) (\<lambda>start_index.
           loader_map_4kib self attr start_index 0 num_pages m1 node virt_start phys_start))))"

definition loader_create_mapping :: "lmem \<Rightarrow> usize \<Rightarrow> VirtAddr \<Rightarrow> PhysAddr \<Rightarrow> MSize \<Rightarrow> PageTableAttr \<Rightarrow>
    (lmem \<times> unit rust_result) outcome" where
  "loader_create_mapping m self virt_start phys_start sz attr =
     loader_map_range m self virt_start phys_start
       (div_ceil (unat (msize_usize sz)) (unat LOADER_PAGE_SIZE)) attr"

section \<open>init\_early\_paging\<close>

definition loader_read_cr3 :: "lmem \<Rightarrow> usize" where
  "loader_read_cr3 m = l_cr3 m"

definition loader_write_cr3 :: "lmem \<Rightarrow> usize \<Rightarrow> lmem" where
  "loader_write_cr3 m v = m\<lparr>l_cr3 := v\<rparr>"

definition get_pml4_from_cr3 :: "lmem \<Rightarrow> PageTableNode outcome" where
  "get_pml4_from_cr3 m = (case l_nodes m (loader_read_cr3 m) of None \<Rightarrow> Inl Bad_pointer | Some n \<Rightarrow> Inr n)"

text \<open>The table is read by value.\<close>

definition get_page_table_from_cr3 :: "lmem \<Rightarrow> PageTableNode outcome" where
  "get_page_table_from_cr3 m = get_pml4_from_cr3 m"

text \<open>\<open>slot\<close> is the address of the local variable \<open>page_table\<close>.\<close>

definition init_early_paging :: "usize \<Rightarrow> PhysAddr \<Rightarrow> VirtAddr \<Rightarrow> MSize \<Rightarrow> lmem \<Rightarrow> lmem outcome" where
  "init_early_paging slot kernel_start_phys kernel_start_virt sz m =
     bind_out (get_page_table_from_cr3 m) (\<lambda>pml4.
     bind_out (loader_create_mapping (m\<lparr>l_nodes := (l_nodes m)(slot \<mapsto> pml4)\<rparr>) slot
                 (loader_virt_new KERNEL_DIRECT_START) (PhysAddr 0) (MSize KERNEL_DIRECT_SIZE)
                 ReadWriteKernel1GiB) (\<lambda>(m1, r1).
     bind_out (unwrap_result r1) (\<lambda>_.
     bind_out (align_up_to_page sz) (\<lambda>asz.
     bind_out (loader_create_mapping m1 slot kernel_start_virt kernel_start_phys asz ReadWriteExecuteKernel) (\<lambda>(m2, r2).
     bind_out (unwrap_result r2) (\<lambda>_.
     Inr (loader_write_cr3 m2 slot)))))))"

section \<open>Canonical addresses\<close>

lemma no_high_bit:
  fixes x :: u64
  assumes "unat x < 2 ^ k" "k \<le> n"
  shows "\<not> bit x n"
proof
  assume "bit x n"
  then have "bit (unat x) n" by (simp add: bit_unsigned_iff)
  then have "odd (unat x div 2 ^ n)" unfolding bit_iff_odd .
  moreover have "(2 :: nat) ^ k \<le> 2 ^ n" using assms(2) by (rule power_increasing) simp
  then have "unat x div 2 ^ n = 0" using assms(1) by (intro div_less) (rule less_le_trans)
  ultimately show False by (simp only: even_zero not_True_eq_False)
qed

lemma and_shifted_one: "x AND push_bit n 1 = 0 \<longleftrightarrow> \<not> bit x n" for x :: u64
  by (simp add: and_exp_eq_0_iff_not_bit)

lemma canonicalize_low: "unat x < 2 ^ 47 \<Longrightarrow> canonicalize x = x"
proof -
  assume x: "unat x < 2 ^ 47"
  have m: "(0xFFFFFFFFFFFF :: u64) = mask 48" by (simp add: mask_eq_exp_minus_1)
  have "bit (x AND mask 48) n = bit x n" for n
    using no_high_bit [OF x, of n] by (cases "47 \<le> n") (auto simp: bit_simps)
  then have "x AND mask 48 = x" by (intro bit_word_eqI)
  moreover have "x AND push_bit 47 1 = 0" using no_high_bit [OF x order_refl] by (simp only: and_shifted_one) simp
  ultimately show ?thesis unfolding canonicalize_def m by simp
qed

lemma canonicalize_high: "2 ^ 64 - 2 ^ 47 \<le> unat x \<Longrightarrow> canonicalize x = x"
proof -
  assume x: "2 ^ 64 - 2 ^ 47 \<le> unat x"
  have "NOT x = - 1 - x" by (simp add: not_eq_complement)
  then have "unat (NOT x) = unat (- 1 :: u64) - unat x" by (simp only: unat_sub [OF word_n1_ge])
  then have n: "unat (NOT x) < 2 ^ 47"
    using x by (simp add: unsigned_minus_1_eq_mask mask_eq_exp_minus_1)
  have high: "bit x n" if "47 \<le> n" "n < 64" for n
    using no_high_bit [OF n that(1)] that(2) by (simp add: bit_simps)
  have m: "(0xFFFF000000000000 :: u64) = push_bit 48 (mask 16)" by (simp add: mask_eq_exp_minus_1 push_bit_eq_mult)
  have "bit (x OR push_bit 48 (mask 16)) n = bit x n" for n
    using high [of n] by (auto simp: bit_simps)
  then have "x OR push_bit 48 (mask 16) = x" by (intro bit_word_eqI)
  moreover have "x AND push_bit 47 1 \<noteq> 0" using high [of 47] by (simp only: and_shifted_one) simp
  ultimately show ?thesis unfolding canonicalize_def m by simp
qed

lemma canonicalize_canonical: "canonical x \<Longrightarrow> canonicalize x = x"
  using canonicalize_low canonicalize_high by (auto simp: canonical_def)

lemma loader_next_page:
  assumes "unat (virt_usize va) = 4096 * n" "4096 * (n + 1) < 2 ^ 64" "canonical_page (n + 1)"
  shows "Inr (loader_virt_add va LOADER_PAGE_SIZE) = (Inr (VirtAddr (virt_usize va + 4096)) :: VirtAddr outcome)"
proof -
  have "unat (virt_usize va + 4096) = 4096 * (n + 1)" using assms(1,2) by (simp add: unat_add_no_wrap)
  then have "canonical (virt_usize va + 4096)" using assms(3) by (auto simp: canonical_def canonical_page_def)
  then show ?thesis
    by (simp add: loader_virt_add_def loader_virt_new_def LOADER_PAGE_SIZE_def canonicalize_canonical)
qed

section \<open>The laws of a table memory\<close>

text \<open>Where the loader finds the node of an entry.\<close>

definition lptr :: "PageTableEntry \<Rightarrow> usize" where
  "lptr e = phys_usize (pte_paddr e)"

text \<open>The blocks that the allocator returns are page frames outside of the tables and distinct.\<close>

definition lmem_inv :: "lmem \<Rightarrow> bool" where
  "lmem_inv m \<longleftrightarrow> distinct (l_pool m) \<and> (\<forall>p \<in> set (l_pool m). frame_addr p \<and> p \<notin> dom (l_nodes m))"

definition lroom :: "lmem \<Rightarrow> nat \<Rightarrow> bool" where
  "lroom m k \<longleftrightarrow> k \<le> length (l_pool m)"

lemma lroom_mono: "lroom m k \<Longrightarrow> j \<le> k \<Longrightarrow> lroom m j"
  by (simp add: lroom_def)

lemma loader_read_entry_ok:
  "l_nodes m a = Some n \<Longrightarrow> i < length (entries n) \<Longrightarrow> loader_read_entry m a i = Inr (entries n ! i)"
  by (simp add: loader_read_entry_def)

lemma loader_write_entry_ok:
  "l_nodes m a = Some n \<Longrightarrow> i < length (entries n) \<Longrightarrow>
     loader_write_entry m a i e = Inr (m\<lparr>l_nodes := write_node (l_nodes m) a i e\<rparr>)"
  by (simp add: loader_write_entry_def)

lemma loader_descend_present:
  assumes "lmem_inv m" "l_nodes m a = Some n" "i < length (entries n)" "present (entries n ! i)"
    "lptr (entries n ! i) \<in> dom (l_nodes m)"
  shows "loader_get_or_alloc m a i = Inr (m, Inr (lptr (entries n ! i)))"
  using assms by (simp add: loader_get_or_alloc_def loader_read_entry_ok loader_next_node_mut_def lptr_def)

lemma loader_descend_absent:
  assumes inv: "lmem_inv m" and r: "lroom m (Suc k)"
    and n: "l_nodes m a = Some n" "i < length (entries n)" "\<not> present (entries n ! i)"
  shows "\<exists>m' v. loader_get_or_alloc m a i = Inr (m', Inr (lptr v)) \<and> lptr v \<notin> dom (l_nodes m) \<and>
    table_entry v \<and> l_nodes m' = hang lptr (l_nodes m) a i v \<and> lmem_inv m' \<and> lroom m' k \<and> l_cr3 m' = l_cr3 m"
proof -
  obtain p ps where pool: "l_pool m = p # ps" using r by (cases "l_pool m") (auto simp: lroom_def)
  have p: "frame_addr (phys_usize (PhysAddr p))" "p \<notin> dom (l_nodes m)" using inv pool by (auto simp: lmem_inv_def)
  define v where "v = leaf_entry (PhysAddr p) ReadWriteExecuteKernel"
  have v: "lptr v = p" "table_entry v" "present v"
    using leaf_entry_paddr [OF p(1)] leaf_entry_flags(1,4) [OF p(1), of ReadWriteExecuteKernel]
    by (simp_all add: v_def lptr_def table_entry_def)
  let ?m1 = "m\<lparr>l_pool := ps, l_nodes := (l_nodes m)(p \<mapsto> zeroed_node)\<rparr>"
  let ?m = "?m1\<lparr>l_nodes := write_node (l_nodes ?m1) a i v\<rparr>"
  have hang: "l_nodes ?m = hang lptr (l_nodes m) a i v" by (simp add: hang_def v(1))
  have "a \<noteq> p" using n(1) p(2) by blast
  then have n1: "l_nodes ?m1 a = Some n" using n(1) by simp
  have alloc: "loader_alloc_next_level_table m (entries n ! i) = Inr (?m1, v, Inr ())"
    using n(3) by (cases "entries n ! i")
      (simp add: loader_alloc_next_level_table_def loader_box_node_def pool v_def leaf_entry_def)
  have "loader_get_or_alloc m a i = Inr (?m, Inr p)"
    using n n1 alloc v by (simp add: loader_get_or_alloc_def loader_read_entry_def loader_write_entry_def
        loader_next_node_mut_def write_node_def lptr_def)
  moreover have "lmem_inv ?m" using inv pool by (auto simp: lmem_inv_def simp del: fun_upd_apply)
  moreover have "lroom ?m k" using r pool by (simp add: lroom_def)
  ultimately show ?thesis using hang v p(2) by (intro exI [of _ ?m] exI [of _ v]) simp
qed

section \<open>The steps of the loops\<close>

lemma loader_map_levels_step:
  "nth_level_table_index va l = Inr i \<Longrightarrow> loader_get_or_alloc m node i = Inr (m1, Inr b) \<Longrightarrow>
     loader_map_levels m node va (l # ls) = loader_map_levels m1 b va ls"
  by simp

lemma loader_map_1gib_step:
  assumes "loader_read_entry m b (i3 + i) = Inr e" "mul_chk (of_nat i) (2 ^ 30) = Inr off"
    "add_chk (phys_usize phys) off = Inr pa" "frame_addr pa"
    "loader_write_entry m b (i3 + i) (leaf_entry (PhysAddr pa) attr) = Inr m1"
  shows "loader_map_1gib b i3 phys attr i (Suc k) m = loader_map_1gib b i3 phys attr (Suc i) k m1"
proof -
  have "set_entry e (PhysAddr pa) attr = (leaf_entry (PhysAddr pa) attr, Inr ())"
    using assms(4) by (simp add: set_entry_ok)
  then show ?thesis by (simp only: loader_map_1gib.simps assms bind_out_Inr prod.case sum.case)
qed

lemma loader_map_4kib_step:
  assumes "(if (s + i) mod 512 = 0 \<and> i \<noteq> 0 then loader_map_levels m root va [4, 3, 2] else Inr (m, Inr node)) =
      Inr (m1, Inr b)"
    "loader_read_entry m1 b ((s + i) mod 512) = Inr e" "frame_addr (phys_usize pa)"
    "loader_write_entry m1 b ((s + i) mod 512) (leaf_entry pa attr) = Inr m2"
    "Inr (loader_virt_add va LOADER_PAGE_SIZE) = (Inr va1 :: VirtAddr outcome)" "add_chk (phys_usize pa) 4096 = Inr pa1"
  shows "loader_map_4kib root attr s i (Suc k) m node va pa =
    loader_map_4kib root attr s (Suc i) k m2 b va1 (PhysAddr pa1)"
proof -
  have "set_entry e pa attr = (leaf_entry pa attr, Inr ())" using assms(3) by (rule set_entry_ok)
  moreover have "add_chk (phys_usize pa) LOADER_PAGE_SIZE = Inr pa1" using assms(6) by (simp add: LOADER_PAGE_SIZE_def)
  moreover have "loader_virt_add va LOADER_PAGE_SIZE = va1" using assms(5) by simp
  ultimately show ?thesis
    by (simp only: loader_map_4kib.simps Let_def assms(1,2,4) bind_out_Inr prod.case sum.case)
qed

lemma loader_page_size: "unat LOADER_PAGE_SIZE = 4096"
  by (simp add: LOADER_PAGE_SIZE_def)

lemma loader_map_range_4kib_steps:
  assumes "4096 dvd unat va" "4096 dvd unat pa"
    "\<not> (attr = ReadWriteKernel1GiB \<and> 2 ^ 30 dvd unat va \<and> 2 ^ 30 dvd unat pa \<and> 2 ^ 18 dvd k)"
    "loader_map_levels m root (VirtAddr va) [4, 3, 2] = Inr (m1, Inr b)" "pt_index (VirtAddr va) = Inr s"
  shows "loader_map_range m root (VirtAddr va) (PhysAddr pa) k attr =
    loader_map_4kib root attr s 0 k m1 b (VirtAddr va) (PhysAddr pa)"
  using assms(1,2) unfolding loader_map_range_def dvd_eq_mod_eq_0 [symmetric] loader_page_size
  by (simp only: VirtAddr.sel PhysAddr.sel assms(3-5) if_False rust_assert_def if_True bind_out_Inr prod.case sum.case)

lemma loader_map_range_1gib_steps:
  assumes "4096 dvd unat va" "4096 dvd unat pa" "2 ^ 30 dvd unat va" "2 ^ 30 dvd unat pa"
    "pml4_index (VirtAddr va) = Inr i4" "pdpt_index (VirtAddr va) = Inr i3"
    "loader_get_or_alloc m root i4 = Inr (m1, Inr b)"
  shows "loader_map_range m root (VirtAddr va) (PhysAddr pa) (2 ^ 18 * g) ReadWriteKernel1GiB =
    loader_map_1gib b i3 (PhysAddr pa) ReadWriteKernel1GiB 0 g m1"
proof -
  have d: "2 ^ 18 * g div 2 ^ 18 = g" "2 ^ 18 dvd 2 ^ 18 * g" by simp_all
  show ?thesis
    using assms unfolding loader_map_range_def dvd_eq_mod_eq_0 [symmetric] loader_page_size
    by (simp only: VirtAddr.sel PhysAddr.sel d simp_thms if_True rust_assert_def bind_out_Inr prod.case sum.case)
qed

lemma loader_create_mapping_pages:
  "loader_create_mapping m root va pa (MSize sz) attr = loader_map_range m root va pa (pages sz) attr"
  by (simp add: loader_create_mapping_def loader_page_size)

interpretation lpages: page_mapper l_nodes "\<lambda>m M. m\<lparr>l_nodes := M\<rparr>" lptr lmem_inv lroom l_cr3 loader_read_entry
  loader_write_entry loader_get_or_alloc "\<lambda>va. Inr (loader_virt_add va LOADER_PAGE_SIZE)" canonical_page
  loader_map_levels loader_map_1gib loader_map_4kib loader_map_range loader_create_mapping
  by unfold_locales
    ((rule loader_read_entry_ok loader_write_entry_ok loader_descend_present loader_descend_absent loader_next_page
        lroom_mono loader_map_levels_step loader_map_1gib_step loader_map_4kib_step loader_map_range_4kib_steps
        loader_map_range_1gib_steps loader_create_mapping_pages; assumption) |
      simp add: lmem_inv_def lroom_def)+

section \<open>What init\_early\_paging builds\<close>

text \<open>
  The address space of the firmware, extended by the direct mapping of the lower 512 GiB and by
  the image of the kernel.
\<close>

definition early_space :: "address_space \<Rightarrow> usize \<Rightarrow> nat \<Rightarrow> usize \<Rightarrow> address_space" where
  "early_space A kv k kp =
     map_spec (map_gib_spec A (0xFFFF888000000000 div 4096) 512 0) (unat kv div 4096) k kp ReadWriteExecuteKernel"

lemma align_up_to_page_ok:
  assumes "unat sz + 4096 < 2 ^ 64"
  obtains a where "align_up_to_page (MSize sz) = Inr (MSize a)" "pages a = pages sz" "unat a < unat sz + 4096"
proof -
  let ?a = "(sz + 4095) AND NOT 4095"
  have pow: "is_power_of_two 4096" by (simp add: is_power_of_two_def)
  have a: "unat ?a = align_up_nat 4096 (unat sz)" using align_round [OF pow, of sz] assms by simp
  have c: "4096 * pages sz = align_up_nat 4096 (unat sz)"
  proof (rule antisym)
    show "align_up_nat 4096 (unat sz) \<le> 4096 * pages sz"
      using pages_bounds(1) [of sz] by (intro align_up_nat_least) simp_all
    obtain k where k: "align_up_nat 4096 (unat sz) = 4096 * k" using align_up_nat_dvd by (metis dvdE)
    have "unat sz \<le> 4096 * k" using align_up_nat_ge [of 4096 "unat sz"] unfolding k by simp
    then have "4096 * pages sz < 4096 * (k + 1)" using pages_bounds(2) [of sz] by simp
    then show "4096 * pages sz \<le> align_up_nat 4096 (unat sz)" unfolding k by simp
  qed
  have "pages ?a = pages sz" unfolding a c [symmetric] by (simp add: div_ceil_def)
  moreover have "align_up_to_page (MSize sz) = Inr (MSize ?a)"
  proof -
    have u: "unat (sz + 4096) = unat sz + 4096" using assms by (simp add: unat_add_no_wrap)
    then have "1 \<le> sz + 4096" by (simp add: word_le_nat_alt)
    then have "add_chk sz 4096 = Inr (sz + 4096)" "sub_chk (sz + 4096) 1 = Inr (sz + 4096 - 1)" "sub_chk 4096 1 = Inr (4095 :: usize)"
      using assms by (simp_all add: add_chk_def sub_chk_def)
    moreover have "sz + 4096 - 1 = sz + 4095" by simp
    ultimately show ?thesis
      by (simp only: align_up_to_page_def LOADER_PAGE_SIZE_def MSize.sel bind_out_Inr)
  qed
  moreover have "unat ?a < unat sz + 4096" unfolding a by (rule align_up_nat_less) simp
  ultimately show ?thesis using that by blast
qed

lemma direct_mapping_ok:
  assumes ok: "lmem_inv m" "tree_inv lptr (l_nodes m) root" "top_ok (l_nodes m) root" and r: "lroom m (Suc r)"
  obtains m' where "loader_create_mapping m root (loader_virt_new KERNEL_DIRECT_START) (PhysAddr 0)
      (MSize KERNEL_DIRECT_SIZE) ReadWriteKernel1GiB = Inr (m', Inr ())"
    "lmem_inv m'" "tree_inv lptr (l_nodes m') root" "lroom m' r"
    "space lptr (l_nodes m') root = map_gib_spec (space lptr (l_nodes m) root) (0xFFFF888000000000 div 4096) 512 0"
proof -
  have v: "loader_virt_new KERNEL_DIRECT_START = VirtAddr 0xFFFF888000000000"
    by (simp add: loader_virt_new_def KERNEL_DIRECT_START_def canonicalize_canonical canonical_def)
  have "unat KERNEL_DIRECT_SIZE = 2 ^ 30 * 512" by (simp add: KERNEL_DIRECT_SIZE_def)
  note p = pages_gib [OF this]
  have "\<exists>m'. loader_map_range m root (VirtAddr 0xFFFF888000000000) (PhysAddr 0) (2 ^ 18 * 512) ReadWriteKernel1GiB =
      Inr (m', Inr ()) \<and> (lmem_inv m' \<and> tree_inv lptr (l_nodes m') root) \<and> l_cr3 m' = l_cr3 m \<and> lroom m' r \<and>
    space lptr (l_nodes m') root = map_gib_spec (space lptr (l_nodes m) root) (2 ^ 18 * 0x3FFFE2200) 512 0"
    by (rule lpages.map_gib_refines) (use ok r in simp_all)
  then show ?thesis using that unfolding loader_create_mapping_pages v p by auto
qed

lemma kernel_page_high:
  assumes "0xFFFFFFFF80000000 \<le> unat kv" "unat kv + 4096 * k \<le> 2 ^ 64" "4096 dvd unat kv" "j < k"
  shows "canonical_page (unat kv div 4096 + j)" "0xFFFFFFFF80000 \<le> unat kv div 4096 + j"
proof -
  have "0xFFFFFFFF80000000 div 4096 \<le> unat kv div 4096" using assms(1) by (rule div_le_mono)
  then show l: "0xFFFFFFFF80000 \<le> unat kv div 4096 + j" by simp
  have "4096 * (unat kv div 4096 + j) < 2 ^ 64" using assms(2-4) by simp
  then show "canonical_page (unat kv div 4096 + j)" using l by (simp add: canonical_page_def)
qed

lemma open_above_direct:
  assumes "canonical_page p" "0xFFFFFFFF80000 \<le> p" "\<forall>k e. A p = Some (k, e) \<longrightarrow> k = 0"
    "space ptr M root = map_gib_spec A (0xFFFF888000000000 div 4096) 512 0"
  shows "open_path ptr M root (page_path p)"
  unfolding open_path_space assms(4) using linear_hit [OF assms(1)] assms(2,3) by (simp add: map_gib_spec_def)

lemma init_early_paging_ok:
  assumes inv: "lmem_inv m" and tree: "tree_inv lptr (l_nodes m) (l_cr3 m)" "top_ok (l_nodes m) (l_cr3 m)"
    and slot: "slot \<notin> dom (l_nodes m)" "slot \<notin> set (l_pool m)"
    and kv: "4096 dvd unat kv" "0xFFFFFFFF80000000 \<le> unat kv" "unat kv + unat sz + 8192 \<le> 2 ^ 64"
    and kp: "4096 dvd unat kp" "unat kp + unat sz + 8192 \<le> 2 ^ 63"
    and free: "\<forall>j k e. j < max (pages sz) 1 \<longrightarrow>
      space lptr (l_nodes m) (l_cr3 m) (unat kv div 4096 + j) = Some (k, e) \<longrightarrow> k = 0"
    and r: "lroom m (Suc (3 * (pages sz div 512) + 6 + r))"
  obtains m' where "init_early_paging slot (PhysAddr kp) (VirtAddr kv) (MSize sz) m = Inr m'" "l_cr3 m' = slot"
    "lmem_inv m'" "tree_inv lptr (l_nodes m') slot" "lroom m' r"
    "space lptr (l_nodes m') slot = early_space (space lptr (l_nodes m) (l_cr3 m)) kv (pages sz) kp"
proof -
  let ?A = "space lptr (l_nodes m) (l_cr3 m)"
  obtain n where n: "l_nodes m (l_cr3 m) = Some n" using tree_invD(2) [OF tree(1)] by blast
  then have "same_entries n n" using tree_invD(1) [OF tree(1)] by (simp add: same_entries_def)
  note root = second_root [OF tree(1) n slot(1) this]
  define m0 where "m0 = m\<lparr>l_nodes := (l_nodes m)(slot \<mapsto> n)\<rparr>"
  have m0: "lmem_inv m0" "tree_inv lptr (l_nodes m0) slot" "top_ok (l_nodes m0) slot"
      "lroom m0 (Suc (3 * (pages sz div 512) + 6 + r))" "space lptr (l_nodes m0) slot = ?A"
    using inv slot root(1,3) tree(2) n r by (auto simp: m0_def lmem_inv_def lroom_def top_ok_def space_def)
  obtain m1 where m1: "loader_create_mapping m0 slot (loader_virt_new KERNEL_DIRECT_START) (PhysAddr 0)
      (MSize KERNEL_DIRECT_SIZE) ReadWriteKernel1GiB = Inr (m1, Inr ())"
    "lmem_inv m1" "tree_inv lptr (l_nodes m1) slot" "lroom m1 (3 * (pages sz div 512) + 6 + r)"
    "space lptr (l_nodes m1) slot = map_gib_spec ?A (0xFFFF888000000000 div 4096) 512 0"
    by (rule direct_mapping_ok [OF m0(1-4)]) (simp add: m0(5))
  obtain a where a: "align_up_to_page (MSize sz) = Inr (MSize a)" "pages a = pages sz" "unat a < unat sz + 4096"
    using align_up_to_page_ok [of sz] kv(3) by auto
  have open_path: "open_path lptr (l_nodes m1) slot (page_path (unat kv div 4096 + j))" if "j < max (pages a) 1" for j
    using kernel_page_high [OF kv(2) _ kv(1), of "max (pages sz) 1" j] that free a(2) kv(3) pages_bounds(2) [of sz]
    by (intro open_above_direct [OF _ _ _ m1(5)]) auto
  have next_ok: "canonical_page (unat kv div 4096 + j + 1)" if "j < pages a" for j
    using kernel_page_high(1) [OF kv(2) _ kv(1), of "pages sz + 1" "j + 1"] that a(2) kv(3) pages_bounds(2) [of sz] by simp
  have ok1: "lmem_inv m1 \<and> tree_inv lptr (l_nodes m1) slot" using m1(2,3) ..
  have big: "unat kv + unat a + 4096 \<le> 2 ^ 64" "unat a \<le> 2 ^ 48" "unat kp + unat a + 4096 \<le> 2 ^ 63"
    using kv(2,3) kp(2) a(3) by simp_all
  have r1: "lroom m1 (3 * (pages a div 512) + 6 + r)" using m1(4) by (simp only: a(2))
  have at: "ReadWriteExecuteKernel \<noteq> ReadWriteKernel1GiB" by simp
  obtain m2 where m2: "loader_create_mapping m1 slot (VirtAddr kv) (PhysAddr kp) (MSize a) ReadWriteExecuteKernel =
      Inr (m2, Inr ())" "lmem_inv m2" "tree_inv lptr (l_nodes m2) slot" "lroom m2 r"
    "space lptr (l_nodes m2) slot = early_space ?A kv (pages sz) kp"
    using lpages.create_refines [OF ok1 kv(1) big(1,2) next_ok kp(1) big(3) at open_path r1]
    unfolding m1(5) a(2) early_space_def by blast
  have "init_early_paging slot (PhysAddr kp) (VirtAddr kv) (MSize sz) m = Inr (loader_write_cr3 m2 slot)"
    using m1(1) a(1) m2(1) n
    by (simp add: init_early_paging_def get_page_table_from_cr3_def get_pml4_from_cr3_def loader_read_cr3_def m0_def)
  then show ?thesis
    using m2(2-5) by (intro that [of "loader_write_cr3 m2 slot"]) (simp_all add: loader_write_cr3_def lmem_inv_def lroom_def)
qed

lemma early_space_translates:
  assumes kv: "4096 dvd unat kv" "0xFFFFFFFF80000000 \<le> unat kv" "unat kv + 4096 * k \<le> 2 ^ 64"
    and kp: "4096 dvd unat kp" "unat kp + 4096 * k \<le> 2 ^ 63"
  shows "unat kv \<le> unat x \<Longrightarrow> unat x < unat kv + 4096 * k \<Longrightarrow>
      \<exists>e. translate_in (early_space A kv k kp) x = Some (kp + (x - kv), e) \<and> writable e \<and> \<not> no_exec e \<and> \<not> user e"
    "0xFFFF888000000000 \<le> unat x \<Longrightarrow> unat x < 0xFFFF890000000000 \<Longrightarrow>
      \<exists>e. translate_in (early_space A kv k kp) x = Some (x - 0xFFFF888000000000, e) \<and> writable e \<and> no_exec e \<and> \<not> user e"
    "unat x < 2 ^ 47 \<Longrightarrow> translate_in (early_space A kv k kp) x = translate_in A x"
proof -
  have k: "k \<le> 2 ^ 36" using kv(2,3) by simp
  let ?G = "map_gib_spec A (0xFFFF888000000000 div 4096) 512 0"
  show "\<exists>e. translate_in (early_space A kv k kp) x = Some (kp + (x - kv), e) \<and> writable e \<and> \<not> no_exec e \<and> \<not> user e"
    if x: "unat kv \<le> unat x" "unat x < unat kv + 4096 * k"
  proof -
    obtain e where "translate_in (map_spec ?G (unat kv div 4096) k kp ReadWriteExecuteKernel) x = Some (kp + (x - kv), e)"
      "writable e" "\<not> no_exec e" "\<not> user e"
      by (rule translate_page_in [OF kv(1) kp k _ x, of ReadWriteExecuteKernel ?G]) auto
    then show ?thesis unfolding early_space_def by blast
  qed
  have outside: "translate_in (early_space A kv k kp) x = translate_in ?G x" if x: "canonical x" "unat x < unat kv"
  proof -
    have "\<not> page_off (unat kv div 4096) (unat x div 4096) < k"
      using page_off_canonical [OF canonical_page_of [OF x(1)] kernel_page_high(1) [OF kv(2,3,1)] k]
        page_interval [OF kv(1), of "unat x" k] x(2) by simp
    then show ?thesis unfolding early_space_def by (intro translate_page_out) simp
  qed
  show "\<exists>e. translate_in (early_space A kv k kp) x = Some (x - 0xFFFF888000000000, e) \<and> writable e \<and> no_exec e \<and> \<not> user e"
    if x: "0xFFFF888000000000 \<le> unat x" "unat x < 0xFFFF890000000000"
  proof -
    have x': "unat (0xFFFF888000000000 :: usize) \<le> unat x" "unat x < unat (0xFFFF888000000000 :: usize) + 2 ^ 30 * 512"
      using x by simp_all
    have g: "unat (0xFFFF888000000000 :: usize) = 2 ^ 30 * 0x3FFFE2200" "2 ^ 30 dvd unat (0 :: usize)"
      "unat (0 :: usize) + 2 ^ 30 * 512 \<le> 2 ^ 63" "(512 :: nat) \<le> 512" by simp_all
    obtain e where "translate_in (map_gib_spec A (2 ^ 18 * 0x3FFFE2200) 512 0) x = Some (0 + (x - 0xFFFF888000000000), e)"
      "writable e" "no_exec e" "\<not> user e"
      by (rule translate_gib_in [OF g x', of A])
    moreover have "translate_in (early_space A kv k kp) x = translate_in ?G x"
      by (rule outside) (use x kv(2) in \<open>simp_all add: canonical_def\<close>)
    ultimately show ?thesis by auto
  qed
  show "translate_in (early_space A kv k kp) x = translate_in A x" if x: "unat x < 2 ^ 47"
  proof -
    have c: "canonical x" using x by (simp add: canonical_def)
    have "unat x div 4096 < 0xFFFF888000000" using x by (simp add: less_mult_imp_div_less)
    then have "\<not> page_off (0xFFFF888000000000 div 4096) (unat x div 4096) < 2 ^ 18 * 512"
      using linear_hit [OF canonical_page_of [OF c]] by simp
    then have "translate_in ?G x = translate_in A x" by (intro translate_gib_out) simp
    moreover have "translate_in (early_space A kv k kp) x = translate_in ?G x"
      by (rule outside [OF c]) (use x kv(2) in simp)
    ultimately show ?thesis by simp
  qed
qed

text \<open>
  C7: \<open>init_early_paging\<close> loads an address space in which the kernel can start.  From the firmware's
  tables, with enough blocks from the allocator and no large page over the kernel's addresses, it
  does not fail; \<open>CR3\<close> then holds the table on the loader's stack, every address of the kernel
  image translates to the physical address at the same offset and is writable and executable,
  the direct mapping translates to the lower 512 GiB of physical memory, and the lower half
  of the address space, in which the loader itself runs, translates as under the firmware.
\<close>

theorem init_early_paging_maps:
  assumes "lmem_inv m" "tree_inv lptr (l_nodes m) (l_cr3 m)" "top_ok (l_nodes m) (l_cr3 m)"
    and "slot \<notin> dom (l_nodes m)" "slot \<notin> set (l_pool m)"
    and "4096 dvd unat kv" "0xFFFFFFFF80000000 \<le> unat kv" "unat kv + unat sz + 8192 \<le> 2 ^ 64"
    and "4096 dvd unat kp" "unat kp + unat sz + 8192 \<le> 2 ^ 63"
    and "\<forall>j k e. j < max (pages sz) 1 \<longrightarrow>
      space lptr (l_nodes m) (l_cr3 m) (unat kv div 4096 + j) = Some (k, e) \<longrightarrow> k = 0"
    and "lroom m (3 * (pages sz div 512) + 7)"
  shows "\<exists>m'. init_early_paging slot (PhysAddr kp) (VirtAddr kv) (MSize sz) m = Inr m' \<and> l_cr3 m' = slot \<and>
    tree_inv lptr (l_nodes m') slot \<and>
    (\<forall>x. unat kv \<le> unat x \<longrightarrow> unat x < unat kv + unat sz \<longrightarrow>
      (\<exists>e. translate_in (space lptr (l_nodes m') slot) x = Some (kp + (x - kv), e) \<and> writable e \<and> \<not> no_exec e)) \<and>
    (\<forall>x. 0xFFFF888000000000 \<le> unat x \<longrightarrow> unat x < 0xFFFF890000000000 \<longrightarrow>
      (\<exists>e. translate_in (space lptr (l_nodes m') slot) x = Some (x - 0xFFFF888000000000, e) \<and> writable e \<and> no_exec e)) \<and>
    (\<forall>x. unat x < 2 ^ 47 \<longrightarrow>
      translate_in (space lptr (l_nodes m') slot) x = translate_in (space lptr (l_nodes m) (l_cr3 m)) x)"
proof -
  have r: "lroom m (Suc (3 * (pages sz div 512) + 6 + 0))" using assms(12) by (simp add: lroom_def)
  obtain m' where m': "init_early_paging slot (PhysAddr kp) (VirtAddr kv) (MSize sz) m = Inr m'" "l_cr3 m' = slot"
    "lmem_inv m'" "tree_inv lptr (l_nodes m') slot" "lroom m' 0"
    "space lptr (l_nodes m') slot = early_space (space lptr (l_nodes m) (l_cr3 m)) kv (pages sz) kp"
    by (rule init_early_paging_ok [OF assms(1-11) r])
  note pb = pages_bounds [of sz]
  have b: "unat kv + 4096 * pages sz \<le> 2 ^ 64" "unat kp + 4096 * pages sz \<le> 2 ^ 63"
    using assms(8,10) pb(2) by simp_all
  note t = early_space_translates [OF assms(6,7) b(1) assms(9) b(2)]
  have "\<exists>e. translate_in (space lptr (l_nodes m') slot) x = Some (kp + (x - kv), e) \<and> writable e \<and> \<not> no_exec e"
    if "unat kv \<le> unat x" "unat x < unat kv + unat sz" for x
  proof -
    have "unat x < unat kv + 4096 * pages sz" using that(2) pb(1) by linarith
    from t(1) [OF that(1) this] show ?thesis unfolding m'(6) by blast
  qed
  moreover have "\<exists>e. translate_in (space lptr (l_nodes m') slot) x = Some (x - 0xFFFF888000000000, e) \<and> writable e \<and> no_exec e"
    if "0xFFFF888000000000 \<le> unat x" "unat x < 0xFFFF890000000000" for x
    using t(2) [OF that] unfolding m'(6) by blast
  moreover have "translate_in (space lptr (l_nodes m') slot) x = translate_in (space lptr (l_nodes m) (l_cr3 m)) x"
    if "unat x < 2 ^ 47" for x
    using t(3) [OF that] unfolding m'(6) .
  ultimately show ?thesis using m'(1,2,4) by (intro exI [of _ m'] conjI allI impI)
qed

text \<open>An empty root table of the firmware, and ten free blocks.\<close>

definition example_lmem :: lmem where
  "example_lmem = \<lparr>l_nodes = [0x1000 \<mapsto> zeroed_node], l_cr3 = 0x1000,
     l_pool = [0x10000, 0x11000, 0x12000, 0x13000, 0x14000, 0x15000, 0x16000, 0x17000, 0x18000, 0x19000]\<rparr>"

lemma example_lmem_ok:
  "lmem_inv example_lmem" "tree_inv lptr (l_nodes example_lmem) (l_cr3 example_lmem)"
  "top_ok (l_nodes example_lmem) (l_cr3 example_lmem)" "lroom example_lmem 10"
  "space lptr (l_nodes example_lmem) (l_cr3 example_lmem) = (\<lambda>_. None)"
proof -
  show "lmem_inv example_lmem" by (simp add: lmem_inv_def example_lmem_def frame_addr_arith)
  show "lroom example_lmem 10" by (simp add: lroom_def example_lmem_def)
qed (rule zeroed_root; simp add: example_lmem_def split: if_splits)+

theorem init_early_paging_maps_witness:
  "\<exists>m'. init_early_paging 0x2000 (PhysAddr 0x100000) (VirtAddr 0xFFFFFFFF80100000) (MSize 0x1800) example_lmem = Inr m' \<and>
    (\<exists>e. translate_in (space lptr (l_nodes m') 0x2000) 0xFFFFFFFF80101234 = Some (0x101234, e))"
proof -
  have p: "pages 0x1800 = 2" by (simp add: div_ceil_def)
  have slot: "0x2000 \<notin> dom (l_nodes example_lmem)" "0x2000 \<notin> set (l_pool example_lmem)"
    by (simp_all add: example_lmem_def)
  have k: "4096 dvd unat (0xFFFFFFFF80100000 :: usize)" "0xFFFFFFFF80000000 \<le> unat (0xFFFFFFFF80100000 :: usize)"
    "unat (0xFFFFFFFF80100000 :: usize) + unat (0x1800 :: usize) + 8192 \<le> 2 ^ 64"
    "4096 dvd unat (0x100000 :: usize)" "unat (0x100000 :: usize) + unat (0x1800 :: usize) + 8192 \<le> 2 ^ 63" by simp_all
  have free: "\<forall>j k e. j < max (pages 0x1800) 1 \<longrightarrow> space lptr (l_nodes example_lmem) (l_cr3 example_lmem)
      (unat (0xFFFFFFFF80100000 :: usize) div 4096 + j) = Some (k, e) \<longrightarrow> k = 0" by (simp add: example_lmem_ok(5))
  have r: "lroom example_lmem (3 * (pages 0x1800 div 512) + 7)" unfolding p using lroom_mono [OF example_lmem_ok(4), of 7] by simp
  obtain m' where m': "init_early_paging 0x2000 (PhysAddr 0x100000) (VirtAddr 0xFFFFFFFF80100000) (MSize 0x1800)
      example_lmem = Inr m'"
    "\<forall>x. unat (0xFFFFFFFF80100000 :: usize) \<le> unat x \<longrightarrow> unat x < unat (0xFFFFFFFF80100000 :: usize) + unat (0x1800 :: usize) \<longrightarrow>
      (\<exists>e. translate_in (space lptr (l_nodes m') 0x2000) x = Some (0x100000 + (x - 0xFFFFFFFF80100000), e) \<and>
        writable e \<and> \<not> no_exec e)"
    using init_early_paging_maps [OF example_lmem_ok(1-3) slot k free r] by blast
  show ?thesis using m'(1) m'(2) [rule_format, of "0xFFFFFFFF80101234"] by auto
qed

end
