(* ===== verification/Loader_Main.thy ===== *)
theory Loader_Main
  imports Loader_Memory Loader_Paging
begin

text \<open>
  The loader's program (\<open>loader/src/main.rs\<close>): finding and reading the file of the kernel, measuring
  and loading its segments, allocating stack and heap, leaving the boot services, and the call of
  the kernel.

  The firmware is the parameter \<open>fw\<close>, one function per service that is called, on a firmware state
  of any type; the ELF parser is the parameter \<open>parse\<close>.  Physical memory is a function from
  addresses to bytes; the loader reaches it through the identity mapping.  The buffer with the
  file, the page tables (theory \<open>Loader_Paging\<close>) and the firmware's own data lie in memory that
  the firmware has allocated apart from the pages of the kernel, so they are kept apart here.
  The messages that are printed on the way are left out.
\<close>

section \<open>Services of the firmware\<close>

datatype efi_protocol = SIMPLE_FILE_SYSTEM_PROTOCOL | LOADED_IMAGE_PROTOCOL

datatype allocate_type = ALLOCATE_ANY_PAGES | ALLOCATE_ADDRESS

text \<open>
  A service takes the state of the firmware and its arguments, and returns the new state, the
  status and what it writes through its out parameters.  \<open>fw_pool\<close> is the effect of an allocation
  of the Rust runtime, which takes its memory from the firmware.
\<close>

record 's firmware =
  fw_get_memory_map :: "'s get_memory_map"
  fw_pool :: "'s \<Rightarrow> usize \<Rightarrow> 's"
  fw_allocate_pages :: "'s \<Rightarrow> allocate_type \<Rightarrow> usize \<Rightarrow> u64 \<Rightarrow> 's \<times> efi_status \<times> u64"
  fw_exit_boot_services :: "'s \<Rightarrow> usize \<Rightarrow> 's \<times> efi_status"
  fw_locate_protocol :: "'s \<Rightarrow> efi_protocol \<Rightarrow> 's \<times> efi_status \<times> usize"
  fw_image_base :: "'s \<Rightarrow> usize \<Rightarrow> usize"
  fw_open_volume :: "'s \<Rightarrow> usize \<Rightarrow> 's \<times> efi_status \<times> usize"
  fw_open :: "'s \<Rightarrow> usize \<Rightarrow> u16 list \<Rightarrow> 's \<times> efi_status \<times> usize"
  fw_get_info :: "'s \<Rightarrow> usize \<Rightarrow> 's \<times> efi_status \<times> u64"
  fw_read :: "'s \<Rightarrow> usize \<Rightarrow> usize \<Rightarrow> u8 list \<Rightarrow> 's \<times> efi_status \<times> usize \<times> u8 list"

text \<open>\<open>status_to_result(service(...)).expect(...)\<close>.\<close>

definition expect_service :: "'s \<times> efi_status \<times> 'a \<Rightarrow> ('s \<times> 'a) outcome" where
  "expect_service reply =
     (case reply of (s, status, x) \<Rightarrow>
        bind_out (expect_result (status_to_result status)) (\<lambda>_. Inr (s, x)))"

lemma expect_service_simps [simp]:
  "expect_service (s, SUCCESS, x) = Inr (s, x)"
  "status \<noteq> SUCCESS \<Longrightarrow> expect_service (s, status, x) = Inl Unwrap_failed"
  by (simp_all add: expect_service_def)

section \<open>The file of the kernel\<close>

definition open_root_dir :: "'s firmware \<Rightarrow> 's \<Rightarrow> ('s \<times> usize) outcome" where
  "open_root_dir fw s =
     bind_out (expect_service (fw_locate_protocol fw s SIMPLE_FILE_SYSTEM_PROTOCOL)) (\<lambda>(s1, simple_file_system).
     expect_service (fw_open_volume fw s1 simple_file_system))"

text \<open>\<open>"kernel.elf"\<close> in wide characters with a final zero.\<close>

definition kernel_file_name :: "u16 list" where
  "kernel_file_name = map (\<lambda>c. of_nat (of_char c)) ''kernel.elf'' @ [0]"

definition open_kernel_file :: "'s firmware \<Rightarrow> 's \<Rightarrow> usize \<Rightarrow> ('s \<times> usize \<times> usize) outcome" where
  "open_kernel_file fw s root_dir =
     bind_out (expect_service (fw_open fw s root_dir kernel_file_name)) (\<lambda>(s1, kernel_file).
     bind_out (expect_service (fw_get_info fw s1 kernel_file)) (\<lambda>(s2, kernel_file_size).
     Inr (s2, kernel_file, kernel_file_size)))"

definition read_kernel_file :: "'s firmware \<Rightarrow> 's \<Rightarrow> usize \<Rightarrow> usize \<Rightarrow> u8 list \<Rightarrow> ('s \<times> usize \<times> u8 list) outcome" where
  "read_kernel_file fw s kernel_file kernel_file_size kernel_ref =
     expect_service (fw_read fw s kernel_file kernel_file_size kernel_ref)"

definition get_image_base :: "'s firmware \<Rightarrow> 's \<Rightarrow> ('s \<times> usize) outcome" where
  "get_image_base fw s =
     bind_out (expect_service (fw_locate_protocol fw s LOADED_IMAGE_PROTOCOL)) (\<lambda>(s1, p).
     Inr (s1, fw_image_base fw s1 p))"

section \<open>Segments\<close>

datatype segment_type = PT_LOAD | Other_segment u32

record ProgramHeader =
  p_type :: segment_type
  p_offset :: u64
  p_vaddr :: u64
  p_paddr :: u64
  p_filesz :: u64
  p_memsz :: u64

text \<open>What the loader uses of a parsed file.\<close>

record ElfBytes =
  e_entry :: u64
  segments :: "ProgramHeader list option"

text \<open>\<open>file.segments().unwrap().into_iter().filter(|ph| ph.p_type == PT_LOAD)\<close>.\<close>

definition load_segments_of :: "ElfBytes \<Rightarrow> ProgramHeader list outcome" where
  "load_segments_of file =
     bind_out (unwrap_option (segments file)) (\<lambda>phs. Inr (filter (\<lambda>ph. p_type ph = PT_LOAD) phs))"

fun kernel_extent :: "ProgramHeader list \<Rightarrow> usize \<times> usize \<times> usize \<Rightarrow> (usize \<times> usize \<times> usize) outcome" where
  "kernel_extent [] acc = Inr acc"
| "kernel_extent (ph # phs) (kernel_start_virt, kernel_start_phys, kernel_end_virt) =
     bind_out (add_chk (p_vaddr ph) (p_memsz ph)) (\<lambda>end_virt.
     kernel_extent phs
       (min kernel_start_virt (p_vaddr ph), min kernel_start_phys (p_paddr ph), max kernel_end_virt end_virt))"

definition get_kernel_size :: "ElfBytes \<Rightarrow> (usize \<times> usize \<times> usize) outcome" where
  "get_kernel_size file =
     bind_out (load_segments_of file) (\<lambda>phs. kernel_extent phs (0xFFFFFFFFFFFFFFFF, 0xFFFFFFFFFFFFFFFF, 0))"

text \<open>\<open>ptr::copy_nonoverlapping\<close> and \<open>ptr::write_bytes\<close>, byte by byte.\<close>

fun copy_bytes :: "usize \<Rightarrow> u8 list \<Rightarrow> (usize \<Rightarrow> u8) \<Rightarrow> usize \<Rightarrow> u8" where
  "copy_bytes dst [] M = M"
| "copy_bytes dst (b # bs) M = copy_bytes (dst + 1) bs (M(dst := b))"

definition write_zeros :: "usize \<Rightarrow> nat \<Rightarrow> (usize \<Rightarrow> u8) \<Rightarrow> usize \<Rightarrow> u8" where
  "write_zeros dst n = copy_bytes dst (replicate n 0)"

text \<open>The body of the loop; a source range outside of the buffer is undefined behaviour.\<close>

definition load_segment :: "u8 list \<Rightarrow> ProgramHeader \<Rightarrow> (usize \<Rightarrow> u8) \<Rightarrow> (usize \<Rightarrow> u8) outcome" where
  "load_segment kernel_ref ph M =
     (if length kernel_ref < unat (p_offset ph) + unat (p_filesz ph) then Inl Bad_pointer
      else let M1 = copy_bytes (p_paddr ph) (take (unat (p_filesz ph)) (drop (unat (p_offset ph)) kernel_ref)) M in
        bind_out (sub_chk (p_memsz ph) (p_filesz ph)) (\<lambda>rest.
        Inr (write_zeros (p_paddr ph + p_filesz ph) (unat rest) M1)))"

fun load_all :: "u8 list \<Rightarrow> ProgramHeader list \<Rightarrow> (usize \<Rightarrow> u8) \<Rightarrow> (usize \<Rightarrow> u8) outcome" where
  "load_all kernel_ref [] M = Inr M"
| "load_all kernel_ref (ph # phs) M = bind_out (load_segment kernel_ref ph M) (load_all kernel_ref phs)"

section \<open>Loading the kernel\<close>

record 's loader =
  ld_fw :: 's
  ld_mem :: lmem
  ld_bytes :: "usize \<Rightarrow> u8"

text \<open>
  \<open>parse\<close> is \<open>ElfBytes::minimal_parse\<close>; \<open>slot\<close> is the address of the local page table in
  \<open>init_early_paging\<close>.
\<close>

definition load_to_memory ::
    "'s firmware \<Rightarrow> (u8 list \<Rightarrow> ElfBytes option) \<Rightarrow> usize \<Rightarrow> u8 list \<Rightarrow> usize \<Rightarrow> 's loader \<Rightarrow> ('s loader \<times> usize) outcome" where
  "load_to_memory fw parse slot kernel_ref kernel_file_size ld =
     bind_out (if length kernel_ref < unat kernel_file_size then Inl Bad_pointer else Inr ()) (\<lambda>_.
     bind_out (unwrap_option (parse (take (unat kernel_file_size) kernel_ref))) (\<lambda>kernel_elf.
     bind_out (get_kernel_size kernel_elf) (\<lambda>(kernel_start_virt, kernel_start_phys, kernel_end_virt).
     bind_out (sub_chk kernel_end_virt kernel_start_virt) (\<lambda>kernel_size.
     bind_out (init_early_paging slot (PhysAddr kernel_start_phys) (loader_virt_new kernel_start_virt)
                 (MSize kernel_size) (ld_mem ld)) (\<lambda>mem.
     bind_out (add_chk kernel_size 0xFFF) (\<lambda>rounded.
     bind_out (expect_service (fw_allocate_pages fw (ld_fw ld) ALLOCATE_ADDRESS (rounded div 0x1000) kernel_start_phys))
       (\<lambda>(s1, _).
     bind_out (load_segments_of kernel_elf) (\<lambda>phs.
     bind_out (load_all kernel_ref phs (ld_bytes ld)) (\<lambda>bytes.
     Inr (ld\<lparr>ld_fw := s1, ld_mem := mem, ld_bytes := bytes\<rparr>, e_entry kernel_elf))))))))))"

definition allocate_memory :: "'s firmware \<Rightarrow> 's \<Rightarrow> u64 \<Rightarrow> ('s \<times> u64) outcome" where
  "allocate_memory fw s sz =
     bind_out (add_chk sz 0xFFF) (\<lambda>rounded.
     expect_service (fw_allocate_pages fw s ALLOCATE_ANY_PAGES (rounded div 0x1000) 0))"

section \<open>main\<close>

definition LOADER_KERNEL_STACK_SIZE :: u64 where "LOADER_KERNEL_STACK_SIZE = 0x4000"
definition KERNEL_HEAP_SIZE :: u64 where "KERNEL_HEAP_SIZE = 0x1000000"

text \<open>The arguments of the call of the kernel.\<close>

record handover =
  ho_entry :: usize
  ho_stack_base :: u64
  ho_heap_base :: u64
  ho_heap_size :: u64
  ho_regions :: MemoryRegionArray

text \<open>\<open>main\<close> up to the file in memory and the kernel in place.\<close>

definition fetch_kernel ::
    "'s firmware \<Rightarrow> (u8 list \<Rightarrow> ElfBytes option) \<Rightarrow> usize \<Rightarrow> 's loader \<Rightarrow> ('s loader \<times> usize) outcome" where
  "fetch_kernel fw parse slot ld =
     bind_out (get_image_base fw (ld_fw ld)) (\<lambda>(s1, _).
     bind_out (open_root_dir fw s1) (\<lambda>(s2, root_dir).
     bind_out (open_kernel_file fw s2 root_dir) (\<lambda>(s3, kernel_file, kernel_file_size).
     bind_out (add_chk kernel_file_size 1024) (\<lambda>n.
     bind_out (vec_zeroed n) (\<lambda>buf.
     bind_out (read_kernel_file fw (fw_pool fw s3 n) kernel_file n buf) (\<lambda>(s4, kernel_file_size, kernel_ref).
     load_to_memory fw parse slot kernel_ref kernel_file_size (ld\<lparr>ld_fw := s4\<rparr>)))))))"

definition loader_main ::
    "'s firmware \<Rightarrow> read_descriptor \<Rightarrow> (u8 list \<Rightarrow> ElfBytes option) \<Rightarrow> usize \<Rightarrow> 's loader \<Rightarrow>
     ('s loader \<times> handover) outcome option" where
  "loader_main fw rd parse slot ld =
     bind_run (Some (memory_map_new (fw_get_memory_map fw) (fw_pool fw) (ld_fw ld))) (\<lambda>(s1, memory_map).
     bind_run (Some (fetch_kernel fw parse slot (ld\<lparr>ld_fw := s1\<rparr>))) (\<lambda>(ld2, kernel_entry).
     bind_run (Some (allocate_memory fw (ld_fw ld2) LOADER_KERNEL_STACK_SIZE)) (\<lambda>(s3, stack).
     bind_run (Some (bind_out (add_chk stack LOADER_KERNEL_STACK_SIZE) (\<lambda>x. add_chk x KERNEL_DIRECT_START))) (\<lambda>stack_base.
     bind_run (Some (allocate_memory fw s3 KERNEL_HEAP_SIZE)) (\<lambda>(s4, heap).
     bind_run (Some (add_chk heap KERNEL_DIRECT_START)) (\<lambda>heap_base.
     bind_run (region_loop rd memory_map 0 region_array_new) (\<lambda>memory_regions.
     bind_run (Some (memory_map_new (fw_get_memory_map fw) (fw_pool fw) s4)) (\<lambda>(s5, memory_map2).
     Some (case fw_exit_boot_services fw s5 (mm_map_key memory_map2) of (s6, status) \<Rightarrow>
       bind_out (expect_result (status_to_result status)) (\<lambda>_.
       Inr (ld2\<lparr>ld_fw := s6\<rparr>,
            \<lparr>ho_entry = kernel_entry, ho_stack_base = stack_base, ho_heap_base = heap_base,
             ho_heap_size = KERNEL_HEAP_SIZE, ho_regions = memory_regions\<rparr>)))))))))))"

end
