(* ===== verification/Loader_Correct.thy ===== *)
theory Loader_Correct
  imports Loader_Main
begin

text \<open>
  What the loader leaves to the kernel.  \<open>load_all\<close> puts the bytes of every segment in place and
  clears the rest of it; \<open>get_kernel_size\<close> computes the least range that holds all segments;
  together with the page tables this makes every byte of the kernel readable at the address for
  which it was linked (\<open>load_to_memory_places_kernel\<close>).  \<open>loader_main_ok\<close> follows the whole
  program up to the call of the kernel, and the error lemmas say which file makes it panic.
\<close>

section \<open>Bytes\<close>

lemma copy_bytes_at:
  assumes "unat dst + length bs \<le> 2 ^ 64"
  shows "copy_bytes dst bs M x =
    (if unat dst \<le> unat x \<and> unat x < unat dst + length bs then bs ! (unat x - unat dst) else M x)"
  using assms
proof (induction bs arbitrary: dst M)
  case Nil
  then show ?case by auto
next
  case (Cons b bs)
  show ?case
  proof (cases "bs = []")
    case True
    then show ?thesis by (auto simp: word_unat_eq_iff)
  next
    case False
    then have "unat dst + 1 < 2 ^ 64" using Cons.prems by (cases bs) simp_all
    then have s: "unat (dst + 1) = Suc (unat dst)" by (simp add: unat_add_no_wrap)
    have "unat (dst + 1) + length bs \<le> 2 ^ 64" using Cons.prems s by simp
    note step = Cons.IH [OF this, of "M(dst := b)"]
    have "x = dst \<longleftrightarrow> unat x = unat dst" by (rule word_unat_eq_iff)
    then show ?thesis unfolding copy_bytes.simps step s by (auto simp: nth_Cons')
  qed
qed

definition in_segment :: "ProgramHeader \<Rightarrow> usize \<Rightarrow> bool" where
  "in_segment ph x \<longleftrightarrow> unat (p_paddr ph) \<le> unat x \<and> unat x < unat (p_paddr ph) + unat (p_memsz ph)"

definition segment_byte :: "u8 list \<Rightarrow> ProgramHeader \<Rightarrow> nat \<Rightarrow> u8" where
  "segment_byte img ph i = (if i < unat (p_filesz ph) then img ! (unat (p_offset ph) + i) else 0)"

text \<open>The segment lies in the file and in memory, and is not larger in the file.\<close>

definition segment_ok :: "u8 list \<Rightarrow> ProgramHeader \<Rightarrow> bool" where
  "segment_ok img ph \<longleftrightarrow>
     unat (p_offset ph) + unat (p_filesz ph) \<le> length img \<and> unat (p_filesz ph) \<le> unat (p_memsz ph) \<and>
     unat (p_paddr ph) + unat (p_memsz ph) \<le> 2 ^ 64"

lemma load_segment_ok:
  assumes "segment_ok img ph"
  obtains M' where "load_segment img ph M = Inr M'"
    "\<And>x. M' x = (if in_segment ph x then segment_byte img ph (unat x - unat (p_paddr ph)) else M x)"
proof -
  let ?off = "unat (p_offset ph)" and ?f = "unat (p_filesz ph)" and ?p = "unat (p_paddr ph)" and ?n = "unat (p_memsz ph)"
  have ok: "?off + ?f \<le> length img" "?f \<le> ?n" "?p + ?n \<le> 2 ^ 64" using assms by (simp_all add: segment_ok_def)
  let ?bs = "take ?f (drop ?off img)"
  have len: "length ?bs = ?f" using ok(1) by simp
  define M1 where "M1 = copy_bytes (p_paddr ph) ?bs M"
  define M' where "M' = write_zeros (p_paddr ph + p_filesz ph) (?n - ?f) M1"
  have rest: "sub_chk (p_memsz ph) (p_filesz ph) = Inr (p_memsz ph - p_filesz ph)"
    "unat (p_memsz ph - p_filesz ph) = ?n - ?f"
    using ok(2) by (simp_all add: sub_chk_def word_le_nat_alt unat_sub)
  have "load_segment img ph M = Inr M'"
    using ok(1) rest by (simp add: load_segment_def M1_def M'_def)
  moreover have m1: "M1 x = (if ?p \<le> unat x \<and> unat x < ?p + ?f then img ! (?off + (unat x - ?p)) else M x)" for x
  proof -
    have "M1 x = (if ?p \<le> unat x \<and> unat x < ?p + ?f then ?bs ! (unat x - ?p) else M x)"
      unfolding M1_def using copy_bytes_at [of "p_paddr ph" ?bs M x] ok len by simp
    then show ?thesis using ok(1) by auto
  qed
  moreover have "M' x = (if in_segment ph x then segment_byte img ph (unat x - ?p) else M x)" for x
  proof (cases "?n = ?f")
    case True
    then show ?thesis using m1 by (auto simp: M'_def write_zeros_def in_segment_def segment_byte_def)
  next
    case False
    then have u: "unat (p_paddr ph + p_filesz ph) = ?p + ?f" using ok by (simp add: unat_add_no_wrap)
    have "M' x = (if ?p + ?f \<le> unat x \<and> unat x < ?p + ?n then 0 else M1 x)"
      unfolding M'_def write_zeros_def using copy_bytes_at [of "p_paddr ph + p_filesz ph" "replicate (?n - ?f) 0" M1 x] ok u
      by auto
    then show ?thesis using m1 ok(2) by (auto simp: in_segment_def segment_byte_def)
  qed
  ultimately show ?thesis by (intro that)
qed

definition disjoint_segments :: "ProgramHeader list \<Rightarrow> bool" where
  "disjoint_segments phs \<longleftrightarrow> sorted_wrt (\<lambda>a b. \<forall>x. \<not> (in_segment a x \<and> in_segment b x)) phs"

lemma load_all_ok:
  assumes "\<forall>ph \<in> set phs. segment_ok img ph" "disjoint_segments phs"
  obtains M' where "load_all img phs M = Inr M'"
    "\<And>ph x. ph \<in> set phs \<Longrightarrow> in_segment ph x \<Longrightarrow> M' x = segment_byte img ph (unat x - unat (p_paddr ph))"
    "\<And>x. \<forall>ph \<in> set phs. \<not> in_segment ph x \<Longrightarrow> M' x = M x"
  using assms
proof (induction phs arbitrary: M thesis)
  case Nil
  then show ?case by simp
next
  case (Cons ph phs)
  obtain M1 where M1: "load_segment img ph M = Inr M1"
    "\<And>x. M1 x = (if in_segment ph x then segment_byte img ph (unat x - unat (p_paddr ph)) else M x)"
    using load_segment_ok [where img = img and ph = ph and M = M] Cons.prems(2) by auto
  have rest: "\<forall>ph \<in> set phs. segment_ok img ph" "disjoint_segments phs"
    using Cons.prems(2,3) by (simp_all add: disjoint_segments_def)
  obtain M' where M': "load_all img phs M1 = Inr M'"
    "\<And>ph x. ph \<in> set phs \<Longrightarrow> in_segment ph x \<Longrightarrow> M' x = segment_byte img ph (unat x - unat (p_paddr ph))"
    "\<And>x. \<forall>ph \<in> set phs. \<not> in_segment ph x \<Longrightarrow> M' x = M1 x"
    using Cons.IH [OF _ rest] by blast
  show ?case
  proof (rule Cons.prems(1))
    show "load_all img (ph # phs) M = Inr M'" using M1(1) M'(1) by simp
    show "M' x = segment_byte img ph' (unat x - unat (p_paddr ph'))"
      if "ph' \<in> set (ph # phs)" "in_segment ph' x" for ph' x
    proof (cases "ph' \<in> set phs")
      case True
      then show ?thesis using M'(2) that(2) by blast
    next
      case False
      then have e: "ph' = ph" using that(1) by simp
      have "\<forall>q \<in> set phs. \<not> in_segment q x"
        using Cons.prems(3) that(2) e by (auto simp: disjoint_segments_def)
      then show ?thesis using M'(3) M1(2) that(2) e by simp
    qed
    show "M' x = M x" if "\<forall>ph \<in> set (ph # phs). \<not> in_segment ph x" for x
      using that M'(3) M1(2) by simp
  qed
qed

text \<open>A segment that is larger in the file than in memory makes the loader panic.\<close>

lemma load_segment_filesz_too_large:
  "unat (p_offset ph) + unat (p_filesz ph) \<le> length img \<Longrightarrow> p_memsz ph < p_filesz ph \<Longrightarrow>
     load_segment img ph M = Inl Arith_overflow"
  by (simp add: load_segment_def sub_chk_def)

section \<open>The extent of the kernel\<close>

lemma kernel_extent_ok:
  assumes "\<forall>ph \<in> set phs. unat (p_vaddr ph) + unat (p_memsz ph) < 2 ^ 64"
  shows "\<exists>v p e. kernel_extent phs (a, b, c) = Inr (v, p, e) \<and>
    v = Min (insert a (p_vaddr ` set phs)) \<and> p = Min (insert b (p_paddr ` set phs)) \<and>
    e = Max (insert c ((\<lambda>ph. p_vaddr ph + p_memsz ph) ` set phs))"
  using assms
proof (induction phs arbitrary: a b c)
  case Nil
  then show ?case by simp
next
  case (Cons ph phs)
  have add: "add_chk (p_vaddr ph) (p_memsz ph) = Inr (p_vaddr ph + p_memsz ph)"
    using Cons.prems by (simp add: add_chk_ok)
  have "Min (insert (min a (p_vaddr ph)) (p_vaddr ` set phs)) = Min (insert a (p_vaddr ` set (ph # phs)))"
    "Min (insert (min b (p_paddr ph)) (p_paddr ` set phs)) = Min (insert b (p_paddr ` set (ph # phs)))"
    "Max (insert (max c (p_vaddr ph + p_memsz ph)) ((\<lambda>ph. p_vaddr ph + p_memsz ph) ` set phs)) =
     Max (insert c ((\<lambda>ph. p_vaddr ph + p_memsz ph) ` set (ph # phs)))"
    by (cases "set phs = {}"; simp add: min.assoc max.assoc)+
  with Cons.IH [of "min a (p_vaddr ph)" "min b (p_paddr ph)" "max c (p_vaddr ph + p_memsz ph)"] Cons.prems
  show ?case by (simp add: add)
qed

text \<open>A file without a loadable segment makes the loader panic: the end lies below the start.\<close>

lemma no_segment_overflows:
  assumes "parse (take (unat n) img) = Some elf" "unat n \<le> length img" "load_segments_of elf = Inr []"
  shows "load_to_memory fw parse slot img n ld = Inl Arith_overflow"
  using assms by (simp add: load_to_memory_def get_kernel_size_def sub_chk_def)

section \<open>The kernel in place\<close>

text \<open>
  What \<open>kernel.ld\<close> and the format of the file promise: the segments lie in the file, in the upper
  2 GiB of the address space, within \<open>K\<close> times 2 MiB from its start, at physical addresses that
  follow from the virtual ones; they do not overlap, and the lowest one starts a page.
\<close>

definition kernel_segments :: "nat \<Rightarrow> u8 list \<Rightarrow> ProgramHeader list \<Rightarrow> bool" where
  "kernel_segments K img phs \<longleftrightarrow>
     disjoint_segments phs \<and>
     (\<exists>lo \<in> set phs. 4096 dvd unat (p_vaddr lo) \<and> (\<forall>ph \<in> set phs. p_vaddr lo \<le> p_vaddr ph)) \<and>
     (\<forall>ph \<in> set phs. unat (p_offset ph) + unat (p_filesz ph) \<le> length img \<and> p_filesz ph \<le> p_memsz ph \<and>
        0xFFFFFFFF80000000 \<le> p_vaddr ph \<and> p_paddr ph = p_vaddr ph - 0xFFFFFFFF80000000 \<and>
        unat (p_vaddr ph) + unat (p_memsz ph) \<le> 0xFFFFFFFF80000000 + 2 ^ 21 * K \<and>
        unat (p_vaddr ph) + unat (p_memsz ph) + 8192 \<le> 2 ^ 64)"

text \<open>What the loader finds in the firmware's tables and expects from its allocator.\<close>

definition early_tables_ok :: "usize \<Rightarrow> nat \<Rightarrow> lmem \<Rightarrow> bool" where
  "early_tables_ok slot K m \<longleftrightarrow>
     lmem_inv m \<and> tree_inv lptr (l_nodes m) (l_cr3 m) \<and> top_ok (l_nodes m) (l_cr3 m) \<and>
     slot \<notin> dom (l_nodes m) \<and> slot \<notin> set (l_pool m) \<and>
     (\<forall>n k e. 0xFFFFFFFF80000 \<le> n \<longrightarrow> space lptr (l_nodes m) (l_cr3 m) n = Some (k, e) \<longrightarrow> k = 0) \<and>
     lroom m (3 * K + 7)"

lemma kernel_segmentsD:
  assumes "kernel_segments K img phs" "ph \<in> set phs"
  shows "unat (p_offset ph) + unat (p_filesz ph) \<le> length img" "unat (p_filesz ph) \<le> unat (p_memsz ph)"
    "0xFFFFFFFF80000000 \<le> unat (p_vaddr ph)" "unat (p_paddr ph) = unat (p_vaddr ph) - 0xFFFFFFFF80000000"
    "unat (p_vaddr ph) + unat (p_memsz ph) \<le> 0xFFFFFFFF80000000 + 2 ^ 21 * K"
    "unat (p_vaddr ph) + unat (p_memsz ph) + 8192 \<le> 2 ^ 64" "p_paddr ph = p_vaddr ph - 0xFFFFFFFF80000000"
proof -
  show h: "unat (p_offset ph) + unat (p_filesz ph) \<le> length img" "unat (p_filesz ph) \<le> unat (p_memsz ph)"
    "0xFFFFFFFF80000000 \<le> unat (p_vaddr ph)" "p_paddr ph = p_vaddr ph - 0xFFFFFFFF80000000"
    "unat (p_vaddr ph) + unat (p_memsz ph) \<le> 0xFFFFFFFF80000000 + 2 ^ 21 * K"
    "unat (p_vaddr ph) + unat (p_memsz ph) + 8192 \<le> 2 ^ 64"
    using assms by (auto simp: kernel_segments_def word_le_nat_alt)
  show "unat (p_paddr ph) = unat (p_vaddr ph) - 0xFFFFFFFF80000000"
    using h(3,4) by (simp add: unat_sub word_le_nat_alt)
qed

text \<open>The extent that \<open>get_kernel_size\<close> finds.\<close>

lemma get_kernel_size_ok:
  assumes segs: "load_segments_of elf = Inr phs" and ks: "kernel_segments K img phs"
  obtains v e where "get_kernel_size elf = Inr (v, v - 0xFFFFFFFF80000000, e)" "4096 dvd unat v"
    "0xFFFFFFFF80000000 \<le> unat v" "v \<le> e" "unat e + 8192 \<le> 2 ^ 64" "unat e \<le> 0xFFFFFFFF80000000 + 2 ^ 21 * K"
    "\<And>ph. ph \<in> set phs \<Longrightarrow> unat v \<le> unat (p_vaddr ph) \<and> unat (p_vaddr ph) + unat (p_memsz ph) \<le> unat e"
proof -
  note ph = kernel_segmentsD [OF ks]
  obtain lo where lo: "lo \<in> set phs" "4096 dvd unat (p_vaddr lo)" "\<And>q. q \<in> set phs \<Longrightarrow> p_vaddr lo \<le> p_vaddr q"
    using ks unfolding kernel_segments_def by blast
  have sum: "unat (p_vaddr q + p_memsz q) = unat (p_vaddr q) + unat (p_memsz q)" if "q \<in> set phs" for q
    using ph(6) [OF that] by (intro unat_add_no_wrap) simp
  let ?E = "insert 0 ((\<lambda>q. p_vaddr q + p_memsz q) ` set phs)"
  have fin: "finite ?E" "?E \<noteq> {}" by simp_all
  define e where "e = Max ?E"
  have "\<forall>q \<in> set phs. unat (p_vaddr q) + unat (p_memsz q) < 2 ^ 64" using ph(6) by fastforce
  then have "kernel_extent phs (0xFFFFFFFFFFFFFFFF, 0xFFFFFFFFFFFFFFFF, 0) =
      Inr (Min (insert 0xFFFFFFFFFFFFFFFF (p_vaddr ` set phs)), Min (insert 0xFFFFFFFFFFFFFFFF (p_paddr ` set phs)), e)"
    using kernel_extent_ok unfolding e_def by blast
  moreover have top: "x \<le> 0xFFFFFFFFFFFFFFFF" for x :: usize
    using unat_usize_less [of x] by (simp add: word_le_nat_alt)
  moreover have "Min (insert 0xFFFFFFFFFFFFFFFF (p_vaddr ` set phs)) = p_vaddr lo"
    by (rule Min_eqI) (use lo top in auto)
  moreover have "p_paddr lo \<le> p_paddr q" if "q \<in> set phs" for q
    using ph(4) [OF that] ph(4) [OF lo(1)] lo(3) [OF that] by (simp add: word_le_nat_alt)
  then have "Min (insert 0xFFFFFFFFFFFFFFFF (p_paddr ` set phs)) = p_paddr lo"
    by (intro Min_eqI) (use lo(1) top in auto)
  ultimately have size: "get_kernel_size elf = Inr (p_vaddr lo, p_vaddr lo - 0xFFFFFFFF80000000, e)"
    using segs ph(7) [OF lo(1)] by (simp add: get_kernel_size_def)
  have up: "unat (p_vaddr q) + unat (p_memsz q) \<le> unat e" if "q \<in> set phs" for q
    using Max_ge [OF fin(1), of "p_vaddr q + p_memsz q"] sum [OF that] that by (auto simp: e_def word_le_nat_alt)
  have "e \<in> ?E" unfolding e_def using fin by (rule Max_in)
  then have end_ok: "unat e + 8192 \<le> 2 ^ 64" "unat e \<le> 0xFFFFFFFF80000000 + 2 ^ 21 * K"
    using sum ph(5,6) by auto
  show ?thesis
  proof (rule that [OF size lo(2) ph(3) [OF lo(1)] _ end_ok])
    show "p_vaddr lo \<le> e" using up [OF lo(1)] by (simp add: word_le_nat_alt)
    show "unat (p_vaddr lo) \<le> unat (p_vaddr q) \<and> unat (p_vaddr q) + unat (p_memsz q) \<le> unat e" if "q \<in> set phs" for q
      using up [OF that] lo(3) [OF that] by (simp add: word_le_nat_alt)
  qed
qed

lemma early_paging_kernel:
  assumes tabs: "early_tables_ok slot K m" and v: "4096 dvd unat v" "0xFFFFFFFF80000000 \<le> unat v" "v \<le> e"
    "unat e + 8192 \<le> 2 ^ 64" "unat e \<le> 0xFFFFFFFF80000000 + 2 ^ 21 * K"
  obtains m' where "init_early_paging slot (PhysAddr (v - 0xFFFFFFFF80000000)) (loader_virt_new v) (MSize (e - v)) m = Inr m'"
    "l_cr3 m' = slot"
    "space lptr (l_nodes m') slot =
       early_space (space lptr (l_nodes m) (l_cr3 m)) v (pages (e - v)) (v - 0xFFFFFFFF80000000)"
    "unat v + 4096 * pages (e - v) \<le> 2 ^ 64" "unat (v - 0xFFFFFFFF80000000) + 4096 * pages (e - v) \<le> 2 ^ 63"
    "4096 dvd unat (v - 0xFFFFFFFF80000000)"
proof -
  have sz: "unat (e - v) = unat e - unat v" "unat v \<le> unat e" using v(3) by (simp_all add: unat_sub word_le_nat_alt)
  have p: "unat (v - 0xFFFFFFFF80000000) = unat v - 0xFFFFFFFF80000000" using v(2) by (simp add: unat_sub word_le_nat_alt)
  have pd: "4096 dvd unat (v - 0xFFFFFFFF80000000)" unfolding p using v(1) by (simp add: dvd_diff_nat)
  have canon: "loader_virt_new v = VirtAddr v"
    using v(2) by (simp add: loader_virt_new_def canonicalize_canonical canonical_def)
  note pb = pages_bounds [of "e - v"]
  have "4096 * pages (e - v) < 4096 * (512 * K + 1)" using pb(2) sz v(2,5) by simp
  then have "pages (e - v) div 512 \<le> K" by simp
  then have room: "lroom m (Suc (3 * (pages (e - v) div 512) + 6 + 0))"
    using tabs by (auto simp: early_tables_ok_def lroom_def)
  have n: "0xFFFFFFFF80000 \<le> unat v div 4096" using div_le_mono [OF v(2), of 4096] by simp
  have "space lptr (l_nodes m) (l_cr3 m) (unat v div 4096 + j) = Some (k, x) \<longrightarrow> k = 0" for j k x
    using tabs n unfolding early_tables_ok_def by (metis trans_le_add1)
  then have free: "\<forall>j k x. j < max (pages (e - v)) 1 \<longrightarrow>
      space lptr (l_nodes m) (l_cr3 m) (unat v div 4096 + j) = Some (k, x) \<longrightarrow> k = 0" by blast
  have t: "lmem_inv m" "tree_inv lptr (l_nodes m) (l_cr3 m)" "top_ok (l_nodes m) (l_cr3 m)"
    "slot \<notin> dom (l_nodes m)" "slot \<notin> set (l_pool m)" using tabs by (simp_all add: early_tables_ok_def)
  have b: "unat v + unat (e - v) + 8192 \<le> 2 ^ 64" "unat (v - 0xFFFFFFFF80000000) + unat (e - v) + 8192 \<le> 2 ^ 63"
    using sz v(2,4) p by simp_all
  obtain m' where m': "init_early_paging slot (PhysAddr (v - 0xFFFFFFFF80000000)) (VirtAddr v) (MSize (e - v)) m = Inr m'"
    "l_cr3 m' = slot" "space lptr (l_nodes m') slot =
       early_space (space lptr (l_nodes m) (l_cr3 m)) v (pages (e - v)) (v - 0xFFFFFFFF80000000)"
    by (rule init_early_paging_ok [OF t v(1,2) b(1) pd b(2) free room])
  show ?thesis using that [of m'] m' b pb(2) pd by (simp add: canon)
qed

text \<open>The address space in \<open>CR3\<close>, and what the loader owes to the kernel in it.\<close>

definition loader_space :: "'s loader \<Rightarrow> address_space" where
  "loader_space ld = space lptr (l_nodes (ld_mem ld)) (l_cr3 (ld_mem ld))"

definition kernel_placed :: "u8 list \<Rightarrow> ProgramHeader list \<Rightarrow> 's loader \<Rightarrow> bool" where
  "kernel_placed img phs ld \<longleftrightarrow>
     (\<forall>ph \<in> set phs. \<forall>i < unat (p_memsz ph).
        \<exists>e. translate_in (loader_space ld) (p_vaddr ph + of_nat i) = Some (p_paddr ph + of_nat i, e) \<and>
          writable e \<and> \<not> no_exec e \<and> ld_bytes ld (p_paddr ph + of_nat i) = segment_byte img ph i)"

definition direct_mapped :: "'s loader \<Rightarrow> bool" where
  "direct_mapped ld \<longleftrightarrow>
     (\<forall>x. 0xFFFF888000000000 \<le> unat x \<longrightarrow> unat x < 0xFFFF890000000000 \<longrightarrow>
        (\<exists>e. translate_in (loader_space ld) x = Some (x - 0xFFFF888000000000, e) \<and> writable e \<and> no_exec e))"

lemma unat_add_of_nat: "unat (x :: usize) + i < 2 ^ 64 \<Longrightarrow> unat (x + of_nat i) = unat x + i"
  by (subst unat_add_no_wrap) (simp_all add: unat_of_nat_usize)

lemma load_to_memory_ok:
  assumes kf: "parse (take (unat n) kref) = Some elf" "unat n \<le> length kref" "img = take (unat n) kref"
    and segs: "load_segments_of elf = Inr phs" and ks: "kernel_segments K img phs"
    and tabs: "early_tables_ok slot K (ld_mem ld)"
    and alloc: "\<And>s k a. fst (snd (fw_allocate_pages fw s ALLOCATE_ADDRESS k a)) = SUCCESS"
  obtains ld' where "load_to_memory fw parse slot kref n ld = Inr (ld', e_entry elf)" "kernel_placed img phs ld'"
    "direct_mapped ld'" "l_cr3 (ld_mem ld') = slot"
    "\<And>x. \<forall>ph \<in> set phs. \<not> in_segment ph x \<Longrightarrow> ld_bytes ld' x = ld_bytes ld x"
    "\<And>x. unat x < 2 ^ 47 \<Longrightarrow> translate_in (loader_space ld') x = translate_in (loader_space ld) x"
proof -
  note ph = kernel_segmentsD [OF ks]
  obtain v e where size: "get_kernel_size elf = Inr (v, v - 0xFFFFFFFF80000000, e)" and v: "4096 dvd unat v"
    "0xFFFFFFFF80000000 \<le> unat v" "v \<le> e" "unat e + 8192 \<le> 2 ^ 64" "unat e \<le> 0xFFFFFFFF80000000 + 2 ^ 21 * K"
    and within: "\<And>q. q \<in> set phs \<Longrightarrow> unat v \<le> unat (p_vaddr q) \<and> unat (p_vaddr q) + unat (p_memsz q) \<le> unat e"
    by (rule get_kernel_size_ok [OF segs ks]) blast
  obtain m' where m': "init_early_paging slot (PhysAddr (v - 0xFFFFFFFF80000000)) (loader_virt_new v) (MSize (e - v))
      (ld_mem ld) = Inr m'" "l_cr3 m' = slot"
    "space lptr (l_nodes m') slot = early_space (loader_space ld) v (pages (e - v)) (v - 0xFFFFFFFF80000000)"
    and b: "unat v + 4096 * pages (e - v) \<le> 2 ^ 64" "unat (v - 0xFFFFFFFF80000000) + 4096 * pages (e - v) \<le> 2 ^ 63"
    "4096 dvd unat (v - 0xFFFFFFFF80000000)"
    unfolding loader_space_def by (rule early_paging_kernel [OF tabs v])
  note t = early_space_translates [OF v(1,2) b(1,3,2), where A = "loader_space ld", folded m'(3)]
  have "\<forall>q \<in> set phs. segment_ok kref q"
    using ph(1,2,4,6) kf(2,3) by (fastforce simp: segment_ok_def)
  moreover have "disjoint_segments phs" using ks by (simp add: kernel_segments_def)
  ultimately obtain M' where M': "load_all kref phs (ld_bytes ld) = Inr M'"
    "\<And>q x. q \<in> set phs \<Longrightarrow> in_segment q x \<Longrightarrow> M' x = segment_byte kref q (unat x - unat (p_paddr q))"
    "\<And>x. \<forall>q \<in> set phs. \<not> in_segment q x \<Longrightarrow> M' x = ld_bytes ld x"
    by (rule load_all_ok [where M = "ld_bytes ld"]) blast
  have sz: "unat (e - v) = unat e - unat v" "sub_chk e v = Inr (e - v)"
    using v(3) by (simp_all add: unat_sub word_le_nat_alt sub_chk_def)
  have rnd: "add_chk (e - v) 0xFFF = Inr (e - v + 0xFFF)" using sz v(2,4) by (intro add_chk_ok) simp
  obtain s1 a1 where al: "fw_allocate_pages fw (ld_fw ld) ALLOCATE_ADDRESS ((e - v + 0xFFF) div 0x1000)
      (v - 0xFFFFFFFF80000000) = (s1, SUCCESS, a1)" using alloc by (metis prod.collapse)
  define ld' where "ld' = ld\<lparr>ld_fw := s1, ld_mem := m', ld_bytes := M'\<rparr>"
  have run: "load_to_memory fw parse slot kref n ld = Inr (ld', e_entry elf)"
    using kf size sz rnd m'(1) al segs M'(1) by (simp add: load_to_memory_def ld'_def)
  have sp: "loader_space ld' = space lptr (l_nodes m') slot" by (simp add: loader_space_def ld'_def m'(2))
  have "\<exists>e. translate_in (loader_space ld') (p_vaddr q + of_nat i) = Some (p_paddr q + of_nat i, e) \<and>
      writable e \<and> \<not> no_exec e \<and> ld_bytes ld' (p_paddr q + of_nat i) = segment_byte img q i"
    if q: "q \<in> set phs" "i < unat (p_memsz q)" for q i
  proof -
    have u: "unat (p_vaddr q + of_nat i) = unat (p_vaddr q) + i" "unat (p_paddr q + of_nat i) = unat (p_paddr q) + i"
      using ph(4,6) [OF q(1)] q(2) by (simp_all add: unat_add_of_nat)
    have "unat v \<le> unat (p_vaddr q + of_nat i)" "unat (p_vaddr q + of_nat i) < unat v + 4096 * pages (e - v)"
      using within [OF q(1)] q(2) sz(1) pages_bounds(1) [of "e - v"] unfolding u by linarith+
    from t(1) [OF this] obtain x where x: "translate_in (loader_space ld') (p_vaddr q + of_nat i) = Some (p_paddr q + of_nat i, x)"
      "writable x" "\<not> no_exec x" unfolding sp ph(7) [OF q(1)] by (auto simp: algebra_simps)
    have "in_segment q (p_paddr q + of_nat i)" using q(2) by (simp add: in_segment_def u)
    from M'(2) [OF q(1) this] have "ld_bytes ld' (p_paddr q + of_nat i) = segment_byte img q i"
      using ph(1) [OF q(1)] kf(2,3) by (auto simp: ld'_def u segment_byte_def)
    with x show ?thesis by blast
  qed
  then have "kernel_placed img phs ld'" by (simp add: kernel_placed_def)
  moreover have "direct_mapped ld'" unfolding direct_mapped_def sp using t(2) by blast
  ultimately show ?thesis
    using run t(3) M'(3) m'(2) by (intro that [of ld']) (simp_all add: sp, simp_all add: ld'_def)
qed

section \<open>The whole loader\<close>

text \<open>The volume holds the kernel's file \<open>img\<close>, and the file services work.\<close>

definition file_system_ok :: "'s firmware \<Rightarrow> u8 list \<Rightarrow> bool" where
  "file_system_ok fw img \<longleftrightarrow>
     length img + 1024 < 2 ^ 63 \<and>
     (\<forall>s p. fst (snd (fw_locate_protocol fw s p)) = SUCCESS) \<and>
     (\<forall>s h. fst (snd (fw_open_volume fw s h)) = SUCCESS) \<and>
     (\<forall>s h. fst (snd (fw_open fw s h kernel_file_name)) = SUCCESS) \<and>
     (\<forall>s h. snd (fw_get_info fw s h) = (SUCCESS, of_nat (length img))) \<and>
     (\<forall>s h n buf. length buf = unat n \<longrightarrow> length img \<le> unat n \<longrightarrow>
        snd (fw_read fw s h n buf) = (SUCCESS, of_nat (length img), img @ drop (length img) buf))"

text \<open>
  The firmware grants the request for the kernel's place, and requests of up to 16 MiB for pages of
  its own choice, which are aligned and in the lower 512 GiB of physical memory.
\<close>

definition pages_available :: "'s firmware \<Rightarrow> bool" where
  "pages_available fw \<longleftrightarrow>
     (\<forall>s k a. fst (snd (fw_allocate_pages fw s ALLOCATE_ADDRESS k a)) = SUCCESS) \<and>
     (\<forall>s k a. unat k \<le> 4096 \<longrightarrow> fst (snd (fw_allocate_pages fw s ALLOCATE_ANY_PAGES k a)) = SUCCESS \<and>
        4096 dvd unat (snd (snd (fw_allocate_pages fw s ALLOCATE_ANY_PAGES k a))) \<and>
        unat (snd (snd (fw_allocate_pages fw s ALLOCATE_ANY_PAGES k a))) + 4096 * unat k \<le> 0x8000000000)"

text \<open>
  The memory map behaves as specified, has at most 128 descriptors, and grows by at most four of
  them with an allocation; the boot services end for the key of the current map.
\<close>

definition memory_map_ok ::
    "read_descriptor \<Rightarrow> 's firmware \<Rightarrow> usize \<Rightarrow> ('s \<Rightarrow> MemoryDescriptor list) \<Rightarrow> ('s \<Rightarrow> usize) \<Rightarrow> bool" where
  "memory_map_ok rd fw dsz desc key \<longleftrightarrow>
     get_memory_map_documented rd (fw_get_memory_map fw) dsz desc key \<and>
     (\<forall>s. length (desc s) \<le> 128 \<and> (length (desc s) + 4) * unat dsz < 2 ^ 63) \<and>
     (\<forall>s n. length (desc (fw_pool fw s n)) \<le> length (desc s) + 4) \<and>
     (\<forall>s. snd (fw_exit_boot_services fw s (key s)) = SUCCESS)"

lemma fetch_kernel_ok:
  assumes fs: "file_system_ok fw img" and elf: "parse img = Some elf"
    and segs: "load_segments_of elf = Inr phs" and ks: "kernel_segments K img phs"
    and tabs: "early_tables_ok slot K (ld_mem ld)" and av: "pages_available fw"
  obtains ld' where "fetch_kernel fw parse slot ld = Inr (ld', e_entry elf)" "kernel_placed img phs ld'" "direct_mapped ld'"
    "l_cr3 (ld_mem ld') = slot"
proof -
  obtain s1 x1 where l1: "fw_locate_protocol fw (ld_fw ld) LOADED_IMAGE_PROTOCOL = (s1, SUCCESS, x1)"
    using fs unfolding file_system_ok_def by (metis prod.collapse)
  obtain s2 x2 where l2: "fw_locate_protocol fw s1 SIMPLE_FILE_SYSTEM_PROTOCOL = (s2, SUCCESS, x2)"
    using fs unfolding file_system_ok_def by (metis prod.collapse)
  obtain s3 x3 where l3: "fw_open_volume fw s2 x2 = (s3, SUCCESS, x3)"
    using fs unfolding file_system_ok_def by (metis prod.collapse)
  obtain s4 x4 where l4: "fw_open fw s3 x3 kernel_file_name = (s4, SUCCESS, x4)"
    using fs unfolding file_system_ok_def by (metis prod.collapse)
  obtain s5 where l5: "fw_get_info fw s4 x4 = (s5, SUCCESS, of_nat (length img))"
    using fs unfolding file_system_ok_def by (metis prod.collapse)
  let ?n = "of_nat (length img) + 1024 :: usize"
  have len: "length img + 1024 < 2 ^ 63" using fs by (simp add: file_system_ok_def)
  then have u: "unat (of_nat (length img) :: usize) = length img" by (simp add: unat_of_nat_usize)
  then have n: "unat ?n = length img + 1024" "add_chk (of_nat (length img)) 1024 = Inr ?n"
    using len by (simp_all add: unat_add_no_wrap add_chk_ok)
  let ?buf = "replicate (unat ?n) 0 :: u8 list" and ?kref = "img @ replicate 1024 0"
  have "snd (fw_read fw (fw_pool fw s5 ?n) x4 ?n ?buf) = (SUCCESS, of_nat (length img), img @ drop (length img) ?buf)"
    using fs n(1) unfolding file_system_ok_def by (metis length_replicate le_add1)
  then obtain s6 where l6: "fw_read fw (fw_pool fw s5 ?n) x4 ?n ?buf = (s6, SUCCESS, of_nat (length img), ?kref)"
    using n(1) by (cases "fw_read fw (fw_pool fw s5 ?n) x4 ?n ?buf") simp
  have img: "img = take (unat (of_nat (length img) :: usize)) ?kref" using u by simp
  have alloc: "fst (snd (fw_allocate_pages fw s ALLOCATE_ADDRESS k a)) = SUCCESS" for s k a
    using av by (simp add: pages_available_def)
  let ?ld = "ld\<lparr>ld_fw := s6\<rparr>"
  have pre: "parse (take (unat (of_nat (length img) :: usize)) ?kref) = Some elf"
    "unat (of_nat (length img) :: usize) \<le> length ?kref" "early_tables_ok slot K (ld_mem ?ld)"
    using elf u tabs by simp_all
  obtain ld' where ld': "load_to_memory fw parse slot ?kref (of_nat (length img)) ?ld = Inr (ld', e_entry elf)"
    "kernel_placed img phs ld'" "direct_mapped ld'" "l_cr3 (ld_mem ld') = slot"
    by (rule load_to_memory_ok [where parse = parse and n = "of_nat (length img)" and kref = ?kref and fw = fw and ld = ?ld,
          OF pre(1,2) img segs ks pre(3) alloc])
  have "vec_zeroed ?n = Inr ?buf" using len n(1) by (simp add: vec_zeroed_def)
  then have "fetch_kernel fw parse slot ld = Inr (ld', e_entry elf)"
    using l1 l2 l3 l4 l5 l6 n(2) ld'(1)
    by (simp add: fetch_kernel_def get_image_base_def open_root_dir_def open_kernel_file_def read_kernel_file_def)
  then show ?thesis using ld'(2-4) by (rule that)
qed

lemma allocate_memory_ok:
  assumes av: "pages_available fw" and sz: "unat sz \<le> 0x1000000" "4096 dvd unat sz"
  obtains s' a where "allocate_memory fw s sz = Inr (s', a)" "4096 dvd unat a" "unat a + unat sz \<le> 0x8000000000"
proof -
  let ?k = "(sz + 0xFFF) div 0x1000"
  have add: "add_chk sz 0xFFF = Inr (sz + 0xFFF)" "unat (sz + 0xFFF) = unat sz + 0xFFF"
    using sz(1) by (simp_all add: add_chk_ok unat_add_no_wrap)
  have "unat ?k = (unat sz + 0xFFF) div 4096" using add(2) by (simp add: unat_div)
  then have k: "4096 * unat ?k = unat sz" using sz(2) by auto
  then have le: "unat ?k \<le> 4096" using sz(1) by linarith
  obtain s' a where a: "fw_allocate_pages fw s ALLOCATE_ANY_PAGES ?k 0 = (s', SUCCESS, a)"
    using av le unfolding pages_available_def by (metis prod.collapse)
  have "4096 dvd unat a" "unat a + 4096 * unat ?k \<le> 0x8000000000"
    using av a le unfolding pages_available_def by (metis snd_conv)+
  then show ?thesis using that [of s' a] add(1) a k by (simp add: allocate_memory_def)
qed

text \<open>What the kernel is called with: the windows of stack and heap, the regions, and the entry point.\<close>

definition handover_ok :: "ElfBytes \<Rightarrow> MemoryDescriptor list \<Rightarrow> handover \<Rightarrow> bool" where
  "handover_ok elf ds ho \<longleftrightarrow>
     ho_entry ho = e_entry elf \<and> ho_heap_size ho = 0x1000000 \<and>
     4096 dvd unat (ho_heap_base ho) \<and> 0xFFFF888000000000 \<le> unat (ho_heap_base ho) \<and>
     unat (ho_heap_base ho) + 0x1000000 \<le> 0xFFFF890000000000 \<and>
     4096 dvd unat (ho_stack_base ho) \<and> 0xFFFF888000004000 \<le> unat (ho_stack_base ho) \<and>
     unat (ho_stack_base ho) \<le> 0xFFFF890000000000 \<and>
     unat (ra_count (ho_regions ho)) = length ds \<and>
     ra_regions (ho_regions ho) = map region_spec ds @ replicate (128 - length ds) memory_region_zeroed"

lemma loader_main_ok:
  assumes mm: "memory_map_ok rd fw dsz desc key" and fs: "file_system_ok fw img" and av: "pages_available fw"
    and elf: "parse img = Some elf" "load_segments_of elf = Inr phs" "kernel_segments K img phs"
    and tabs: "early_tables_ok slot K (ld_mem ld)"
  obtains ld' ho n where "loader_main fw rd parse slot ld = Some (Inr (ld', ho))" "kernel_placed img phs ld'"
    "direct_mapped ld'" "l_cr3 (ld_mem ld') = slot" "handover_ok elf (desc (fw_pool fw (ld_fw ld) n)) ho"
proof -
  let ?gmm = "fw_get_memory_map fw" and ?pool = "fw_pool fw"
  have doc: "get_memory_map_documented rd ?gmm dsz desc key" "length (desc s) \<le> 128" "(length (desc s) + 4) * unat dsz < 2 ^ 63"
    "length (desc (?pool s n)) \<le> length (desc s) + 4" "snd (fw_exit_boot_services fw s (key s)) = SUCCESS" for s n
    using mm by (simp_all add: memory_map_ok_def)
  obtain n map1 where m1: "memory_map_new ?gmm ?pool (ld_fw ld) = Inr (?pool (ld_fw ld) n, map1)"
    "holds_descriptors rd map1 (desc (?pool (ld_fw ld) n))"
    by (rule memory_map_new_ok [where pool = ?pool and s = "ld_fw ld", OF doc(1,3,4)])
  let ?ds = "desc (?pool (ld_fw ld) n)" and ?ld1 = "ld\<lparr>ld_fw := ?pool (ld_fw ld) n\<rparr>"
  have tabs1: "early_tables_ok slot K (ld_mem ?ld1)" using tabs by simp
  obtain ld2 where ld2: "fetch_kernel fw parse slot ?ld1 = Inr (ld2, e_entry elf)" "kernel_placed img phs ld2"
    "direct_mapped ld2" "l_cr3 (ld_mem ld2) = slot"
    by (rule fetch_kernel_ok [where parse = parse and ld = ?ld1, OF fs elf tabs1 av])
  obtain s3 st where st: "allocate_memory fw (ld_fw ld2) LOADER_KERNEL_STACK_SIZE = Inr (s3, st)" "4096 dvd unat st"
    "unat st + unat LOADER_KERNEL_STACK_SIZE \<le> 0x8000000000"
    by (rule allocate_memory_ok [OF av, of LOADER_KERNEL_STACK_SIZE]) (simp_all add: LOADER_KERNEL_STACK_SIZE_def)
  obtain s4 hp where hp: "allocate_memory fw s3 KERNEL_HEAP_SIZE = Inr (s4, hp)" "4096 dvd unat hp"
    "unat hp + unat KERNEL_HEAP_SIZE \<le> 0x8000000000"
    by (rule allocate_memory_ok [OF av, of KERNEL_HEAP_SIZE]) (simp_all add: KERNEL_HEAP_SIZE_def)
  note sizes = LOADER_KERNEL_STACK_SIZE_def KERNEL_HEAP_SIZE_def KERNEL_DIRECT_START_def
  let ?sb = "st + LOADER_KERNEL_STACK_SIZE + KERNEL_DIRECT_START" and ?hb = "hp + KERNEL_DIRECT_START"
  have u: "unat (st + 0x4000) = unat st + 0x4000" using st(3) by (simp add: sizes unat_add_no_wrap)
  have sb: "unat ?sb = unat st + 0xFFFF888000004000"
    "bind_out (add_chk st LOADER_KERNEL_STACK_SIZE) (\<lambda>x. add_chk x KERNEL_DIRECT_START) = Inr ?sb"
    using st(3) u unat_add_no_wrap [of "st + 0x4000" "0xFFFF888000000000"] by (simp_all add: sizes add_chk_def)
  have hb: "unat ?hb = unat hp + 0xFFFF888000000000" "add_chk hp KERNEL_DIRECT_START = Inr ?hb"
    using hp(3) by (simp_all add: sizes unat_add_no_wrap add_chk_def)
  obtain arr where arr: "region_loop rd map1 0 region_array_new = Some (Inr arr)" "unat (ra_count arr) = length ?ds"
    "ra_regions arr = map region_spec ?ds @ replicate (128 - length ?ds) memory_region_zeroed"
    using region_loop_map [OF m1(2) doc(2)] by blast
  obtain n2 map2 where m2: "memory_map_new ?gmm ?pool s4 = Inr (?pool s4 n2, map2)" "mm_map_key map2 = key (?pool s4 n2)"
    by (rule memory_map_new_ok [where pool = ?pool and s = s4, OF doc(1,3,4)])
  obtain s6 where ex: "fw_exit_boot_services fw (?pool s4 n2) (mm_map_key map2) = (s6, SUCCESS)"
    using doc(5) [of "?pool s4 n2"] m2(2) by (metis prod.collapse)
  define ho where "ho = \<lparr>ho_entry = e_entry elf, ho_stack_base = ?sb, ho_heap_base = ?hb,
    ho_heap_size = KERNEL_HEAP_SIZE, ho_regions = arr\<rparr>"
  have run: "loader_main fw rd parse slot ld = Some (Inr (ld2\<lparr>ld_fw := s6\<rparr>, ho))"
    using m1(1) ld2(1) st(1) sb(2) hp(1) hb(2) arr(1) m2(1) ex by (simp add: loader_main_def ho_def)
  have "4096 dvd unat st + 4096 * 0xFFFF888000004" "4096 dvd unat hp + 4096 * 0xFFFF888000000"
    using st(2) hp(2) by (simp_all only: dvd_add dvd_triv_left)
  then have "handover_ok elf ?ds ho"
    using st(3) hp(3) sb(1) hb(1) arr(2,3) by (simp add: handover_ok_def ho_def sizes)
  with run ld2(2-4) show ?thesis
    by (intro that [of "ld2\<lparr>ld_fw := s6\<rparr>" ho n]) (simp_all add: kernel_placed_def direct_mapped_def loader_space_def)
qed

section \<open>Properties\<close>


text \<open>A volume with a kernel of three bytes, and a firmware with two memory regions.\<close>

definition example_header :: ProgramHeader where
  "example_header = \<lparr>p_type = PT_LOAD, p_offset = 0, p_vaddr = 0xFFFFFFFF80100000, p_paddr = 0x100000,
     p_filesz = 3, p_memsz = 0x1800\<rparr>"

definition example_elf :: ElfBytes where
  "example_elf = \<lparr>e_entry = 0xFFFFFFFF80100000, segments = Some [example_header]\<rparr>"

definition example_gmm :: "unit get_memory_map" where
  "example_gmm s n b =
     (s, if b = None \<or> unat n < 96
         then \<lparr>gm_status = BUFFER_TOO_SMALL, gm_map_size = 96, gm_map = [], gm_map_key = 0, gm_desc_size = 48, gm_desc_ver = 1\<rparr>
         else \<lparr>gm_status = SUCCESS, gm_map_size = 96, gm_map = mm_map example_map, gm_map_key = 1, gm_desc_size = 48,
               gm_desc_ver = 1\<rparr>)"

definition example_firmware :: "unit firmware" where
  "example_firmware =
     \<lparr>fw_get_memory_map = example_gmm, fw_pool = (\<lambda>s _. s),
      fw_allocate_pages = (\<lambda>s t k a. (s, SUCCESS, if t = ALLOCATE_ANY_PAGES then 0x2000000 else a)),
      fw_exit_boot_services = (\<lambda>s key. (s, if key = 1 then SUCCESS else Other_status 2)),
      fw_locate_protocol = (\<lambda>s _. (s, SUCCESS, 0x500)), fw_image_base = (\<lambda>_ _. 0x400000),
      fw_open_volume = (\<lambda>s _. (s, SUCCESS, 0x600)), fw_open = (\<lambda>s _ _. (s, SUCCESS, 0x700)),
      fw_get_info = (\<lambda>s _. (s, SUCCESS, 3)), fw_read = (\<lambda>s _ _ buf. (s, SUCCESS, 3, [7, 8, 9] @ drop 3 buf))\<rparr>"

definition example_loader :: "unit loader" where
  "example_loader = \<lparr>ld_fw = (), ld_mem = example_lmem, ld_bytes = (\<lambda>_. 0xCC)\<rparr>"

lemma example_segments:
  "load_segments_of example_elf = Inr [example_header]" "kernel_segments 1 [7, 8, 9] [example_header]"
  by (simp_all add: load_segments_of_def example_elf_def example_header_def kernel_segments_def disjoint_segments_def
      word_le_nat_alt)

lemma example_tables: "early_tables_ok 0x2000 1 (ld_mem example_loader)"
  using example_lmem_ok by (auto simp: early_tables_ok_def example_loader_def) (simp_all add: example_lmem_def)

lemma example_firmware_ok:
  "memory_map_ok example_rd example_firmware 48 (\<lambda>_. example_descriptors) (\<lambda>_. 1)"
  "file_system_ok example_firmware [7, 8, 9]" "pages_available example_firmware"
proof -
  have h: "holds_descriptors example_rd \<lparr>mm_map = mm_map example_map, mm_map_size = 96, mm_map_key = k, mm_desc_size = 48,
      mm_desc_ver = ver\<rparr> example_descriptors" for k ver
    using example_holds by (simp add: holds_descriptors_def example_map_def)
  have "length example_descriptors = 2" by (simp add: example_descriptors_def)
  with h show "memory_map_ok example_rd example_firmware 48 (\<lambda>_. example_descriptors) (\<lambda>_. 1)"
    by (simp add: memory_map_ok_def get_memory_map_documented_def example_firmware_def example_gmm_def)
  show "file_system_ok example_firmware [7, 8, 9]" by (simp add: file_system_ok_def example_firmware_def numeral_3_eq_3)
  show "pages_available example_firmware" by (simp add: pages_available_def example_firmware_def)
qed


end
